(* ===== verification/Prelude.thy ===== *)
theory Prelude
  imports Main "HOL-Library.Word" "HOL-Library.Monad_Syntax"
begin

text \<open>
  The vocabulary every component shares: the machine's integer types, byte-addressed memory
  with unmapped addresses, the typed reads and writes the C code performs on it, the log of the
  kernel allocator's calls, and the lemmas on them.

  \<^item> A C function that can access memory outside what is mapped, or dereference a pointer that
    is not to a live object, returns an option: \<open>None\<close> is the fault (or, for the loops that
    search memory, running forever), \<open>Some\<close> carries the result.
  \<^item> Memory is a partial function from 32-bit addresses to bytes. \<open>fetch\<close> reads a run of
    bytes, \<open>put\<close> is the memory after a run of bytes has been written; address arithmetic wraps
    as it does on the machine.
  \<^item> The kernel heap (\<open>mm/kheap.o\<close>) is only present as an object file. It is a parameter
    \<open>alloc\<close> of the model: the address its \<open>malloc\<close> returns, as a function of the
    calls made so far and the size requested.
\<close>

unbundle bit_operations_syntax

section \<open>Machine integers\<close>

type_synonym u8 = "8 word"
type_synonym u16 = "16 word"
type_synonym u32 = "32 word"
type_synonym u64 = "64 word"
type_synonym ptr = u32

abbreviation NULL :: ptr where "NULL \<equiv> 0"

named_theorems word_facts \<open>facts on loop counters and address offsets\<close>
named_theorems mem_facts \<open>facts on fetch, put and mapped\<close>

lemma unat_Suc_less [word_facts]:
  fixes i n :: "'a::len word"
  assumes "i < n"
  shows "unat (i + 1) = Suc (unat i)"
proof -
  have "unat i + 1 < 2 ^ LENGTH('a)"
    using assms unsigned_less [of n, where ?'a = nat] unfolding word_less_nat_alt by linarith
  then show ?thesis by (simp add: unat_word_ariths)
qed

lemma word_loop_dec [word_facts]:
  fixes i n :: "'a::len word"
  shows "i < n \<Longrightarrow> unat n - unat (i + 1) < unat n - unat i"
  by (simp add: unat_Suc_less word_less_nat_alt)

lemma unat_of_nat32 [word_facts]: "k < 2 ^ 32 \<Longrightarrow> unat (of_nat k :: u32) = k"
  by (simp add: unat_of_nat take_bit_nat_eq_self)

lemma unat_lt_2p32 [word_facts]: "unat (x :: u32) < 2 ^ 32"
  using unsigned_less [of x] by simp

lemma offset_unat [word_facts]: "k < 2 ^ 32 \<Longrightarrow> unat ((p + of_nat k) - p :: u32) = k"
  by (simp add: unat_of_nat32)

lemma of_nat_less32: "k < unat (n :: u32) \<Longrightarrow> (of_nat k :: u32) < n"
  using unat_lt_2p32 [of n] by (simp add: word_less_nat_alt unat_of_nat32)

lemma offset_inj:
  "p + of_nat i = p + of_nat j \<Longrightarrow> i < 2 ^ 32 \<Longrightarrow> j < 2 ^ 32 \<Longrightarrow> i = j" for p :: u32
  by (metis add_left_cancel unat_of_nat32)

section \<open>Memory\<close>

type_synonym mem = "ptr \<Rightarrow> u8 option"

definition st8 :: "mem \<Rightarrow> ptr \<Rightarrow> u8 \<Rightarrow> mem option" where
  "st8 m a v = (if m a = None then None else Some (m(a \<mapsto> v)))"

fun fetch :: "mem \<Rightarrow> ptr \<Rightarrow> nat \<Rightarrow> u8 list option" where
  "fetch m a 0 = Some []"
| "fetch m a (Suc n) = do { b \<leftarrow> m a; bs \<leftarrow> fetch m (a + 1) n; Some (b # bs) }"

fun mapped :: "mem \<Rightarrow> ptr \<Rightarrow> nat \<Rightarrow> bool" where
  "mapped m a 0 = True"
| "mapped m a (Suc n) = (m a \<noteq> None \<and> mapped m (a + 1) n)"

definition put :: "mem \<Rightarrow> ptr \<Rightarrow> u8 list \<Rightarrow> mem" where
  "put m p bs = (\<lambda>a. if unat (a - p) < length bs then Some (bs ! unat (a - p)) else m a)"

text \<open>Two runs of bytes that do not meet, on the circle of 32-bit addresses.\<close>

definition apart :: "ptr \<Rightarrow> nat \<Rightarrow> ptr \<Rightarrow> nat \<Rightarrow> bool" where
  "apart p n q k \<longleftrightarrow> n = 0 \<or> k = 0 \<or> n \<le> unat (q - p) \<and> k \<le> unat (p - q)"

lemma fetch_iff [mem_facts]:
  "fetch m p n = Some bs \<longleftrightarrow>
     length bs = n \<and> (\<forall>i < n. m (p + of_nat i) = Some (bs ! i))"
proof (induction n arbitrary: p bs)
  case 0
  then show ?case by auto
next
  case (Suc n)
  show ?case
  proof (cases bs)
    case Nil
    then show ?thesis by (auto split: Option.bind_splits)
  next
    case (Cons b cs)
    have step: "fetch m p (Suc n) = Some bs \<longleftrightarrow> m p = Some b \<and> fetch m (p + 1) n = Some cs"
      by (auto simp: Cons split: Option.bind_splits)
    show ?thesis
      unfolding step Suc.IH
      by (auto simp: Cons All_less_Suc2 algebra_simps)
  qed
qed

lemma mapped_iff [mem_facts]: "mapped m p n \<longleftrightarrow> (\<forall>i < n. m (p + of_nat i) \<noteq> None)"
  by (induction n arbitrary: p) (auto simp: All_less_Suc2 algebra_simps)

lemma fetch_mapped: "fetch m p n = Some bs \<Longrightarrow> mapped m p n"
  by (simp add: mem_facts)

lemma mapped_fetch: "mapped m p n \<Longrightarrow> \<exists>bs. fetch m p n = Some bs"
  by (rule exI [of _ "map (\<lambda>i. the (m (p + of_nat i))) [0..<n]"]) (auto simp: mem_facts)

lemma mapped_mono: "mapped m p n \<Longrightarrow> k \<le> n \<Longrightarrow> mapped m p k"
  by (auto simp: mem_facts)

lemma fetch_length: "fetch m p n = Some bs \<Longrightarrow> length bs = n"
  by (simp add: mem_facts)

lemma fetch_append:
  assumes "fetch m p n = Some xs" and "fetch m (p + of_nat n) k = Some ys"
  shows "fetch m p (n + k) = Some (xs @ ys)"
proof -
  have "m (p + of_nat i) = Some ((xs @ ys) ! i)" if "i < n + k" for i
  proof (cases "i < n")
    case True
    then show ?thesis using assms(1) by (simp add: mem_facts nth_append)
  next
    case False
    then have "i - n < k" using that by linarith
    then have "m (p + of_nat n + of_nat (i - n)) = Some (ys ! (i - n))"
      using assms(2) unfolding fetch_iff by blast
    moreover have "p + of_nat n + of_nat (i - n) = p + of_nat i"
      using False by (simp add: add.assoc flip: of_nat_add)
    ultimately show ?thesis using False assms(1)
      by (simp add: mem_facts nth_append del: of_nat_diff)
  qed
  then show ?thesis using assms by (simp add: mem_facts)
qed

lemma fetch_take: "fetch m p n = Some bs \<Longrightarrow> k \<le> n \<Longrightarrow> fetch m p k = Some (take k bs)"
  by (simp add: mem_facts)

lemma fetch_drop:
  "fetch m p n = Some bs \<Longrightarrow> k \<le> n \<Longrightarrow> fetch m (p + of_nat k) (n - k) = Some (drop k bs)"
  by (auto simp: mem_facts add.assoc simp flip: of_nat_add)

subsection \<open>Writing a run of bytes\<close>

lemma put_Nil [simp]: "put m p [] = m"
  by (simp add: put_def)

lemma put_hit [mem_facts]:
  "i < length bs \<Longrightarrow> length bs \<le> 2 ^ 32 \<Longrightarrow> put m p bs (p + of_nat i) = Some (bs ! i)"
  by (simp add: put_def unat_of_nat32)

lemma put_snoc:
  assumes "length bs < 2 ^ 32"
  shows "(put m p bs)(p + of_nat (length bs) \<mapsto> b) = put m p (bs @ [b])"
proof
  fix a
  have "a = p + of_nat (length bs) \<longleftrightarrow> unat (a - p) = length bs"
  proof
    assume "unat (a - p) = length bs"
    then have "of_nat (unat (a - p)) = (of_nat (length bs) :: u32)" by simp
    then show "a = p + of_nat (length bs)" by (simp add: algebra_simps)
  next
    assume "a = p + of_nat (length bs)"
    then show "unat (a - p) = length bs" using assms by (simp add: unat_of_nat32)
  qed
  then show "((put m p bs)(p + of_nat (length bs) \<mapsto> b)) a = put m p (bs @ [b]) a"
    by (auto simp: put_def nth_append)
qed

lemma put_mapped_at: "m a \<noteq> None \<Longrightarrow> put m p bs a \<noteq> None"
  by (simp add: put_def)

lemma mapped_put [mem_facts]: "mapped m q n \<Longrightarrow> mapped (put m p bs) q n"
  by (simp add: mapped_iff put_mapped_at)

lemma st8_put_snoc:
  assumes "length bs < 2 ^ 32" and "m (p + of_nat (length bs)) \<noteq> None"
  shows "st8 (put m p bs) (p + of_nat (length bs)) b = Some (put m p (bs @ [b]))"
  using put_mapped_at [where m = m and a = "p + of_nat (length bs)" and p = p and bs = bs] assms(2)
  by (simp add: st8_def put_snoc [OF assms(1)])

lemma fetch_put_same: "length bs \<le> 2 ^ 32 \<Longrightarrow> fetch (put m p bs) p (length bs) = Some bs"
  by (simp add: fetch_iff put_hit)

lemma apart_sym: "apart p n q k \<longleftrightarrow> apart q k p n"
  by (auto simp: apart_def)

lemma apart_offsets:
  assumes "apart p n q k" and "i < n" and "j < k"
  shows "p + of_nat i \<noteq> q + of_nat j"
proof
  assume eq: "p + of_nat i = q + of_nat j"
  have nk: "n \<le> unat (q - p)" "k \<le> unat (p - q)"
    using assms by (auto simp: apart_def)
  then have small: "i < 2 ^ 32" "j < 2 ^ 32"
    using assms unat_lt_2p32 [of "q - p"] unat_lt_2p32 [of "p - q"] by linarith+
  show False
  proof (cases "j \<le> i")
    case True
    then have "q - p = of_nat (i - j)"
      using eq by (simp add: of_nat_diff algebra_simps)
    then have "unat (q - p) = i - j" using small by (simp add: unat_of_nat32 del: of_nat_diff)
    then show False using nk assms(2) by linarith
  next
    case False
    then have "p - q = of_nat (j - i)"
      using eq by (simp add: of_nat_diff algebra_simps)
    then have "unat (p - q) = j - i" using small by (simp add: unat_of_nat32 del: of_nat_diff)
    then show False using nk assms(3) by linarith
  qed
qed

lemma apart_mono: "apart p n q k \<Longrightarrow> n' \<le> n \<Longrightarrow> k' \<le> k \<Longrightarrow> apart p n' q k'"
  by (auto simp: apart_def)

lemma put_miss:
  assumes "apart p (length bs) q k" and "j < k"
  shows "put m p bs (q + of_nat j) = m (q + of_nat j)"
proof (rule ccontr)
  assume "put m p bs (q + of_nat j) \<noteq> m (q + of_nat j)"
  then have lt: "unat (q + of_nat j - p) < length bs"
    by (auto simp: put_def split: if_splits)
  have "p + of_nat (unat (q + of_nat j - p)) = q + of_nat j"
    by simp
  with apart_offsets [OF assms(1) lt assms(2)] show False by simp
qed

lemma fetch_put_apart [mem_facts]:
  "apart p (length bs) q k \<Longrightarrow> fetch (put m p bs) q k = fetch m q k"
proof -
  assume ap: "apart p (length bs) q k"
  have "fetch (put m p bs) q k = Some cs \<longleftrightarrow> fetch m q k = Some cs" for cs
    using put_miss [OF ap] by (auto simp: fetch_iff)
  then show ?thesis by (metis not_None_eq)
qed

text \<open>Disjointness as no common address, and what follows for parts of runs.\<close>

lemma apart_iff:
  "apart p n q k \<longleftrightarrow> (\<forall>i < n. \<forall>j < k. p + of_nat i \<noteq> q + of_nat j)"
proof
  assume "apart p n q k"
  then show "\<forall>i < n. \<forall>j < k. p + of_nat i \<noteq> q + of_nat j" using apart_offsets by blast
next
  assume no: "\<forall>i < n. \<forall>j < k. p + of_nat i \<noteq> q + of_nat j"
  show "apart p n q k"
  proof (rule ccontr)
    assume "\<not> apart p n q k"
    then have nk: "0 < n" "0 < k" "unat (q - p) < n \<or> unat (p - q) < k"
      by (auto simp: apart_def)
    have "p + of_nat (unat (q - p)) = q + of_nat 0" "p + of_nat 0 = q + of_nat (unat (p - q))"
      by simp_all
    then show False using nk no by blast
  qed
qed

lemma apart_sub:
  assumes "apart p n q k" and "i + n' \<le> n" and "j + k' \<le> k"
  shows "apart (p + of_nat i) n' (q + of_nat j) k'"
  unfolding apart_iff
proof (intro allI impI)
  fix a b
  assume "a < n'" "b < k'"
  then have "i + a < n" "j + b < k" using assms by linarith+
  then have "p + of_nat (i + a) \<noteq> q + of_nat (j + b)" using assms(1) unfolding apart_iff by blast
  then show "p + of_nat i + of_nat a \<noteq> q + of_nat j + of_nat b" by (simp add: add.assoc)
qed

lemma apart_next: "i + n \<le> 2 ^ 32 \<Longrightarrow> apart (p + of_nat i) n p i"
  unfolding apart_iff
proof (intro allI impI)
  fix a b
  assume "i + n \<le> 2 ^ 32" "a < n" "b < i"
  then show "p + of_nat i + of_nat a \<noteq> p + of_nat b"
    using offset_inj [of p "i + a" b] by (auto simp: add.assoc)
qed

lemma mapped_sub: "mapped m p n \<Longrightarrow> i + k \<le> n \<Longrightarrow> mapped m (p + of_nat i) k"
  by (auto simp: mapped_iff add.assoc simp flip: of_nat_add)

lemma fetch_sub:
  assumes "fetch m p n = Some bs" and "i + k \<le> n"
  shows "fetch m (p + of_nat i) k = Some (take k (drop i bs))"
  using fetch_take [OF fetch_drop [OF assms(1), of i], of k] assms(2) by simp

subsection \<open>Little-endian loads\<close>

definition ld16 :: "mem \<Rightarrow> ptr \<Rightarrow> u16 option" where
  "ld16 m a = do { lo \<leftarrow> m a; hi \<leftarrow> m (a + 1); Some (ucast lo OR push_bit 8 (ucast hi)) }"

definition le16 :: "u8 \<Rightarrow> u8 \<Rightarrow> u16" where
  "le16 b0 b1 = ucast b0 OR push_bit 8 (ucast b1)"

definition le32 :: "u8 \<Rightarrow> u8 \<Rightarrow> u8 \<Rightarrow> u8 \<Rightarrow> u32" where
  "le32 b0 b1 b2 b3 =
     ucast b0 OR push_bit 8 (ucast b1) OR push_bit 16 (ucast b2) OR push_bit 24 (ucast b3)"

definition ld32 :: "mem \<Rightarrow> ptr \<Rightarrow> u32 option" where
  "ld32 m a = do { b0 \<leftarrow> m a; b1 \<leftarrow> m (a + 1); b2 \<leftarrow> m (a + 2); b3 \<leftarrow> m (a + 3);
     Some (le32 b0 b1 b2 b3) }"

lemma ld16_le16: "m a = Some b0 \<Longrightarrow> m (a + 1) = Some b1 \<Longrightarrow> ld16 m a = Some (le16 b0 b1)"
  by (simp add: ld16_def le16_def)

subsection \<open>Little-endian stores\<close>

definition bytes32 :: "u32 \<Rightarrow> u8 list" where
  "bytes32 v = [ucast v, ucast (drop_bit 8 v), ucast (drop_bit 16 v), ucast (drop_bit 24 v)]"

definition st32 :: "mem \<Rightarrow> ptr \<Rightarrow> u32 \<Rightarrow> mem option" where
  "st32 m a v = do {
     m \<leftarrow> st8 m a (ucast v);
     m \<leftarrow> st8 m (a + 1) (ucast (drop_bit 8 v));
     m \<leftarrow> st8 m (a + 2) (ucast (drop_bit 16 v));
     st8 m (a + 3) (ucast (drop_bit 24 v))
   }"

lemma length_bytes32 [simp]: "length (bytes32 v) = 4"
  by (simp add: bytes32_def)

lemma le32_bytes32: "le32 (ucast v) (ucast (drop_bit 8 v)) (ucast (drop_bit 16 v)) (ucast (drop_bit 24 v)) = v"
proof (rule bit_word_eqI)
  fix n
  assume n: "n < LENGTH(32)"
  consider "n < 8" | "8 \<le> n" "n < 16" | "16 \<le> n" "n < 24" | "24 \<le> n" by linarith
  then show "bit (le32 (ucast v) (ucast (drop_bit 8 v)) (ucast (drop_bit 16 v)) (ucast (drop_bit 24 v))) n
      \<longleftrightarrow> bit v n"
    using n by cases (auto simp: le32_def bit_simps)
qed

lemma st32_put:
  assumes "mapped m a 4"
  shows "st32 m a v = Some (put m a (bytes32 v))"
proof -
  have ok: "m (a + of_nat i) \<noteq> None" if "i < 4" for i using assms that by (auto simp: mapped_iff)
  have step: "st8 (put m a bs) (a + of_nat (length bs)) b = Some (put m a (bs @ [b]))" if "length bs < 4" for bs b
    using that by (intro st8_put_snoc ok) simp_all
  show ?thesis
    using step [of "[]"] step [of "[ucast v]"] step [of "[ucast v, ucast (drop_bit 8 v)]"]
      step [of "[ucast v, ucast (drop_bit 8 v), ucast (drop_bit 16 v)]"]
    by (simp add: st32_def bytes32_def)
qed

lemma ld32_fetch:
  assumes "fetch m a 4 = Some (bytes32 v)"
  shows "ld32 m a = Some v"
proof -
  have at: "m (a + of_nat i) = Some (bytes32 v ! i)" if "i < 4" for i
    using assms that unfolding fetch_iff by blast
  show ?thesis
    using at [of 0] at [of 1] at [of 2] at [of 3] by (simp add: ld32_def bytes32_def le32_bytes32)
qed

section \<open>The kernel allocator as a parameter\<close>

text \<open>
  Every \<open>malloc\<close> and \<open>free\<close> is logged, newest first. The address a \<open>malloc\<close> returns
  is given by the parameter \<open>alloc\<close> from the log and the size; 0 is failure.
\<close>

datatype heap_event = Malloc u32 ptr | Freed ptr

type_synonym heap_log = "heap_event list"
type_synonym allocator = "heap_log \<Rightarrow> u32 \<Rightarrow> ptr"

record kst =
  kmem :: mem
  hlog :: heap_log

definition malloc :: "allocator \<Rightarrow> u32 \<Rightarrow> 'z kst_scheme \<Rightarrow> ptr \<times> 'z kst_scheme" where
  "malloc alloc n s =
     (let p = alloc (hlog s) n
      in (p, if p = NULL then s else s\<lparr>hlog := Malloc n p # hlog s\<rparr>))"

definition free :: "ptr \<Rightarrow> 'z kst_scheme \<Rightarrow> 'z kst_scheme" where
  "free p s = s\<lparr>hlog := Freed p # hlog s\<rparr>"

text \<open>The blocks allocated and not freed since, with their sizes.\<close>

fun live :: "heap_log \<Rightarrow> ptr \<Rightarrow> u32 option" where
  "live [] = Map.empty"
| "live (Malloc n p # h) = (live h)(p \<mapsto> n)"
| "live (Freed p # h) = (live h)(p := None)"

text \<open>
  What the code relies on of the allocator: a block it returns is not one that is still in use.
\<close>

definition alloc_fresh :: "allocator \<Rightarrow> bool" where
  "alloc_fresh alloc \<longleftrightarrow> (\<forall>h n. alloc h n \<noteq> NULL \<longrightarrow> live h (alloc h n) = None)"

lemma malloc_sel [simp]:
  "fst (malloc alloc n s) = alloc (hlog s) n"
  "kmem (snd (malloc alloc n s)) = kmem s"
  by (simp_all add: malloc_def Let_def)

lemma free_sel [simp]: "kmem (free p s) = kmem s" "hlog (free p s) = Freed p # hlog s"
  by (simp_all add: free_def)

text \<open>An allocator that hands out the free blocks of a pool: the concrete instance the witnesses
  use.\<close>

definition pool :: "ptr list \<Rightarrow> allocator" where
  "pool ps h n = (case find (\<lambda>p. live h p = None) ps of None \<Rightarrow> NULL | Some p \<Rightarrow> p)"

lemma pool_fresh: "alloc_fresh (pool ps)"
  by (auto simp: alloc_fresh_def pool_def find_Some_iff split: option.splits)

end
