(* ===== verification/KString.thy ===== *)
theory KString
  imports Prelude
begin

text \<open>
  The C library's string and memory routines (\<open>libc/string.c\<close>), which the kernel and the user
  programs link. Each routine is translated loop by loop over byte-addressed memory: counters
  and addresses are 32-bit words that wrap, a read or write of an unmapped address is the fault
  \<open>None\<close>, and a loop that searches memory without a bound is a \<open>partial_function\<close>, so
  that not returning is \<open>None\<close> as well. The second half says what the routines compute on
  NUL-terminated strings (\<open>cstr\<close>) and on runs of bytes.
\<close>

unbundle bit_operations_syntax

section \<open>The routines\<close>

subsection \<open>Lengths and comparisons\<close>

partial_function (option) strlen_loop :: "mem \<Rightarrow> ptr \<Rightarrow> u32 \<Rightarrow> u32 option" where
  "strlen_loop m str len =
     do { c \<leftarrow> m (str + len);
          if c \<noteq> 0 then strlen_loop m str (len + 1) else Some len }"

definition strlen :: "mem \<Rightarrow> ptr \<Rightarrow> u32 option" where
  "strlen m str = strlen_loop m str 0"

definition byte_sub :: "u8 \<Rightarrow> u8 \<Rightarrow> int" where
  "byte_sub a b = int (unat a) - int (unat b)"

partial_function (option) strcmp :: "mem \<Rightarrow> ptr \<Rightarrow> ptr \<Rightarrow> int option" where
  "strcmp m str1 str2 =
     do { a \<leftarrow> m str1;
          b \<leftarrow> m str2;
          if a \<noteq> 0 \<and> a = b then strcmp m (str1 + 1) (str2 + 1) else Some (byte_sub a b) }"

function memcmp_loop :: "mem \<Rightarrow> ptr \<Rightarrow> ptr \<Rightarrow> u32 \<Rightarrow> u32 \<Rightarrow> int option" where
  "memcmp_loop m s1 s2 i n =
     (if i < n then
        do { a \<leftarrow> m (s1 + i);
             b \<leftarrow> m (s2 + i);
             if a \<noteq> b then Some (byte_sub a b) else memcmp_loop m s1 s2 (i + 1) n }
      else Some 0)"
  by pat_completeness auto
termination
  by (relation "measure (\<lambda>(m, s1, s2, i, n). unat n - unat i)") (auto intro: word_loop_dec)

definition memcmp :: "mem \<Rightarrow> ptr \<Rightarrow> ptr \<Rightarrow> u32 \<Rightarrow> int option" where
  "memcmp m s1 s2 n = memcmp_loop m s1 s2 0 n"

partial_function (option) strchr :: "mem \<Rightarrow> ptr \<Rightarrow> u32 \<Rightarrow> ptr option" where
  "strchr m str c =
     do { x \<leftarrow> m str;
          if x \<noteq> 0 then (if x = ucast c then Some str else strchr m (str + 1) c)
          else Some NULL }"

declare memcmp_loop.simps [simp del]

subsection \<open>Filling and copying\<close>

function memset_loop :: "mem \<Rightarrow> ptr \<Rightarrow> u8 \<Rightarrow> u32 \<Rightarrow> u32 \<Rightarrow> mem option" where
  "memset_loop m p c i n =
     (if i < n then do { m' \<leftarrow> st8 m (p + i) c; memset_loop m' p c (i + 1) n } else Some m)"
  by pat_completeness auto
termination
  by (relation "measure (\<lambda>(m, p, c, i, n). unat n - unat i)") (auto intro: word_loop_dec)

definition memset :: "mem \<Rightarrow> ptr \<Rightarrow> u32 \<Rightarrow> u32 \<Rightarrow> (ptr \<times> mem) option" where
  "memset m dest c n = do { m' \<leftarrow> memset_loop m dest (ucast c) 0 n; Some (dest, m') }"

function memcpy_loop :: "mem \<Rightarrow> ptr \<Rightarrow> ptr \<Rightarrow> u32 \<Rightarrow> u32 \<Rightarrow> mem option" where
  "memcpy_loop m d s i n =
     (if i < n then
        do { b \<leftarrow> m (s + i); m' \<leftarrow> st8 m (d + i) b; memcpy_loop m' d s (i + 1) n }
      else Some m)"
  by pat_completeness auto
termination
  by (relation "measure (\<lambda>(m, d, s, i, n). unat n - unat i)") (auto intro: word_loop_dec)

definition memcpy :: "mem \<Rightarrow> ptr \<Rightarrow> ptr \<Rightarrow> u32 \<Rightarrow> (ptr \<times> mem) option" where
  "memcpy m dest src n = do { m' \<leftarrow> memcpy_loop m dest src 0 n; Some (dest, m') }"

partial_function (option) strcpy_loop :: "mem \<Rightarrow> ptr \<Rightarrow> ptr \<Rightarrow> mem option" where
  "strcpy_loop m dest src =
     do { c \<leftarrow> m src;
          if c \<noteq> 0 then do { m' \<leftarrow> st8 m dest c; strcpy_loop m' (dest + 1) (src + 1) }
          else st8 m dest 0 }"

definition strcpy :: "mem \<Rightarrow> ptr \<Rightarrow> ptr \<Rightarrow> (ptr \<times> mem) option" where
  "strcpy m dest src = do { m' \<leftarrow> strcpy_loop m dest src; Some (dest, m') }"

function strncpy_copy :: "mem \<Rightarrow> ptr \<Rightarrow> ptr \<Rightarrow> u32 \<Rightarrow> u32 \<Rightarrow> (u32 \<times> mem) option" where
  "strncpy_copy m dest src i n =
     (if i < n then
        do { c \<leftarrow> m (src + i);
             if c \<noteq> 0 then
               do { m' \<leftarrow> st8 m (dest + i) c; strncpy_copy m' dest src (i + 1) n }
             else Some (i, m) }
      else Some (i, m))"
  by pat_completeness auto
termination
  by (relation "measure (\<lambda>(m, dest, src, i, n). unat n - unat i)") (auto intro: word_loop_dec)

text \<open>The padding loop is the loop of \<open>memset\<close>, started where the copy stopped.\<close>

definition strncpy :: "mem \<Rightarrow> ptr \<Rightarrow> ptr \<Rightarrow> u32 \<Rightarrow> (ptr \<times> mem) option" where
  "strncpy m dest src n =
     do { (i, m1) \<leftarrow> strncpy_copy m dest src 0 n;
          m2 \<leftarrow> memset_loop m1 dest 0 i n;
          Some (dest, m2) }"

partial_function (option) strcat_end :: "mem \<Rightarrow> ptr \<Rightarrow> ptr option" where
  "strcat_end m d = do { c \<leftarrow> m d; if c \<noteq> 0 then strcat_end m (d + 1) else Some d }"

text \<open>\<open>strcat\<close> copies and terminates with the same loop as \<open>strcpy\<close>.\<close>

definition strcat :: "mem \<Rightarrow> ptr \<Rightarrow> ptr \<Rightarrow> (ptr \<times> mem) option" where
  "strcat m dest src =
     do { d \<leftarrow> strcat_end m dest; m' \<leftarrow> strcpy_loop m d src; Some (dest, m') }"

declare memset_loop.simps [simp del] memcpy_loop.simps [simp del] strncpy_copy.simps [simp del]

subsection \<open>Tokens\<close>

text \<open>
  \<open>strtok\<close> keeps its position in a static pointer, an extra argument and result here. The
  scan stops at a NUL or at a byte of \<open>delim\<close>.
\<close>

partial_function (option) strtok_scan :: "mem \<Rightarrow> ptr \<Rightarrow> ptr \<Rightarrow> ptr option" where
  "strtok_scan m delim nt =
     do { c \<leftarrow> m nt;
          if c \<noteq> 0 then
            do { hit \<leftarrow> strchr m delim (ucast c);
                 if hit = NULL then strtok_scan m delim (nt + 1) else Some nt }
          else Some nt }"

definition strtok ::
  "mem \<Rightarrow> ptr \<Rightarrow> ptr \<Rightarrow> ptr \<Rightarrow> (ptr \<times> ptr \<times> mem) option" where
  "strtok m next_token str delim =
     (let nt = (if str \<noteq> NULL then str else next_token) in
      if nt = NULL then Some (NULL, nt, m)
      else
        do { c \<leftarrow> m nt;
             if c = 0 then Some (NULL, nt, m)
             else
               do { e \<leftarrow> strtok_scan m delim nt;
                    c' \<leftarrow> m e;
                    if c' \<noteq> 0
                    then do { m' \<leftarrow> st8 m e 0; Some (nt, e + 1, m') }
                    else Some (nt, NULL, m) } })"

partial_function (option) is_delim :: "mem \<Rightarrow> u8 \<Rightarrow> ptr \<Rightarrow> bool option" where
  "is_delim m c d =
     do { x \<leftarrow> m d;
          if x \<noteq> 0 then (if c = x then Some True else is_delim m c (d + 1)) else Some False }"

partial_function (option) strtok_r_skip :: "mem \<Rightarrow> ptr \<Rightarrow> ptr \<Rightarrow> ptr option" where
  "strtok_r_skip m delim str =
     do { c \<leftarrow> m str;
          if c \<noteq> 0 then
            do { b \<leftarrow> is_delim m c delim;
                 if \<not> b then Some str else strtok_r_skip m delim (str + 1) }
          else Some str }"

partial_function (option) strtok_r_end :: "mem \<Rightarrow> ptr \<Rightarrow> ptr \<Rightarrow> ptr option" where
  "strtok_r_end m delim str =
     do { c \<leftarrow> m str;
          if c \<noteq> 0 then
            do { b \<leftarrow> is_delim m c delim;
                 if b then Some str else strtok_r_end m delim (str + 1) }
          else Some str }"

text \<open>\<open>*saveptr\<close> comes in as an argument and goes out as the second result.\<close>

definition strtok_r ::
  "mem \<Rightarrow> ptr \<Rightarrow> ptr \<Rightarrow> ptr \<Rightarrow> (ptr \<times> ptr \<times> mem) option" where
  "strtok_r m str delim saveptr =
     (let str = (if str = NULL then saveptr else str) in
      if str = NULL then Some (NULL, NULL, m)
      else
        do { c \<leftarrow> m str;
             if c = 0 then Some (NULL, NULL, m)
             else
               do { start \<leftarrow> strtok_r_skip m delim str;
                    c1 \<leftarrow> m start;
                    if c1 = 0 then Some (NULL, NULL, m)
                    else
                      do { e \<leftarrow> strtok_r_end m delim start;
                           c2 \<leftarrow> m e;
                           if c2 \<noteq> 0
                           then do { m' \<leftarrow> st8 m e 0; Some (start, e + 1, m') }
                           else Some (start, NULL, m) } } })"

subsection \<open>Numbers\<close>

text \<open>
  \<open>long\<close> is 32 bits wide and its overflow is undefined in C: a step whose value does not fit
  is \<open>None\<close>. The byte ranges are those of the ASCII characters the code names.
\<close>

definition long_ok :: "int \<Rightarrow> bool" where
  "long_ok x \<longleftrightarrow> - (2 ^ 31) \<le> x \<and> x < 2 ^ 31"

definition is_white :: "u8 \<Rightarrow> bool" where
  "is_white c \<longleftrightarrow> c = 32 \<or> c = 9 \<or> c = 10 \<or> c = 11 \<or> c = 12 \<or> c = 13"

partial_function (option) strtol_skip :: "mem \<Rightarrow> ptr \<Rightarrow> ptr option" where
  "strtol_skip m s = do { c \<leftarrow> m s; if is_white c then strtol_skip m (s + 1) else Some s }"

definition digit_of :: "u8 \<Rightarrow> int option" where
  "digit_of c =
     (if 48 \<le> c \<and> c \<le> 57 then Some (int (unat c) - 48)
      else if 97 \<le> c \<and> c \<le> 122 then Some (int (unat c) - 97 + 10)
      else if 65 \<le> c \<and> c \<le> 90 then Some (int (unat c) - 65 + 10)
      else None)"

partial_function (option) strtol_digits ::
  "mem \<Rightarrow> int \<Rightarrow> ptr \<Rightarrow> int \<Rightarrow> (int \<times> ptr) option" where
  "strtol_digits m base s result =
     do { c \<leftarrow> m s;
          if c = 0 then Some (result, s)
          else (case digit_of c of
                  None \<Rightarrow> Some (result, s)
                | Some digit \<Rightarrow>
                    if base \<le> digit then Some (result, s)
                    else if long_ok (result * base) \<and> long_ok (result * base + digit)
                    then strtol_digits m base (s + 1) (result * base + digit)
                    else None) }"

definition strtol_base :: "mem \<Rightarrow> ptr \<Rightarrow> int \<Rightarrow> (int \<times> ptr) option" where
  "strtol_base m s base =
     (if base = 0 then
        do { c0 \<leftarrow> m s;
             if c0 = 48 then
               do { c1 \<leftarrow> m (s + 1);
                    if c1 = 120 \<or> c1 = 88 then Some (16, s + 2) else Some (8, s + 1) }
             else Some (10, s) }
      else if base = 16 then
        do { c0 \<leftarrow> m s;
             if c0 = 48 then
               do { c1 \<leftarrow> m (s + 1);
                    if c1 = 120 \<or> c1 = 88 then Some (16, s + 2) else Some (16, s) }
             else Some (16, s) }
      else Some (base, s))"

text \<open>The result and the value stored through \<open>endptr\<close> when it is not NULL.\<close>

definition strtol :: "mem \<Rightarrow> ptr \<Rightarrow> int \<Rightarrow> (int \<times> ptr) option" where
  "strtol m str base =
     do { s0 \<leftarrow> strtol_skip m str;
          c \<leftarrow> m s0;
          let negative = (c = 45);
          let s1 = (if c = 45 \<or> c = 43 then s0 + 1 else s0);
          (b, s2) \<leftarrow> strtol_base m s1 base;
          (result, e) \<leftarrow> strtol_digits m b s2 0;
          Some (if negative then - result else result, e) }"


section \<open>What the routines compute\<close>

subsection \<open>NUL-terminated strings\<close>

fun cstr :: "mem \<Rightarrow> ptr \<Rightarrow> u8 list \<Rightarrow> bool" where
  "cstr m p [] = (m p = Some 0)"
| "cstr m p (c # s) = (m p = Some c \<and> c \<noteq> 0 \<and> cstr m (p + 1) s)"

lemma cstr_iff_fetch:
  "cstr m p s \<longleftrightarrow> fetch m p (Suc (length s)) = Some (s @ [0]) \<and> 0 \<notin> set s"
  by (induction s arbitrary: p) (auto split: Option.bind_splits)

lemma cstr_nth:
  assumes "cstr m p s"
  shows "i < length s \<Longrightarrow> m (p + of_nat i) = Some (s ! i)"
    and "m (p + of_nat (length s)) = Some 0"
proof -
  have "\<forall>i < Suc (length s). m (p + of_nat i) = Some ((s @ [0]) ! i)"
    using assms unfolding cstr_iff_fetch fetch_iff by blast
  then show "i < length s \<Longrightarrow> m (p + of_nat i) = Some (s ! i)"
    and "m (p + of_nat (length s)) = Some 0"
    by (auto simp: All_less_Suc nth_append)
qed

lemma cstr_length: "cstr m p s \<Longrightarrow> length s < 2 ^ 32"
proof (rule ccontr)
  assume c: "cstr m p s" and "\<not> length s < 2 ^ 32"
  then have len: "2 ^ 32 \<le> length s" by simp
  define i :: nat where "i = length s - 2 ^ 32"
  have e: "p + of_nat i = p + of_nat (length s)"
    using len by (simp add: i_def of_nat_diff)
  have "m (p + of_nat (length s)) = Some 0" and "m (p + of_nat i) = Some (s ! i)"
    and "s ! i \<in> set s"
    using cstr_nth [OF c] len by (auto simp: i_def simp del: of_nat_diff)
  then show False using c e by (auto simp: cstr_iff_fetch)
qed

lemma cstr_append:
  "cstr m p (s @ t) \<longleftrightarrow>
     fetch m p (length s) = Some s \<and> 0 \<notin> set s \<and> cstr m (p + of_nat (length s)) t"
  by (induction s arbitrary: p) (auto simp: add.assoc split: Option.bind_splits)

lemma cstr_fetch: "cstr m p s \<Longrightarrow> fetch m p (Suc (length s)) = Some (s @ [0])"
  by (simp add: cstr_iff_fetch)

lemma cstr_unique: "cstr m p s \<Longrightarrow> cstr m p t \<Longrightarrow> s = t"
proof (induction s arbitrary: p t)
  case Nil
  then show ?case by (cases t) auto
next
  case (Cons c s)
  then show ?case by (cases t) auto
qed

lemma cstr_put_apart:
  "apart p (length bs) q (Suc (length s)) \<Longrightarrow> cstr (put m p bs) q s = cstr m q s"
  using fetch_put_apart [of p bs q "Suc (length s)" m] by (simp only: cstr_iff_fetch)

lemma cstr_put:
  assumes "length s < 2 ^ 32" and "0 \<notin> set s"
  shows "cstr (put m p (s @ [0])) p s"
  using fetch_put_same [of "s @ [0]" m p] assms by (simp add: cstr_iff_fetch)

subsection \<open>Lengths and comparisons\<close>

lemma strlen_loop_cstr:
  "cstr m (str + len) s \<Longrightarrow> strlen_loop m str len = Some (len + of_nat (length s))"
proof (induction s arbitrary: len)
  case Nil
  then show ?case by (subst strlen_loop.simps) simp
next
  case (Cons c s)
  then show ?case by (subst strlen_loop.simps) (simp add: add.assoc)
qed

lemma strlen_cstr: "cstr m p s \<Longrightarrow> strlen m p = Some (of_nat (length s))"
  using strlen_loop_cstr [of m p 0 s] by (simp add: strlen_def)

text \<open>The order \<open>strcmp\<close> and \<open>memcmp\<close> decide: bytes compared as unsigned characters.\<close>

fun cmp_bytes :: "u8 list \<Rightarrow> u8 list \<Rightarrow> int" where
  "cmp_bytes [] [] = 0"
| "cmp_bytes [] (b # _) = byte_sub 0 b"
| "cmp_bytes (a # _) [] = byte_sub a 0"
| "cmp_bytes (a # s) (b # t) = (if a = b then cmp_bytes s t else byte_sub a b)"

lemma byte_sub_eq_0 [simp]: "byte_sub a b = 0 \<longleftrightarrow> a = b"
  by (simp add: byte_sub_def word_uint_eq_iff)

lemma byte_sub_less_0 [simp]: "byte_sub a b < 0 \<longleftrightarrow> a < b"
  by (simp add: byte_sub_def word_less_def)

lemma cmp_bytes_eq_0: "0 \<notin> set s \<Longrightarrow> 0 \<notin> set t \<Longrightarrow> cmp_bytes s t = 0 \<longleftrightarrow> s = t"
  by (induction s t rule: cmp_bytes.induct) auto

lemma cmp_bytes_less_0:
  "0 \<notin> set s \<Longrightarrow> 0 \<notin> set t \<Longrightarrow> cmp_bytes s t < 0 \<longleftrightarrow> ord_class.lexordp s t"
proof (induction s t rule: cmp_bytes.induct)
  case (2 b t)
  then show ?case by (auto simp: word_neq_0_conv)
qed auto

lemma strcmp_cmp_bytes:
  "cstr m p s \<Longrightarrow> cstr m q t \<Longrightarrow> strcmp m p q = Some (cmp_bytes s t)"
proof (induction s t arbitrary: p q rule: cmp_bytes.induct)
  case (4 a s b t)
  then show ?case by (subst strcmp.simps) auto
qed (subst strcmp.simps, auto)+

lemma strcmp_eq_0_iff:
  assumes "cstr m p s" and "cstr m q t"
  shows "strcmp m p q = Some 0 \<longleftrightarrow> s = t"
  using strcmp_cmp_bytes [OF assms] cmp_bytes_eq_0 [of s t] assms
  by (simp add: cstr_iff_fetch)

lemma memcmp_loop_eq:
  assumes "fetch m p (unat n) = Some xs" and "fetch m q (unat n) = Some ys" and "k \<le> unat n"
    and "take k xs = take k ys"
  shows "memcmp_loop m p q (of_nat k) n = Some (cmp_bytes xs ys)"
proof -
  have prefix: "cmp_bytes xs ys = cmp_bytes (drop k xs) (drop k ys)"
    if "take k xs = take k ys" "k \<le> length xs" "length xs = length ys" for k
    using that
  proof (induction k arbitrary: xs ys)
    case (Suc k)
    then show ?case by (cases xs; cases ys) auto
  qed simp
  have len: "length xs = unat n" "length ys = unat n"
    using assms by (simp_all add: fetch_length)
  show ?thesis
    using assms(3,4)
  proof (induction "unat n - k" arbitrary: k)
    case 0
    then have "k = unat n" by simp
    with 0 prefix [of k] len show ?case by (simp add: memcmp_loop.simps)
  next
    case (Suc d)
    then have k: "k < unat n" by simp
    have xk: "m (p + of_nat k) = Some (xs ! k)" "m (q + of_nat k) = Some (ys ! k)"
      using assms(1,2) k by (auto simp: fetch_iff)
    have dk: "drop k xs = xs ! k # drop (Suc k) xs" "drop k ys = ys ! k # drop (Suc k) ys"
      using k len by (simp_all add: Cons_nth_drop_Suc)
    have step: "memcmp_loop m p q (of_nat k) n =
        (if xs ! k \<noteq> ys ! k then Some (byte_sub (xs ! k) (ys ! k))
         else memcmp_loop m p q (of_nat (Suc k)) n)"
      using of_nat_less32 [OF k] xk by (subst memcmp_loop.simps) (simp add: add.commute)
    show ?case
    proof (cases "xs ! k = ys ! k")
      case True
      then have "take (Suc k) xs = take (Suc k) ys"
        using Suc.prems k len by (simp add: take_Suc_conv_app_nth)
      with Suc.hyps(1) [of "Suc k"] Suc.hyps(2) k step True show ?thesis by simp
    next
      case False
      then show ?thesis using step prefix [of k] Suc.prems len k dk by simp
    qed
  qed
qed

lemma memcmp_fetch:
  assumes "fetch m p (unat n) = Some xs" and "fetch m q (unat n) = Some ys"
  shows "memcmp m p q n = Some (cmp_bytes xs ys)"
  using memcmp_loop_eq [OF assms, of 0] by (simp add: memcmp_def)

lemma cmp_bytes_same_length: "length xs = length ys \<Longrightarrow> cmp_bytes xs ys = 0 \<longleftrightarrow> xs = ys"
  by (induction xs ys rule: cmp_bytes.induct) auto


subsection \<open>Filling and copying\<close>

text \<open>One iteration of a loop that writes \<open>bs\<close> to \<open>p\<close> from the front.\<close>

lemma put_take_step:
  assumes "mapped m p n" and "k < length bs" and "length bs \<le> n" and "n \<le> 2 ^ 32"
  shows "st8 (put m p (take k bs)) (p + of_nat k) (bs ! k) = Some (put m p (take (Suc k) bs))"
proof -
  have "m (p + of_nat k) \<noteq> None"
    using assms by (simp add: mapped_iff)
  then show ?thesis
    using st8_put_snoc [of "take k bs" m p "bs ! k"] assms by (simp add: take_Suc_conv_app_nth)
qed

lemma memset_loop_put:
  assumes "mapped m p (unat n)" and "k \<le> unat n" and "length bs = k"
  shows "memset_loop (put m p bs) p c (of_nat k) n
         = Some (put m p (bs @ replicate (unat n - k) c))"
  using assms(2,3)
proof (induction "unat n - k" arbitrary: k bs)
  case 0
  then have "k = unat n" by simp
  with 0 show ?case by (subst memset_loop.simps) simp
next
  case (Suc d)
  then have k: "k < unat n" by simp
  have small: "k < 2 ^ 32" using k unat_lt_2p32 [of n] by linarith
  have "m (p + of_nat k) \<noteq> None" using assms(1) k by (simp add: mapped_iff)
  then have "st8 (put m p bs) (p + of_nat k) c = Some (put m p (bs @ [c]))"
    using st8_put_snoc [of bs m p c] small Suc.prems by simp
  moreover have "memset_loop (put m p (bs @ [c])) p c (of_nat (Suc k)) n
                 = Some (put m p ((bs @ [c]) @ replicate (unat n - Suc k) c))"
    using Suc.hyps(1) [of "Suc k" "bs @ [c]"] Suc.hyps(2) Suc.prems k by simp
  moreover have "[c] @ replicate (unat n - Suc k) c = replicate (unat n - k) c"
    using k by (simp flip: replicate_Suc add: Suc_diff_Suc)
  ultimately show ?case
    using of_nat_less32 [OF k] by (subst memset_loop.simps) (simp add: add.commute)
qed

lemma memset_put:
  assumes "mapped m p (unat n)"
  shows "memset m p c n = Some (p, put m p (replicate (unat n) (ucast c)))"
  using memset_loop_put [OF assms, of 0 "[]" "ucast c"] by (simp add: memset_def)

lemma memcpy_loop_put:
  assumes "mapped m d (unat n)" and src: "fetch m s (unat n) = Some bs"
    and ap: "apart d (unat n) s (unat n)" and "k \<le> unat n"
  shows "memcpy_loop (put m d (take k bs)) d s (of_nat k) n = Some (put m d bs)"
  using assms(4)
proof (induction "unat n - k" arbitrary: k)
  case 0
  then have "k = unat n" by simp
  with fetch_length [OF src] show ?case by (subst memcpy_loop.simps) simp
next
  case (Suc e)
  then have k: "k < unat n" by simp
  have len: "length bs = unat n" using src by (rule fetch_length)
  have "apart d (length (take k bs)) s (unat n)"
    using apart_mono [OF ap] len k by simp
  then have "put m d (take k bs) (s + of_nat k) = Some (bs ! k)"
    using put_miss [of d "take k bs" s "unat n" k m] k src by (simp add: fetch_iff)
  moreover have "st8 (put m d (take k bs)) (d + of_nat k) (bs ! k)
      = Some (put m d (take (Suc k) bs))"
    by (rule put_take_step [OF assms(1)]) (use k len unat_lt_2p32 [of n] in auto)
  moreover have "memcpy_loop (put m d (take (Suc k) bs)) d s (of_nat (Suc k)) n
      = Some (put m d bs)"
    using Suc.hyps(1) [of "Suc k"] Suc.hyps(2) k by simp
  ultimately show ?case
    using of_nat_less32 [OF k] by (subst memcpy_loop.simps) (simp add: add.commute)
qed

lemma memcpy_put:
  assumes "mapped m d (unat n)" and "fetch m s (unat n) = Some bs"
    and "apart d (unat n) s (unat n)"
  shows "memcpy m d s n = Some (d, put m d bs)"
  using memcpy_loop_put [OF assms, of 0] by (simp add: memcpy_def)

lemma memcpy_zero [simp]: "memcpy m d s 0 = Some (d, m)"
  by (simp add: memcpy_def memcpy_loop.simps)

lemma strcpy_loop_put:
  assumes "cstr m s (xs @ ys)" and "mapped m d (Suc (length (xs @ ys)))"
    and "apart d (Suc (length (xs @ ys))) s (Suc (length (xs @ ys)))"
  shows "strcpy_loop (put m d xs) (d + of_nat (length xs)) (s + of_nat (length xs))
         = Some (put m d (xs @ ys @ [0]))"
  using assms
proof (induction ys arbitrary: xs)
  case Nil
  have small: "length xs < 2 ^ 32" using cstr_length [OF Nil(1)] by simp
  have "put m d xs (s + of_nat (length xs)) = Some 0"
    using put_miss [of d xs s "Suc (length xs)" "length xs" m] apart_mono [OF Nil(3)]
      cstr_nth(2) [OF Nil(1)] by simp
  moreover have "st8 (put m d xs) (d + of_nat (length xs)) 0 = Some (put m d (xs @ [0]))"
    by (rule st8_put_snoc) (use Nil(2) small in \<open>auto simp: mapped_iff\<close>)
  ultimately show ?case by (subst strcpy_loop.simps) simp
next
  case (Cons y ys)
  have small: "length xs < 2 ^ 32" using cstr_length [OF Cons.prems(1)] by simp
  have y: "m (s + of_nat (length xs)) = Some y" "y \<noteq> 0"
    using cstr_nth(1) [OF Cons.prems(1), of "length xs"] Cons.prems(1)
    by (auto simp: nth_append cstr_iff_fetch)
  have "put m d xs (s + of_nat (length xs)) = Some y"
    using put_miss [of d xs s "Suc (length xs)" "length xs" m] y(1)
      apart_mono [OF Cons.prems(3), of "length xs" "Suc (length xs)"] by simp
  moreover have "st8 (put m d xs) (d + of_nat (length xs)) y = Some (put m d (xs @ [y]))"
    by (rule st8_put_snoc) (use Cons.prems(2) small in \<open>auto simp: mapped_iff\<close>)
  moreover have "strcpy_loop (put m d (xs @ [y])) (d + of_nat (length (xs @ [y])))
      (s + of_nat (length (xs @ [y]))) = Some (put m d ((xs @ [y]) @ ys @ [0]))"
    by (rule Cons.IH) (use Cons.prems in auto)
  ultimately show ?case using y(2)
    by (subst strcpy_loop.simps) (simp add: add.assoc add.commute [of 1])
qed

lemma strcpy_put:
  assumes "cstr m s str" and "mapped m d (Suc (length str))"
    and "apart d (Suc (length str)) s (Suc (length str))"
  shows "strcpy m d s = Some (d, put m d (str @ [0]))"
  using strcpy_loop_put [of m s "[]" str d] assms by (simp add: strcpy_def)

lemma strcat_end_cstr: "cstr m d s \<Longrightarrow> strcat_end m d = Some (d + of_nat (length s))"
proof (induction s arbitrary: d)
  case Nil
  then show ?case by (subst strcat_end.simps) simp
next
  case (Cons c s)
  then show ?case by (subst strcat_end.simps) (simp add: add.assoc)
qed

lemma strcat_put:
  assumes "cstr m d t" and "cstr m s str" and "mapped m (d + of_nat (length t)) (Suc (length str))"
    and "apart (d + of_nat (length t)) (Suc (length str)) s (Suc (length str))"
  shows "strcat m d s = Some (d, put m (d + of_nat (length t)) (str @ [0]))"
  using strcpy_loop_put [of m s "[]" str "d + of_nat (length t)"] assms
  by (simp add: strcat_def strcat_end_cstr)

text \<open>
  \<open>strncpy\<close> writes exactly \<open>n\<close> bytes: the source's first \<open>n\<close>, or the whole source padded
  with NULs. It does not terminate a source of \<open>n\<close> or more bytes.
\<close>

definition pad_to :: "nat \<Rightarrow> u8 list \<Rightarrow> u8 list" where
  "pad_to n s = take n s @ replicate (n - length s) 0"

lemma length_pad_to [simp]: "length (pad_to n s) = n"
  by (simp add: pad_to_def)

lemma strncpy_copy_put:
  assumes "cstr m s str" and "mapped m d (unat n)"
    and "apart d (unat n) s (Suc (length str))" and "k \<le> min (unat n) (length str)"
  shows "strncpy_copy (put m d (take k str)) d s (of_nat k) n
         = Some (of_nat (min (unat n) (length str)), put m d (take (unat n) str))"
  using assms(4)
proof (induction "min (unat n) (length str) - k" arbitrary: k)
  case 0
  then have k: "k = min (unat n) (length str)" by simp
  show ?case
  proof (cases "length str < unat n")
    case True
    have small: "apart d (length (take (length str) str)) s (Suc (length str))"
      using apart_mono [OF assms(3)] True by simp
    have "put m d str (s + of_nat (length str)) = Some 0"
      using put_miss [OF small, of "length str" m] cstr_nth(2) [OF assms(1)] by simp
    then show ?thesis using True k of_nat_less32 [OF True]
      by (subst strncpy_copy.simps) (simp add: min_def)
  next
    case False
    then show ?thesis using k by (subst strncpy_copy.simps) (simp add: min_def)
  qed
next
  case (Suc e)
  then have k: "k < unat n" "k < length str" by auto
  have "apart d (length (take k str)) s (Suc (length str))"
    using apart_mono [OF assms(3)] k by simp
  then have "put m d (take k str) (s + of_nat k) = Some (str ! k)"
    using put_miss [of d "take k str" s "Suc (length str)" k m] k cstr_nth(1) [OF assms(1)] by simp
  moreover have "str ! k \<noteq> 0"
    using assms(1) nth_mem [OF k(2)] unfolding cstr_iff_fetch by metis
  moreover have "st8 (put m d (take k str)) (d + of_nat k) (str ! k)
      = Some (put m d (take (Suc k) str))"
  proof -
    have eq: "take k (take (unat n) str) = take k str" "take (unat n) str ! k = str ! k"
      "take (Suc k) (take (unat n) str) = take (Suc k) str"
      using k by (simp_all add: take_take)
    show ?thesis
      using put_take_step [OF assms(2), of k "take (unat n) str"] k unat_lt_2p32 [of n]
      unfolding eq by simp
  qed
  moreover have "strncpy_copy (put m d (take (Suc k) str)) d s (of_nat (Suc k)) n
      = Some (of_nat (min (unat n) (length str)), put m d (take (unat n) str))"
    using Suc.hyps(1) [of "Suc k"] Suc.hyps(2) k by simp
  ultimately show ?case
    using of_nat_less32 [OF k(1)] by (subst strncpy_copy.simps) (simp add: add.commute)
qed

lemma strncpy_put:
  assumes "cstr m s str" and "mapped m d (unat n)"
    and "apart d (unat n) s (Suc (length str))"
  shows "strncpy m d s n = Some (d, put m d (pad_to (unat n) str))"
proof -
  have "strncpy_copy m d s 0 n
        = Some (of_nat (min (unat n) (length str)), put m d (take (unat n) str))"
    using strncpy_copy_put [OF assms, of 0] by simp
  moreover have "memset_loop (put m d (take (unat n) str)) d 0
       (of_nat (min (unat n) (length str))) n = Some (put m d (pad_to (unat n) str))"
    using memset_loop_put [OF assms(2), of "min (unat n) (length str)" "take (unat n) str" 0]
    by (simp add: pad_to_def min_def)
  ultimately show ?thesis by (simp add: strncpy_def)
qed


subsection \<open>Tokens\<close>

lemma cstr_drop: "cstr m p s \<Longrightarrow> k \<le> length s \<Longrightarrow> cstr m (p + of_nat k) (drop k s)"
  using cstr_append [of m p "take k s" "drop k s"] by simp

lemma cstr_at:
  "cstr m p s \<Longrightarrow> k \<le> length s \<Longrightarrow>
     m (p + of_nat k) = Some (if k < length s then s ! k else 0)"
  using cstr_nth [of m p s] by (auto simp: le_less)

lemma cstr_hd: "cstr m p s \<Longrightarrow> m p = Some (if s = [] then 0 else hd s)"
  by (cases s) auto

lemma cstr_nonzero: "cstr m p s \<Longrightarrow> c \<in> set s \<Longrightarrow> c \<noteq> 0"
  by (auto simp: cstr_iff_fetch)

lemma is_delim_cstr: "cstr m d ds \<Longrightarrow> is_delim m c d = Some (c \<in> set ds)"
proof (induction ds arbitrary: d)
  case Nil
  then show ?case by (subst is_delim.simps) simp
next
  case (Cons x ds)
  then show ?case by (subst is_delim.simps) auto
qed

lemma strchr_cstr:
  "cstr m d ds \<Longrightarrow> \<forall>i < length ds. d + of_nat i \<noteq> NULL \<Longrightarrow>
     \<exists>r. strchr m d c = Some r \<and> (r = NULL \<longleftrightarrow> ucast c \<notin> set ds)"
proof (induction ds arbitrary: d)
  case Nil
  then show ?case by (subst strchr.simps) simp
next
  case (Cons x ds)
  have "d \<noteq> NULL" "\<forall>i < length ds. d + 1 + of_nat i \<noteq> NULL"
    using Cons.prems(2) by (simp_all add: All_less_Suc2 add.assoc)
  then show ?case
    using Cons.IH [of "d + 1"] Cons.prems(1) by (subst strchr.simps) auto
qed

lemma strtok_r_skip_cstr:
  "cstr m p s \<Longrightarrow> cstr m delim ds \<Longrightarrow>
     strtok_r_skip m delim p = Some (p + of_nat (length (takeWhile (\<lambda>c. c \<in> set ds) s)))"
proof (induction s arbitrary: p)
  case Nil
  then show ?case by (subst strtok_r_skip.simps) simp
next
  case (Cons c s)
  then show ?case
    by (subst strtok_r_skip.simps) (simp add: is_delim_cstr add.assoc)
qed

lemma strtok_r_end_cstr:
  "cstr m p s \<Longrightarrow> cstr m delim ds \<Longrightarrow>
     strtok_r_end m delim p = Some (p + of_nat (length (takeWhile (\<lambda>c. c \<notin> set ds) s)))"
proof (induction s arbitrary: p)
  case Nil
  then show ?case by (subst strtok_r_end.simps) simp
next
  case (Cons c s)
  then show ?case
    by (subst strtok_r_end.simps) (simp add: is_delim_cstr add.assoc)
qed

text \<open>Terminating a string early: the bytes before the cut and the string after it.\<close>

lemma cstr_cut:
  assumes "cstr m p (s @ c # t)"
  shows "cstr (m(p + of_nat (length s) \<mapsto> 0)) p s"
    and "cstr (m(p + of_nat (length s) \<mapsto> 0)) (p + of_nat (length s) + 1) t"
proof -
  have len: "length (s @ c # t) < 2 ^ 32" by (rule cstr_length [OF assms])
  have other: "p + of_nat i \<noteq> p + of_nat (length s)" if "i \<le> length (s @ c # t)" "i \<noteq> length s" for i
    using offset_inj [of p i "length s"] that len by auto
  have f: "fetch m p (length s) = Some s" "0 \<notin> set s" and
    "cstr m (p + of_nat (length s)) (c # t)"
    using assms unfolding cstr_append by blast+
  then have t: "fetch m (p + of_nat (length s) + 1) (Suc (length t)) = Some (t @ [0])"
    "0 \<notin> set t"
    unfolding cstr.simps(2) by (simp_all only: cstr_iff_fetch simp_thms)
  show "cstr (m(p + of_nat (length s) \<mapsto> 0)) p s"
    unfolding cstr_iff_fetch fetch_iff using f other
    by (auto simp: fetch_iff nth_append less_Suc_eq)
  have "p + of_nat (length s) + 1 + of_nat i \<noteq> p + of_nat (length s)" if "i < Suc (length t)" for i
    using other [of "length s + 1 + i"] that by (simp add: add.assoc)
  then show "cstr (m(p + of_nat (length s) \<mapsto> 0)) (p + of_nat (length s) + 1) t"
    using t unfolding cstr_iff_fetch fetch_iff by auto
qed

lemma strtok_r_spec:
  assumes "str \<noteq> NULL" and "cstr m str s" and "cstr m delim ds"
    and "takeWhile (\<lambda>c. c \<in> set ds) s = pre" and "dropWhile (\<lambda>c. c \<in> set ds) s = s1"
  shows "strtok_r m str delim sv =
     (if s1 = [] then Some (NULL, NULL, m)
      else let start = str + of_nat (length pre);
               tok = takeWhile (\<lambda>c. c \<notin> set ds) s1;
               e = start + of_nat (length tok)
           in if tok = s1 then Some (start, NULL, m) else Some (start, e + 1, m(e \<mapsto> 0)))"
proof (cases "s1 = []")
  case True
  then have "length pre = length s"
    using assms(4,5) by (metis append_Nil2 takeWhile_dropWhile_id)
  then show ?thesis
    using assms(1,3) True cstr_hd [OF assms(2)] cstr_nth(2) [OF assms(2)]
      strtok_r_skip_cstr [OF assms(2,3)] assms(4)
    by (auto simp: strtok_r_def)
next
  case False
  define start where "start = str + of_nat (length pre)"
  have s: "s = pre @ s1" using assms(4,5) takeWhile_dropWhile_id by metis
  have c1: "cstr m start s1"
    using assms(2) unfolding s start_def cstr_append by simp
  have c: "m start = Some (hd s1)" "hd s1 \<noteq> 0"
    using cstr_hd [OF c1] cstr_nonzero [OF c1, of "hd s1"] False by auto
  have c0: "m str = Some (hd s)" "hd s \<noteq> 0" "s \<noteq> []"
    using cstr_hd [OF assms(2)] cstr_nonzero [OF assms(2) list.set_sel(1)] False s by auto
  have skip: "strtok_r_skip m delim str = Some start"
    using strtok_r_skip_cstr [OF assms(2,3)] assms(4) by (simp add: start_def)
  define tok where "tok = takeWhile (\<lambda>c. c \<notin> set ds) s1"
  have e: "strtok_r_end m delim start = Some (start + of_nat (length tok))"
    using strtok_r_end_cstr [OF c1 assms(3)] by (simp add: tok_def)
  have le: "length tok \<le> length s1" by (simp add: tok_def length_takeWhile_le)
  have at_e: "m (start + of_nat (length tok)) = Some (if length tok < length s1 then s1 ! length tok else 0)"
    by (rule cstr_at [OF c1 le])
  have all: "tok = s1 \<longleftrightarrow> length tok = length s1"
    unfolding tok_def by (metis append_Nil2 append_eq_conv_conj takeWhile_dropWhile_id le_refl length_takeWhile_le take_all_iff)
  have nz: "length tok < length s1 \<Longrightarrow> s1 ! length tok \<noteq> 0"
    using cstr_nonzero [OF c1] by simp
  show ?thesis
    using False assms(1) c c0 skip e at_e all nz le
    by (auto simp: strtok_r_def st8_def Let_def simp flip: start_def tok_def)
qed

lemma strtok_scan_cstr:
  assumes "cstr m delim ds" and "\<forall>i < length ds. delim + of_nat i \<noteq> NULL"
  shows "cstr m p s \<Longrightarrow>
     strtok_scan m delim p = Some (p + of_nat (length (takeWhile (\<lambda>c. c \<notin> set ds) s)))"
proof (induction s arbitrary: p)
  case Nil
  then show ?case by (subst strtok_scan.simps) simp
next
  case (Cons c s)
  obtain r where "strchr m delim (ucast c) = Some r" "r = NULL \<longleftrightarrow> c \<notin> set ds"
    using strchr_cstr [OF assms, of "ucast c"] by (auto simp: ucast_up_ucast_id is_up)
  with Cons show ?case
    by (subst strtok_scan.simps) (auto simp: add.assoc)
qed

lemma strtok_spec:
  assumes "cstr m delim ds" and "\<forall>i < length ds. delim + of_nat i \<noteq> NULL"
    and "(if str \<noteq> NULL then str else nt0) = nt" and "nt \<noteq> NULL" and "cstr m nt s"
    and "takeWhile (\<lambda>c. c \<notin> set ds) s = tok"
  shows "strtok m nt0 str delim =
     (if s = [] then Some (NULL, nt, m)
      else if tok = s then Some (nt, NULL, m)
      else Some (nt, nt + of_nat (length tok) + 1, m(nt + of_nat (length tok) \<mapsto> 0)))"
proof -
  have le: "length tok \<le> length s" using assms(6) length_takeWhile_le by metis
  have all: "tok = s \<longleftrightarrow> length tok = length s"
    using assms(6) by (metis append_Nil2 append_eq_conv_conj takeWhile_dropWhile_id le_refl length_takeWhile_le take_all_iff)
  have hd: "s \<noteq> [] \<Longrightarrow> hd s \<noteq> 0" and nz: "length tok < length s \<Longrightarrow> s ! length tok \<noteq> 0"
    using cstr_nonzero [OF assms(5)] by auto
  show ?thesis
    using assms(3,4) hd nz le all cstr_hd [OF assms(5)] cstr_at [OF assms(5) le]
      strtok_scan_cstr [OF assms(1,2,5)] assms(6)
    by (auto simp: strtok_def Let_def st8_def)
qed


subsection \<open>Numbers\<close>

text \<open>The value of a digit string, most significant digit first.\<close>

definition digits_val :: "int \<Rightarrow> u8 list \<Rightarrow> int" where
  "digits_val base ds = foldl (\<lambda>acc c. acc * base + the (digit_of c)) 0 ds"

definition is_digit_in :: "int \<Rightarrow> u8 \<Rightarrow> bool" where
  "is_digit_in base c \<longleftrightarrow> (case digit_of c of None \<Rightarrow> False | Some d \<Rightarrow> d < base)"

lemma digit_of_nonneg: "digit_of c = Some d \<Longrightarrow> 0 \<le> d"
  by (auto simp: digit_of_def word_le_def split: if_splits)

lemma digits_fold_mono:
  assumes "0 < base" and "list_all (is_digit_in base) ds" and "0 \<le> acc"
  shows "acc \<le> foldl (\<lambda>acc c. acc * base + the (digit_of c)) acc ds"
  using assms(2,3)
proof (induction ds arbitrary: acc)
  case (Cons c ds)
  then obtain d where d: "digit_of c = Some d"
    by (auto simp: is_digit_in_def split: option.splits)
  have "acc \<le> acc * base + d"
    using mult_left_mono [of 1 base acc] assms(1) Cons.prems(2) digit_of_nonneg [OF d] by simp
  moreover have "acc * base + d \<le> foldl (\<lambda>acc c. acc * base + the (digit_of c)) (acc * base + d) ds"
    using Cons.IH [of "acc * base + d"] Cons.prems calculation by simp
  ultimately show ?case using d by simp
qed simp

lemma strtol_digits_cstr:
  assumes "0 < base" and "rest = [] \<or> \<not> is_digit_in base (hd rest)"
  shows "cstr m s (ds @ rest) \<Longrightarrow> list_all (is_digit_in base) ds \<Longrightarrow> 0 \<le> acc \<Longrightarrow>
    foldl (\<lambda>acc c. acc * base + the (digit_of c)) acc ds < 2 ^ 31 \<Longrightarrow>
    strtol_digits m base s acc =
      Some (foldl (\<lambda>acc c. acc * base + the (digit_of c)) acc ds, s + of_nat (length ds))"
proof (induction ds arbitrary: s acc)
  case Nil
  then show ?case
    using assms(2) by (cases rest) (subst strtol_digits.simps, auto simp: is_digit_in_def split: option.splits)+
next
  case (Cons c ds)
  then obtain d where d: "digit_of c = Some d" "d < base" "0 \<le> d"
    using digit_of_nonneg by (fastforce simp: is_digit_in_def split: option.splits)
  have acc: "0 \<le> acc * base" using assms(1) Cons.prems(3) by simp
  have "acc * base + d < 2 ^ 31"
    using digits_fold_mono [OF assms(1), of ds "acc * base + d"] Cons.prems d acc by simp
  then have "long_ok (acc * base)" "long_ok (acc * base + d)"
    using acc d(3) by (auto simp: long_ok_def)
  then show ?case
    using Cons.IH [of "s + 1" "acc * base + d"] Cons.prems d acc
    by (subst strtol_digits.simps) (simp add: add.assoc)
qed

lemma strtol_skip_cstr:
  "cstr m s (ws @ t) \<Longrightarrow> list_all is_white ws \<Longrightarrow> t = [] \<or> \<not> is_white (hd t) \<Longrightarrow>
     strtol_skip m s = Some (s + of_nat (length ws))"
proof (induction ws arbitrary: s)
  case Nil
  then show ?case
    by (cases t) (subst strtol_skip.simps, simp add: is_white_def)+
next
  case (Cons c ws)
  then show ?case by (subst strtol_skip.simps) (simp add: add.assoc)
qed

text \<open>White space, an optional sign, digits, and whatever follows, in an explicit radix.\<close>

lemma strtol_radix:
  assumes str: "cstr m p (ws @ sg @ ds @ rest)"
    and ws: "list_all is_white ws" and sg: "sg \<in> {[], [45], [43]}"
    and base: "0 < base" "base \<noteq> 16"
    and ds: "ds \<noteq> []" "list_all (is_digit_in base) ds"
    and rest: "rest = [] \<or> \<not> is_digit_in base (hd rest)"
    and small: "digits_val base ds < 2 ^ 31"
  shows "strtol m p base =
     Some (if sg = [45] then - digits_val base ds else digits_val base ds,
           p + of_nat (length (ws @ sg @ ds)))"
proof -
  have d: "is_digit_in base (hd ds)" using ds by (cases ds) auto
  have notd: "\<not> is_white (hd ds)" "hd ds \<noteq> 45" "hd ds \<noteq> 43"
    using d by (auto simp: is_white_def is_digit_in_def digit_of_def)
  then have "sg @ ds @ rest = [] \<or> \<not> is_white (hd (sg @ ds @ rest))"
    using sg ds(1) by (auto simp: is_white_def)
  then have skip: "strtol_skip m p = Some (p + of_nat (length ws))"
    using strtol_skip_cstr [OF str ws] by blast
  have c1: "cstr m (p + of_nat (length ws)) (sg @ ds @ rest)"
    using str unfolding cstr_append by blast
  have c2: "cstr m (p + of_nat (length (ws @ sg))) (ds @ rest)"
    using c1 unfolding cstr_append by (simp add: add.assoc)
  have "strtol_digits m base (p + of_nat (length (ws @ sg))) 0 =
      Some (digits_val base ds, p + of_nat (length (ws @ sg)) + of_nat (length ds))"
    using strtol_digits_cstr [OF base(1) rest c2 ds(2), of 0] small by (simp add: digits_val_def)
  moreover have "m (p + of_nat (length ws)) = Some (hd (sg @ ds @ rest))"
    using cstr_hd [OF c1] ds(1) by auto
  ultimately show ?thesis
    using sg skip notd ds(1) base by (auto simp: strtol_def strtol_base_def add.assoc)
qed

text \<open>Hexadecimal with its prefix, in base 16 or with the base left to be detected.\<close>

lemma strtol_hex:
  assumes str: "cstr m p (48 # x # ds @ rest)" and x: "x \<in> {120, 88}"
    and base: "base \<in> {0, 16}"
    and ds: "list_all (is_digit_in 16) ds"
    and rest: "rest = [] \<or> \<not> is_digit_in 16 (hd rest)"
    and small: "digits_val 16 ds < 2 ^ 31"
  shows "strtol m p base = Some (digits_val 16 ds, p + 2 + of_nat (length ds))"
proof -
  have c: "m p = Some 48" "m (p + 1) = Some x" "cstr m (p + 2) (ds @ rest)"
    using str by (auto simp: add.assoc)
  have skip: "strtol_skip m p = Some p"
    using c(1) by (subst strtol_skip.simps) (simp add: is_white_def)
  have "strtol_digits m 16 (p + 2) 0 = Some (digits_val 16 ds, p + 2 + of_nat (length ds))"
    using strtol_digits_cstr [of 16 rest m "p + 2" ds 0] rest c(3) ds small
    by (simp add: digits_val_def)
  then show ?thesis
    using skip c x base by (auto simp: strtol_def strtol_base_def)
qed

end
