(* ===== verification/PortIO.thy ===== *)
theory PortIO
  imports Prelude
begin

text \<open>
  Port input and output (\<open>include/utils.h\<close>) and the hardware behind it. Every access to a port
  is logged, newest first, and so is every iteration of a busy-wait loop. The devices are a
  parameter of the model, a record \<open>hw\<close> of functions of that log: the byte a port read
  returns, the interrupts that arrive while a loop spins, and the memory a DMA transfer has
  filled by the next iteration of a loop that spins. The table of interrupt handlers is the
  state behind \<open>register_interrupt_handler\<close> of \<open>include/interrupts.h\<close>, whose code is only
  present as an object file: a handler registered for a number is the one called for it.
  \<open>ticks\<close>, \<open>freq\<close> and \<open>fdc_irq_fired\<close> are the variables of the drivers that interrupt handlers
  write while the rest of the kernel waits.
\<close>

unbundle bit_operations_syntax

datatype io_event = Out u16 u8 | In u16 u8 | Spin

type_synonym io_log = "io_event list"

record hw =
  hw_in :: "io_log \<Rightarrow> u16 \<Rightarrow> u8"
  hw_irqs :: "io_log \<Rightarrow> u8 list"
  hw_dma :: "io_log \<Rightarrow> ptr \<times> u8 list"

text \<open>The handlers the drivers of the repository register.\<close>

datatype irq_handler = FdcIrqHandler | TimerInterruptHandler | SerialIntrHandler

record mach = kst +
  io :: io_log
  irq_table :: "u8 \<Rightarrow> irq_handler option"
  ticks :: u32
  freq :: u32
  fdc_irq_fired :: u8
  serial_mode_intr :: bool

definition outb :: "u8 \<Rightarrow> u16 \<Rightarrow> 'z mach_scheme \<Rightarrow> 'z mach_scheme" where
  "outb v port s = s\<lparr>io := Out port v # io s\<rparr>"

definition inb :: "hw \<Rightarrow> u16 \<Rightarrow> 'z mach_scheme \<Rightarrow> u8 \<times> 'z mach_scheme" where
  "inb h port s = (let v = hw_in h (io s) port in (v, s\<lparr>io := In port v # io s\<rparr>))"

definition register_interrupt_handler ::
  "u8 \<Rightarrow> irq_handler \<Rightarrow> 'z mach_scheme \<Rightarrow> 'z mach_scheme" where
  "register_interrupt_handler n f s = s\<lparr>irq_table := (irq_table s)(n \<mapsto> f)\<rparr>"

definition LOW_BYTE :: "u16 \<Rightarrow> u8" where
  "LOW_BYTE x = ucast (x AND 0xFF)"

definition HIGH_BYTE :: "u16 \<Rightarrow> u8" where
  "HIGH_BYTE x = ucast (drop_bit 8 x AND 0xFF)"

text \<open>The state before any driver has run, for the witnesses.\<close>

definition boot_mach :: "ptr \<Rightarrow> mach" where
  "boot_mach base = \<lparr>kmem = \<lambda>a. if a < base then Some 0 else None, hlog = [], io = [],
     irq_table = Map.empty, ticks = 0, freq = 0, fdc_irq_fired = 0,
     serial_mode_intr = False\<rparr>"

section \<open>What was written, oldest first\<close>

fun outs_of :: "io_log \<Rightarrow> (u16 \<times> u8) list" where
  "outs_of [] = []"
| "outs_of (Out p v # l) = outs_of l @ [(p, v)]"
| "outs_of (In p v # l) = outs_of l"
| "outs_of (Spin # l) = outs_of l"

abbreviation outs :: "'z mach_scheme \<Rightarrow> (u16 \<times> u8) list" where
  "outs s \<equiv> outs_of (io s)"

named_theorems io_simps \<open>effect of port accesses on the log of writes and the other fields\<close>

lemma outb_simps [io_simps]:
  "outs (outb v p s) = outs s @ [(p, v)]"
  "io (outb v p s) = Out p v # io s"
  "kmem (outb v p s) = kmem s"
  "hlog (outb v p s) = hlog s"
  "irq_table (outb v p s) = irq_table s"
  "ticks (outb v p s) = ticks s"
  "freq (outb v p s) = freq s"
  "fdc_irq_fired (outb v p s) = fdc_irq_fired s"
  "serial_mode_intr (outb v p s) = serial_mode_intr s"
  "mach.more (outb v p s) = mach.more s"
  by (simp_all add: outb_def)

lemma inb_simps [io_simps]:
  "outs (snd (inb h p s)) = outs s"
  "io (snd (inb h p s)) = In p (hw_in h (io s) p) # io s"
  "fst (inb h p s) = hw_in h (io s) p"
  "kmem (snd (inb h p s)) = kmem s"
  "hlog (snd (inb h p s)) = hlog s"
  "irq_table (snd (inb h p s)) = irq_table s"
  "ticks (snd (inb h p s)) = ticks s"
  "freq (snd (inb h p s)) = freq s"
  "fdc_irq_fired (snd (inb h p s)) = fdc_irq_fired s"
  "serial_mode_intr (snd (inb h p s)) = serial_mode_intr s"
  "mach.more (snd (inb h p s)) = mach.more s"
  by (simp_all add: inb_def Let_def)

text \<open>The two bytes of a 16-bit value put together again.\<close>

lemma low_byte_mask: "(x :: 'a::len word) AND 0xFF = take_bit 8 x"
  by (simp add: take_bit_eq_mask mask_eq_exp_minus_1)

lemma le16_bytes [simp]: "LOW_BYTE (le16 lo hi) = lo" "HIGH_BYTE (le16 lo hi) = hi"
  unfolding LOW_BYTE_def HIGH_BYTE_def le16_def low_byte_mask
  by (rule bit_word_eqI; auto simp: bit_simps dest: bit_imp_le_length)+

lemma bytes_of_u16: "le16 (LOW_BYTE x) (HIGH_BYTE x) = x"
  unfolding LOW_BYTE_def HIGH_BYTE_def le16_def low_byte_mask
  by (rule bit_word_eqI) (auto simp: bit_simps)

end
