(* ===== verification/PortBlock.thy ===== *)
theory PortBlock
  imports PortIO
begin

text \<open>
  Blocks of bytes through one port, \<open>outsb\<close> and \<open>insb\<close> of \<open>include/utils.h\<close>. The repeated instruction moves one
  byte at a time and advances the address; an address that is not mapped stops the program.
\<close>

primrec outsb_rep :: "u16 \<Rightarrow> ptr \<Rightarrow> nat \<Rightarrow> 'z mach_scheme \<Rightarrow> 'z mach_scheme option" where
  "outsb_rep port a 0 s = Some s"
| "outsb_rep port a (Suc n) s = do { b \<leftarrow> kmem s a; outsb_rep port (a + 1) n (outb b port s) }"

definition outsb :: "u16 \<Rightarrow> ptr \<Rightarrow> u32 \<Rightarrow> 'z mach_scheme \<Rightarrow> 'z mach_scheme option" where
  "outsb port a count s = outsb_rep port a (unat count) s"

primrec insb_rep :: "hw \<Rightarrow> u16 \<Rightarrow> ptr \<Rightarrow> nat \<Rightarrow> 'z mach_scheme \<Rightarrow> 'z mach_scheme option" where
  "insb_rep h port a 0 s = Some s"
| "insb_rep h port a (Suc n) s = do {
     let (b, s) = inb h port s;
     m \<leftarrow> st8 (kmem s) a b;
     insb_rep h port (a + 1) n (s\<lparr>kmem := m\<rparr>)
   }"

definition insb :: "hw \<Rightarrow> u16 \<Rightarrow> ptr \<Rightarrow> u32 \<Rightarrow> 'z mach_scheme \<Rightarrow> 'z mach_scheme option" where
  "insb h port a count s = insb_rep h port a (unat count) s"

section \<open>What a block transfer does\<close>

text \<open>Sending a block writes its bytes to the port, in order, and changes nothing but the log.\<close>

lemma outsb_rep_sends:
  "fetch (kmem s) a n = Some bs \<Longrightarrow> outsb_rep port a n s = Some (s\<lparr>io := rev (map (Out port) bs) @ io s\<rparr>)"
  by (induction n arbitrary: a s bs) (auto simp: outb_def split: Option.bind_splits)

lemma outs_of_sent: "outs_of (rev (map (Out port) bs) @ l) = outs_of l @ map (Pair port) bs"
  by (induction bs arbitrary: l) simp_all

lemma outsb_sends:
  assumes "fetch (kmem s) a (unat count) = Some bs"
  obtains t where "outsb port a count s = Some t" "outs t = outs s @ map (Pair port) bs" "kmem t = kmem s"
  using outsb_rep_sends [OF assms, of port] by (simp add: outsb_def outs_of_sent)

text \<open>Receiving a block stores what the port delivers, byte by byte; the device answers from the log as it grows.\<close>

fun received :: "hw \<Rightarrow> u16 \<Rightarrow> nat \<Rightarrow> io_log \<Rightarrow> u8 list \<times> io_log" where
  "received h port 0 l = ([], l)"
| "received h port (Suc n) l =
     (let b = hw_in h l port; (bs, l') = received h port n (In port b # l) in (b # bs, l'))"

lemma received_length: "length (fst (received h port n l)) = n"
  by (induction n arbitrary: l) (simp_all add: Let_def case_prod_unfold)

lemma received_outs: "outs_of (snd (received h port n l)) = outs_of l"
  by (induction n arbitrary: l) (simp_all add: Let_def case_prod_unfold)

lemma put_Cons:
  assumes "Suc (length bs) \<le> 2 ^ 32"
  shows "put m p (b # bs) = put (m(p \<mapsto> b)) (p + 1) bs"
proof
  fix a
  show "put m p (b # bs) a = put (m(p \<mapsto> b)) (p + 1) bs a"
  proof (cases "a = p")
    case True
    moreover have "unat (- 1 :: u32) = 2 ^ 32 - 1" by (simp add: unsigned_minus_1_eq_mask mask_eq_exp_minus_1)
    ultimately show ?thesis using assms by (simp add: put_def)
  next
    case False
    then have ne: "a - p \<noteq> 0" by simp
    then have "unat (a - p) = Suc (unat (a - p - 1))"
      using unat_minus_one [OF ne] by (simp add: unat_gt_0)
    then show ?thesis using False by (simp add: put_def algebra_simps)
  qed
qed

lemma insb_rep_stores:
  assumes "mapped (kmem s) a n" and "n < 2 ^ 32"
  shows "insb_rep h port a n s =
     Some (s\<lparr>kmem := put (kmem s) a (fst (received h port n (io s))), io := snd (received h port n (io s))\<rparr>)"
  using assms
proof (induction n arbitrary: a s)
  case 0
  then show ?case by (simp add: put_def)
next
  case (Suc n)
  define b where "b = hw_in h (io s) port"
  define s' where "s' = s\<lparr>io := In port b # io s, kmem := (kmem s)(a \<mapsto> b)\<rparr>"
  have k: "kmem s' = (kmem s)(a \<mapsto> b)" "io s' = In port b # io s" by (simp_all add: s'_def)
  define bs where "bs = fst (received h port n (In port b # io s))"
  have "mapped (kmem s) (a + 1) n" using Suc.prems(1) by simp
  then have mp: "mapped ((kmem s)(a \<mapsto> b)) (a + 1) n" by (auto simp: mapped_iff)
  have l: "Suc (length bs) \<le> 2 ^ 32" using Suc.prems(2) by (simp add: bs_def received_length)
  have "insb_rep h port a (Suc n) s = insb_rep h port (a + 1) n s'"
    using Suc.prems(1) by (auto simp: inb_def st8_def s'_def b_def Let_def)
  also have "\<dots> = Some (s'\<lparr>kmem := put ((kmem s)(a \<mapsto> b)) (a + 1) bs, io := snd (received h port n (In port b # io s))\<rparr>)"
    unfolding bs_def k(2) [symmetric] k(1) [symmetric]
    by (rule Suc.IH) (use Suc.prems(2) mp [folded k(1)] in simp_all)
  also have "put ((kmem s)(a \<mapsto> b)) (a + 1) bs = put (kmem s) a (b # bs)"
    using l by (rule put_Cons [symmetric])
  finally show ?case by (simp add: s'_def bs_def b_def Let_def case_prod_unfold)
qed

lemma insb_stores:
  assumes "mapped (kmem s) a (unat count)"
  obtains t where "insb h port a count s = Some t"
    "fetch (kmem t) a (unat count) = Some (fst (received h port (unat count) (io s)))" "outs t = outs s"
proof -
  let ?bs = "fst (received h port (unat count) (io s))"
  have "fetch (put (kmem s) a ?bs) a (length ?bs) = Some ?bs"
    using unat_lt_2p32 [of count] by (intro fetch_put_same) (simp add: received_length)
  then show ?thesis
    using insb_rep_stores [OF assms unat_lt_2p32, of h port] that
    by (simp add: insb_def received_length received_outs)
qed

end
