(* ===== verification/Irq.thy ===== *)
theory Irq
  imports PortIO
begin

text \<open>
  The interrupt handlers of the drivers (\<open>driver/timer.c\<close>, \<open>driver/fdc.c\<close>,
  \<open>driver/serial.c\<close>) and one iteration of a loop that waits for them. While the kernel spins,
  the interrupts the hardware raises are delivered to the handlers that were registered for
  their numbers. The timer's handler also calls the scheduler, which suspends the waiting thread
  and later resumes it with the context it had: the thread sees nothing of it, so \<open>spin\<close> passes
  the handler a scheduler that returns at once. \<open>Process\<close> composes the handler with the real one.
\<close>

unbundle bit_operations_syntax

definition SERIAL_INTRID :: "u16 \<Rightarrow> u16" where "SERIAL_INTRID base = base + 0x02"

definition COM1_IO_BASE :: u16 where "COM1_IO_BASE = 0x3F8"

definition timer_interrupt_handler ::
  "('c \<Rightarrow> 'z mach_scheme \<Rightarrow> 'r) \<Rightarrow> 'c \<Rightarrow> 'z mach_scheme \<Rightarrow> 'r" where
  "timer_interrupt_handler scheduler_tick context s =
     scheduler_tick context (s\<lparr>ticks := ticks s + 1\<rparr>)"

definition fdc_irq_handler :: "'z mach_scheme \<Rightarrow> 'z mach_scheme" where
  "fdc_irq_handler s = s\<lparr>fdc_irq_fired := 1\<rparr>"

definition serial_intr_handler :: "hw \<Rightarrow> 'z mach_scheme \<Rightarrow> 'z mach_scheme" where
  "serial_intr_handler h s = snd (inb h (SERIAL_INTRID COM1_IO_BASE) s)"

definition deliver :: "hw \<Rightarrow> u8 \<Rightarrow> 'z mach_scheme \<Rightarrow> 'z mach_scheme" where
  "deliver h n s =
     (case irq_table s n of
        None \<Rightarrow> s
      | Some TimerInterruptHandler \<Rightarrow> timer_interrupt_handler (\<lambda>_ t. t) () s
      | Some FdcIrqHandler \<Rightarrow> fdc_irq_handler s
      | Some SerialIntrHandler \<Rightarrow> serial_intr_handler h s)"

definition spin :: "hw \<Rightarrow> 'z mach_scheme \<Rightarrow> 'z mach_scheme" where
  "spin h s =
     (let l = io s; (p, bs) = hw_dma h l
      in fold (deliver h) (hw_irqs h l) (s\<lparr>kmem := put (kmem s) p bs, io := Spin # l\<rparr>))"

section \<open>What a delivered interrupt leaves alone\<close>

lemma deliver_frame [io_simps]:
  "kmem (deliver h n s) = kmem s"
  "hlog (deliver h n s) = hlog s"
  "irq_table (deliver h n s) = irq_table s"
  "freq (deliver h n s) = freq s"
  "serial_mode_intr (deliver h n s) = serial_mode_intr s"
  "outs (deliver h n s) = outs s"
  "mach.more (deliver h n s) = mach.more s"
  by (simp_all add: deliver_def timer_interrupt_handler_def fdc_irq_handler_def
      serial_intr_handler_def io_simps split: option.splits irq_handler.splits)

lemma deliver_ticks:
  "ticks (deliver h n s) =
     (if irq_table s n = Some TimerInterruptHandler then ticks s + 1 else ticks s)"
  by (simp add: deliver_def timer_interrupt_handler_def fdc_irq_handler_def
      serial_intr_handler_def io_simps split: option.splits irq_handler.splits)

lemma deliver_fdc:
  "fdc_irq_fired (deliver h n s) =
     (if irq_table s n = Some FdcIrqHandler then 1 else fdc_irq_fired s)"
  by (simp add: deliver_def timer_interrupt_handler_def fdc_irq_handler_def
      serial_intr_handler_def io_simps split: option.splits irq_handler.splits)

lemma delivers_frame [io_simps]:
  "kmem (fold (deliver h) ns s) = kmem s"
  "hlog (fold (deliver h) ns s) = hlog s"
  "irq_table (fold (deliver h) ns s) = irq_table s"
  "freq (fold (deliver h) ns s) = freq s"
  "serial_mode_intr (fold (deliver h) ns s) = serial_mode_intr s"
  "outs (fold (deliver h) ns s) = outs s"
  "mach.more (fold (deliver h) ns s) = mach.more s"
  by (induction ns arbitrary: s) (simp_all add: io_simps)

lemma delivers_ticks:
  "ticks (fold (deliver h) ns s) =
     ticks s + of_nat (length [n \<leftarrow> ns. irq_table s n = Some TimerInterruptHandler])"
  by (induction ns arbitrary: s) (simp_all add: io_simps deliver_ticks)

lemma delivers_fdc:
  "fdc_irq_fired (fold (deliver h) ns s) =
     (if \<exists>n \<in> set ns. irq_table s n = Some FdcIrqHandler then 1 else fdc_irq_fired s)"
  by (induction ns arbitrary: s) (auto simp: io_simps deliver_fdc)

lemma spin_frame [io_simps]:
  "hlog (spin h s) = hlog s"
  "irq_table (spin h s) = irq_table s"
  "freq (spin h s) = freq s"
  "serial_mode_intr (spin h s) = serial_mode_intr s"
  "outs (spin h s) = outs s"
  "mach.more (spin h s) = mach.more s"
  by (simp_all add: spin_def Let_def io_simps split: prod.splits)

lemma spin_kmem:
  "kmem (spin h s) = put (kmem s) (fst (hw_dma h (io s))) (snd (hw_dma h (io s)))"
  by (simp add: spin_def Let_def io_simps split: prod.splits)

lemma spin_ticks:
  "ticks (spin h s) =
     ticks s + of_nat (length [n \<leftarrow> hw_irqs h (io s). irq_table s n = Some TimerInterruptHandler])"
  by (simp add: spin_def Let_def delivers_ticks split: prod.splits)

lemma spin_fdc:
  "fdc_irq_fired (spin h s) =
     (if \<exists>n \<in> set (hw_irqs h (io s)). irq_table s n = Some FdcIrqHandler then 1
      else fdc_irq_fired s)"
  by (simp add: spin_def Let_def delivers_fdc split: prod.splits)

section \<open>What spinning adds to the log\<close>

text \<open>Spinning only looks: it logs the iteration and the serial handler's reads.\<close>

definition quiet_log :: "io_log \<Rightarrow> bool" where
  "quiet_log l \<longleftrightarrow> (\<forall>e \<in> set l. e = Spin \<or> (\<exists>v. e = In 0x3FA v))"

definition spins_in :: "io_log \<Rightarrow> nat" where
  "spins_in l = length [e \<leftarrow> l. e = Spin]"

lemma quiet_log_append: "quiet_log (a @ b) \<longleftrightarrow> quiet_log a \<and> quiet_log b"
  by (auto simp: quiet_log_def)

lemma spins_in_append: "spins_in (a @ b) = spins_in a + spins_in b"
  by (simp add: spins_in_def)

lemma deliver_log: "\<exists>l'. io (deliver h n s) = l' @ io s \<and> spins_in l' = 0 \<and> quiet_log l'"
  by (auto simp: deliver_def timer_interrupt_handler_def fdc_irq_handler_def inb_def Let_def
      serial_intr_handler_def spins_in_def quiet_log_def SERIAL_INTRID_def COM1_IO_BASE_def
      split: option.splits irq_handler.splits intro: exI [of _ "[]"] exI [of _ "[In _ _]"])

lemma delivers_log:
  "\<exists>l'. io (fold (deliver h) ns s) = l' @ io s \<and> spins_in l' = 0 \<and> quiet_log l'"
proof (induction ns arbitrary: s)
  case (Cons n ns)
  obtain a b where "io (deliver h n s) = a @ io s" "spins_in a = 0" "quiet_log a"
    "io (fold (deliver h) ns (deliver h n s)) = b @ io (deliver h n s)" "spins_in b = 0" "quiet_log b"
    using deliver_log [of h n s] Cons.IH [of "deliver h n s"] by blast
  then show ?case
    by (intro exI [of _ "b @ a"]) (simp add: spins_in_append quiet_log_append)
qed (simp add: spins_in_def quiet_log_def)

lemma spin_log: "\<exists>l'. io (spin h s) = l' @ io s \<and> spins_in l' = 1 \<and> quiet_log l'"
proof -
  obtain l' where "io (spin h s) = l' @ (Spin # io s)" "spins_in l' = 0" "quiet_log l'"
    using delivers_log [of h _ "s\<lparr>kmem := _, io := Spin # io s\<rparr>"]
    by (fastforce simp: spin_def Let_def split: prod.splits)
  then show ?thesis by (intro exI [of _ "l' @ [Spin]"]) (simp add: spins_in_def quiet_log_def)
qed

end
