(* ===== verification/Timer.thy ===== *)
theory Timer
  imports Irq
begin

text \<open>
  The programmable interval timer, \<open>driver/timer.c\<close>: programming the divisor, the tick counter
  and \<open>sleep\<close>, a loop that spins until the counter reaches a deadline. All of its arithmetic is
  on \<open>uint32_t\<close>, so the deadline wraps as the counter does; \<open>int divisor\<close> is the quotient of an
  unsigned division.
\<close>

unbundle bit_operations_syntax

definition PIT_CHANNEL0_DATA_PORT :: u16 where "PIT_CHANNEL0_DATA_PORT = 0x40"
definition PIT_COMMAND_PORT :: u16 where "PIT_COMMAND_PORT = 0x43"

definition init_system_timer :: "u32 \<Rightarrow> 'z mach_scheme \<Rightarrow> 'z mach_scheme option" where
  "init_system_timer frequency s =
     (if frequency = 0 then None
      else
        let s = s\<lparr>freq := frequency\<rparr>;
            divisor = 1193182 div frequency;
            s = outb 0x34 PIT_COMMAND_PORT s;
            s = outb (ucast (divisor AND 0xFF)) PIT_CHANNEL0_DATA_PORT s;
            s = outb (ucast (signed_drop_bit 8 divisor AND 0xFF)) PIT_CHANNEL0_DATA_PORT s
        in Some (register_interrupt_handler 32 TimerInterruptHandler s))"

definition get_system_tick_count :: "'z mach_scheme \<Rightarrow> u32" where
  "get_system_tick_count s = ticks s"

partial_function (option) sleep_loop ::
  "hw \<Rightarrow> u32 \<Rightarrow> 'z mach_scheme \<Rightarrow> 'z mach_scheme option" where
  "sleep_loop h final_ticks s =
     (if final_ticks \<le> ticks s then Some s else sleep_loop h final_ticks (spin h s))"

definition sleep :: "hw \<Rightarrow> u32 \<Rightarrow> 'z mach_scheme \<Rightarrow> 'z mach_scheme option" where
  "sleep h ms s =
     (let initial_ticks = ticks s;
          final_ticks = initial_ticks + (ms * freq s) div 1000
      in sleep_loop h final_ticks s)"

section \<open>The rate that is programmed\<close>

text \<open>The reload value the timer latches from the two bytes written to its data port.\<close>

fun pit_reload :: "(u16 \<times> u8) list \<Rightarrow> u16 option" where
  "pit_reload [(c, cmd), (p, lo), (q, hi)] =
     (if c = PIT_COMMAND_PORT \<and> cmd = 0x34 \<and> p = PIT_CHANNEL0_DATA_PORT
         \<and> q = PIT_CHANNEL0_DATA_PORT
      then Some (le16 lo hi) else None)"
| "pit_reload _ = None"

lemma le16_of_u32:
  fixes d :: u32
  shows "le16 (ucast (d AND 0xFF)) (ucast (signed_drop_bit 8 d AND 0xFF)) = ucast d"
  unfolding le16_def low_byte_mask
  by (rule bit_word_eqI) (auto simp: bit_simps min_def)

text \<open>\<open>init_system_timer\<close> writes the command and the two bytes of the divisor, low byte first,
  and installs the tick handler. For a frequency of at least 19 Hz the timer latches exactly the
  quotient of its 1193182 Hz clock by the frequency (below that the quotient no longer fits in
  16 bits), so the interrupt rate is the closest from above that a whole divisor gives.\<close>

lemma init_system_timer_rate:
  assumes "19 \<le> f"
  shows "\<exists>s' ws d. init_system_timer f s = Some s' \<and> outs s' = outs s @ ws \<and>
    pit_reload ws = Some d \<and> unat d = 1193182 div unat f \<and>
    irq_table s' 32 = Some TimerInterruptHandler \<and> freq s' = f"
proof -
  let ?d = "1193182 div f"
  have f: "f \<noteq> 0" "19 \<le> unat f" using assms by (auto simp: word_le_nat_alt)
  have d: "unat ?d = 1193182 div unat f" by (simp add: unat_div_distrib)
  have "unat ?d \<le> 1193182 div 19" unfolding d by (rule div_le_mono2) (use f in simp_all)
  then have "unat ?d < 2 ^ 16" by simp
  then have ud: "unat (ucast ?d :: u16) = 1193182 div unat f"
    by (simp add: unsigned_ucast_eq d take_bit_nat_eq_self)
  show ?thesis
    by (intro exI [of _ "the (init_system_timer f s)"]
        exI [of _ "[(PIT_COMMAND_PORT, 0x34),
          (PIT_CHANNEL0_DATA_PORT, ucast (?d AND 0xFF)),
          (PIT_CHANNEL0_DATA_PORT, ucast (signed_drop_bit 8 ?d AND 0xFF))]"] exI [of _ "ucast ?d"])
      (simp add: init_system_timer_def Let_def io_simps f ud le16_of_u32
        register_interrupt_handler_def)
qed

lemma init_system_timer_rate_witness:
  "\<exists>s'. init_system_timer 100 (boot_mach 0) = Some s' \<and> irq_table s' 32 = Some TimerInterruptHandler"
  using init_system_timer_rate [of 100 "boot_mach 0"] by auto

section \<open>Sleeping\<close>

text \<open>
  What \<open>sleep\<close> relies on of the hardware: an interval between two looks at the counter has at
  most one timer interrupt, and from any moment on there is an interval that has one.
\<close>

definition soon :: "hw \<Rightarrow> io_log \<Rightarrow> nat \<Rightarrow> bool" where
  "soon h l k \<longleftrightarrow> (\<forall>l'. spins_in l' = k \<longrightarrow> 32 \<in> set (hw_irqs h (l' @ l)))"

definition ticking :: "hw \<Rightarrow> bool" where
  "ticking h \<longleftrightarrow> (\<forall>l. length [n \<leftarrow> hw_irqs h l. n = 32] \<le> 1) \<and> (\<forall>l. \<exists>k. soon h l k)"

definition timer_installed :: "'z mach_scheme \<Rightarrow> bool" where
  "timer_installed s \<longleftrightarrow> (\<forall>n. irq_table s n = Some TimerInterruptHandler \<longleftrightarrow> n = 32)"

lemma soon_0: "soon h l 0 \<Longrightarrow> 32 \<in> set (hw_irqs h l)"
  unfolding soon_def by (drule spec [of _ "[]"]) (simp add: spins_in_def)

lemma soon_spin: "soon h (io s) (Suc k) \<Longrightarrow> soon h (io (spin h s)) k"
proof -
  assume *: "soon h (io s) (Suc k)"
  obtain a where a: "io (spin h s) = a @ io s" "spins_in a = 1" using spin_log [of h s] by blast
  have "32 \<in> set (hw_irqs h ((b @ a) @ io s))" if "spins_in b = k" for b
    using * a(2) that unfolding soon_def spins_in_def by (metis One_nat_def add.commute
        filter_append length_append plus_1_eq_Suc)
  then show ?thesis by (simp add: soon_def a(1))
qed

lemma timer_installed_spin [simp]: "timer_installed (spin h s) = timer_installed s"
  by (simp add: timer_installed_def io_simps)

lemma spin_ticks_installed:
  assumes "timer_installed s" and "ticking h"
  shows "ticks (spin h s) = (if 32 \<in> set (hw_irqs h (io s)) then ticks s + 1 else ticks s)"
proof -
  have "length [n \<leftarrow> hw_irqs h (io s). n = 32] \<le> 1" using assms by (simp add: ticking_def)
  moreover have "32 \<in> set (hw_irqs h (io s)) \<longleftrightarrow> [n \<leftarrow> hw_irqs h (io s). n = 32] \<noteq> []"
    by (auto simp: filter_empty_conv)
  ultimately show ?thesis using assms(1)
    by (cases "[n \<leftarrow> hw_irqs h (io s). n = 32]")
      (auto simp: spin_ticks timer_installed_def le_Suc_eq)
qed

lemma sleep_loop_step: "ticks s < fin \<Longrightarrow> sleep_loop h fin s = sleep_loop h fin (spin h s)"
  by (subst sleep_loop.simps) (simp add: linorder_not_less [symmetric])

lemma sleep_loop_tick:
  "soon h (io s) k \<Longrightarrow> ticks s < fin \<Longrightarrow> timer_installed s \<Longrightarrow> ticking h \<Longrightarrow>
   \<exists>s'. sleep_loop h fin s = sleep_loop h fin s' \<and> ticks s' = ticks s + 1 \<and> timer_installed s'"
proof (induction k arbitrary: s)
  case 0
  then have "32 \<in> set (hw_irqs h (io s))" by (blast dest: soon_0)
  then show ?case using 0 sleep_loop_step [of s fin h]
    by (intro exI [of _ "spin h s"]) (simp add: spin_ticks_installed)
next
  case (Suc k)
  have step: "sleep_loop h fin s = sleep_loop h fin (spin h s)"
    using Suc.prems by (intro sleep_loop_step)
  show ?case
  proof (cases "32 \<in> set (hw_irqs h (io s))")
    case True
    then show ?thesis using Suc.prems step
      by (intro exI [of _ "spin h s"]) (simp add: spin_ticks_installed)
  next
    case False
    then show ?thesis
      using Suc.IH [of "spin h s"] Suc.prems step
      by (simp add: spin_ticks_installed soon_spin)
  qed
qed

lemma sleep_loop_returns:
  "ticks s \<le> fin \<Longrightarrow> timer_installed s \<Longrightarrow> ticking h \<Longrightarrow>
   \<exists>s'. sleep_loop h fin s = Some s' \<and> ticks s' = fin"
proof (induction "unat fin - unat (ticks s)" arbitrary: s)
  case 0
  then have "ticks s = fin" by (simp add: word_le_nat_alt word_unat_eq_iff)
  then show ?case by (simp add: sleep_loop.simps)
next
  case (Suc n)
  then have lt: "ticks s < fin" by (auto simp: word_less_nat_alt)
  obtain k where "soon h (io s) k" using Suc.prems by (auto simp: ticking_def)
  from sleep_loop_tick [OF this lt Suc.prems(2,3)]
  obtain s' where s': "sleep_loop h fin s = sleep_loop h fin s'" "ticks s' = ticks s + 1"
    "timer_installed s'" by blast
  have "unat (ticks s') = Suc (unat (ticks s))" using lt s' by (simp add: unat_Suc_less)
  then show ?case using Suc.hyps(1) [of s'] Suc.hyps(2) Suc.prems s' lt
    by (simp add: word_le_nat_alt word_less_nat_alt)
qed

lemma sleep_loop_inv:
  assumes "sleep_loop h fin s = Some s'" and "P s" and "\<And>t. P t \<Longrightarrow> P (spin h t)"
  shows "P s'"
proof -
  have "(\<forall>t. P t \<longrightarrow> P (spin h t)) \<longrightarrow> P s \<longrightarrow> P s'"
  proof (rule sleep_loop.raw_induct [OF _ assms(1),
        where P = "\<lambda>h fin s s'. (\<forall>t. P t \<longrightarrow> P (spin h t)) \<longrightarrow> P s \<longrightarrow> P s'"])
    fix f h fin s s'
    assume IH: "\<And>h fin s s'. f h fin s = Some s' \<Longrightarrow>
        (\<forall>t. P t \<longrightarrow> P (spin h t)) \<longrightarrow> P s \<longrightarrow> P s'"
      and body: "(if fin \<le> ticks s then Some s else f h fin (spin h s)) = Some s'"
    show "(\<forall>t. P t \<longrightarrow> P (spin h t)) \<longrightarrow> P s \<longrightarrow> P s'"
    proof (cases "fin \<le> ticks s")
      case True
      then show ?thesis using body by simp
    next
      case False
      then have "f h fin (spin h s) = Some s'" using body by simp
      from IH [OF this] show ?thesis by iprover
    qed
  qed
  then show ?thesis using assms by iprover
qed

text \<open>Whatever the arithmetic does, \<open>sleep\<close> returns: a deadline that has wrapped around is past.\<close>

lemma sleep_total:
  assumes "ticking h" and "timer_installed s"
  shows "\<exists>s'. sleep h ms s = Some s'"
proof (cases "ticks s \<le> ticks s + (ms * freq s) div 1000")
  case True
  from sleep_loop_returns [OF this assms(2,1)] show ?thesis by (auto simp: sleep_def Let_def)
next
  case False
  then have "ticks s + (ms * freq s) div 1000 \<le> ticks s" by (simp add: linear not_le less_imp_le)
  then show ?thesis by (subst sleep_def, subst sleep_loop.simps) (simp add: Let_def)
qed


text \<open>A timer that interrupts in every interval, at 1000 Hz.\<close>

definition steady_hw :: hw where
  "steady_hw = \<lparr>hw_in = \<lambda>_ _. 0, hw_irqs = \<lambda>_. [32], hw_dma = \<lambda>_. (0, [])\<rparr>"

definition steady_mach :: mach where
  "steady_mach = (boot_mach 0)\<lparr>freq := 1000, irq_table := [32 \<mapsto> TimerInterruptHandler]\<rparr>"


end
