(* ===== verification/Dma.thy ===== *)
theory Dma
  imports PortIO
begin

text \<open>
  The two 8237A DMA controllers, \<open>driver/dma.c\<close>: every operation is a sequence of port writes,
  with the guards on the channel number; an operation on an invalid channel writes nothing. A
  decoder of the writes for channel 2, a reading of the controller's documentation, states what
  a sequence programs.
\<close>

unbundle bit_operations_syntax

section \<open>Registers\<close>

definition DMAC0_REG_COMMAND :: u16 where "DMAC0_REG_COMMAND = 0x08"
definition DMAC0_REG_CHANMASK :: u16 where "DMAC0_REG_CHANMASK = 0x0A"
definition DMAC0_REG_MODE :: u16 where "DMAC0_REG_MODE = 0x0B"
definition DMAC0_REG_CLEARFLIPFLOP :: u16 where "DMAC0_REG_CLEARFLIPFLOP = 0x0C"
definition DMAC0_REG_MASTERCLEAR :: u16 where "DMAC0_REG_MASTERCLEAR = 0x0D"
definition DMAC0_REG_CLEARMASK :: u16 where "DMAC0_REG_CLEARMASK = 0x0E"
definition DMAC1_REG_COMMAND :: u16 where "DMAC1_REG_COMMAND = 0xD0"
definition DMAC1_REG_CHANMASK :: u16 where "DMAC1_REG_CHANMASK = 0xD4"
definition DMAC1_REG_MODE :: u16 where "DMAC1_REG_MODE = 0xD6"
definition DMAC1_REG_CLEARFLIPFLOP :: u16 where "DMAC1_REG_CLEARFLIPFLOP = 0xD8"
definition DMAC1_REG_MASTERCLEAR :: u16 where "DMAC1_REG_MASTERCLEAR = 0xDA"

definition dma_addr_port :: "u8 \<Rightarrow> u16 option" where
  "dma_addr_port channel =
     (if channel = 0 then Some 0x00 else if channel = 1 then Some 0x02
      else if channel = 2 then Some 0x04 else if channel = 3 then Some 0x06
      else if channel = 4 then Some 0xC0 else if channel = 5 then Some 0xC4
      else if channel = 6 then Some 0xC8 else if channel = 7 then Some 0xCC
      else None)"

definition dma_count_port :: "u8 \<Rightarrow> u16 option" where
  "dma_count_port channel =
     (if channel = 0 then Some 0x01 else if channel = 1 then Some 0x03
      else if channel = 2 then Some 0x05 else if channel = 3 then Some 0x07
      else if channel = 4 then Some 0xC2 else if channel = 5 then Some 0xC6
      else if channel = 6 then Some 0xCA else if channel = 7 then Some 0xCE
      else None)"

text \<open>Channel 4 has no page register. Channels 1 and 3 are given the same one.\<close>

definition dma_page_port :: "u8 \<Rightarrow> u16 option" where
  "dma_page_port channel =
     (if channel = 0 then Some 0x87 else if channel = 1 then Some 0x83
      else if channel = 2 then Some 0x81 else if channel = 3 then Some 0x83
      else if channel = 5 then Some 0x8B else if channel = 6 then Some 0x89
      else if channel = 7 then Some 0x8A else None)"

definition DMA_CMD_DISABLE :: u8 where "DMA_CMD_DISABLE = 0x04"
definition DMA_MODE_READ :: u8 where "DMA_MODE_READ = 0x04"
definition DMA_MODE_WRITE :: u8 where "DMA_MODE_WRITE = 0x08"
definition DMA_MODE_SINGLE :: u8 where "DMA_MODE_SINGLE = 0x40"
definition DMA_CHAN_FLOPPY :: u8 where "DMA_CHAN_FLOPPY = 2"

definition BYTE_LOW :: "u16 \<Rightarrow> u8" where
  "BYTE_LOW addr = ucast (addr AND 0x00FF)"

definition BYTE_HIGH :: "u16 \<Rightarrow> u8" where
  "BYTE_HIGH addr = ucast (drop_bit 8 (addr AND 0xFF00))"

section \<open>Operations\<close>

definition dma_set_address :: "u8 \<Rightarrow> u16 \<Rightarrow> 'z mach_scheme \<Rightarrow> 'z mach_scheme" where
  "dma_set_address channel address s =
     (case dma_addr_port channel of
        None \<Rightarrow> s
      | Some port \<Rightarrow> outb (BYTE_HIGH address) port (outb (BYTE_LOW address) port s))"

definition dma_set_count :: "u8 \<Rightarrow> u16 \<Rightarrow> 'z mach_scheme \<Rightarrow> 'z mach_scheme" where
  "dma_set_count channel count s =
     (case dma_count_port channel of
        None \<Rightarrow> s
      | Some port \<Rightarrow> outb (BYTE_HIGH count) port (outb (BYTE_LOW count) port s))"

definition dma_set_external_pagereg :: "u8 \<Rightarrow> u8 \<Rightarrow> 'z mach_scheme \<Rightarrow> 'z mach_scheme" where
  "dma_set_external_pagereg channel page s =
     (case dma_page_port channel of None \<Rightarrow> s | Some port \<Rightarrow> outb page port s)"

definition dma_mask_channel :: "u8 \<Rightarrow> 'z mach_scheme \<Rightarrow> 'z mach_scheme" where
  "dma_mask_channel channel s =
     (if channel > 7 then s
      else
        let port = (if channel < 4 then DMAC0_REG_CHANMASK else DMAC1_REG_CHANMASK);
            chan = (if channel < 4 then channel else channel - 4)
        in outb (0x04 OR chan) port s)"

definition dma_unmask_channel :: "u8 \<Rightarrow> 'z mach_scheme \<Rightarrow> 'z mach_scheme" where
  "dma_unmask_channel channel s =
     (if channel > 7 then s
      else
        let port = (if channel < 4 then DMAC0_REG_CHANMASK else DMAC1_REG_CHANMASK);
            chan = (if channel < 4 then channel else channel - 4)
        in outb (0x00 OR chan) port s)"

definition dma_unmask_all :: "'z mach_scheme \<Rightarrow> 'z mach_scheme" where
  "dma_unmask_all s = outb 0x00 DMAC0_REG_CLEARMASK s"

definition dma_set_mode :: "u8 \<Rightarrow> u8 \<Rightarrow> 'z mach_scheme \<Rightarrow> 'z mach_scheme" where
  "dma_set_mode channel mode s =
     (if channel > 7 then s
      else
        let dma_no = (if channel < 4 then 0 else 1 :: u8);
            chan_no = (if dma_no = 0 then channel else channel - 4);
            mode_reg = (if dma_no = 0 then DMAC0_REG_MODE else DMAC1_REG_MODE);
            s = dma_mask_channel channel s;
            s = outb (mode OR chan_no) mode_reg s
        in dma_unmask_all s)"

definition dma_setup_read :: "u8 \<Rightarrow> 'z mach_scheme \<Rightarrow> 'z mach_scheme" where
  "dma_setup_read channel = dma_set_mode channel (DMA_MODE_READ OR DMA_MODE_SINGLE)"

definition dma_setup_write :: "u8 \<Rightarrow> 'z mach_scheme \<Rightarrow> 'z mach_scheme" where
  "dma_setup_write channel = dma_set_mode channel (DMA_MODE_WRITE OR DMA_MODE_SINGLE)"

definition dma_reset_flipflop :: "u8 \<Rightarrow> 'z mach_scheme \<Rightarrow> 'z mach_scheme" where
  "dma_reset_flipflop dmac =
     outb 0xff (if dmac = 0 then DMAC0_REG_CLEARFLIPFLOP else DMAC1_REG_CLEARFLIPFLOP)"

definition dma_reset :: "u8 \<Rightarrow> 'z mach_scheme \<Rightarrow> 'z mach_scheme" where
  "dma_reset dmac = outb 0xff (if dmac = 0 then DMAC0_REG_MASTERCLEAR else DMAC1_REG_MASTERCLEAR)"

definition dma_disable :: "u8 \<Rightarrow> 'z mach_scheme \<Rightarrow> 'z mach_scheme" where
  "dma_disable dmac =
     outb DMA_CMD_DISABLE (if dmac = 0 then DMAC0_REG_COMMAND else DMAC1_REG_COMMAND)"

section \<open>What the controllers make of the writes\<close>

text \<open>
  The programmable state of the two controllers and the effect of a port write on it, from the
  8237A's documentation and the register map of \<open>include/driver/dma.h\<close>: address and count are
  latched low byte first, a flip-flop per controller telling the bytes apart; the page registers
  are those of the PC/AT.
\<close>

record dmac =
  flip0 :: bool
  flip1 :: bool
  chan_addr :: "u8 \<Rightarrow> u16"
  chan_count :: "u8 \<Rightarrow> u16"
  chan_page :: "u8 \<Rightarrow> u8"
  chan_mode :: "u8 \<Rightarrow> u8"
  chan_masked :: "u8 \<Rightarrow> bool"

definition find_chan :: "(u8 \<Rightarrow> u16 option) \<Rightarrow> u16 \<Rightarrow> u8 option" where
  "find_chan f p = find (\<lambda>c. f c = Some p) [0, 1, 2, 3, 4, 5, 6, 7]"

definition at_page_port :: "u8 \<Rightarrow> u16 option" where
  "at_page_port c = (if c = 3 then Some 0x82 else dma_page_port c)"

definition latch :: "bool \<Rightarrow> u16 \<Rightarrow> u8 \<Rightarrow> u16" where
  "latch second x v =
     (if second then (x AND 0x00FF) OR push_bit 8 (ucast v) else (x AND 0xFF00) OR ucast v)"

definition flip_of :: "u8 \<Rightarrow> dmac \<Rightarrow> bool" where
  "flip_of c d = (if c < 4 then flip0 d else flip1 d)"

definition toggle :: "u8 \<Rightarrow> dmac \<Rightarrow> dmac" where
  "toggle c d = (if c < 4 then d\<lparr>flip0 := \<not> flip0 d\<rparr> else d\<lparr>flip1 := \<not> flip1 d\<rparr>)"

definition dmac_write :: "u16 \<times> u8 \<Rightarrow> dmac \<Rightarrow> dmac" where
  "dmac_write w d =
     (let (p, v) = w in
      if p = DMAC0_REG_CLEARFLIPFLOP then d\<lparr>flip0 := False\<rparr>
      else if p = DMAC1_REG_CLEARFLIPFLOP then d\<lparr>flip1 := False\<rparr>
      else if p = DMAC0_REG_CHANMASK then
        d\<lparr>chan_masked := (chan_masked d)(v AND 3 := bit v 2)\<rparr>
      else if p = DMAC1_REG_CHANMASK then
        d\<lparr>chan_masked := (chan_masked d)((v AND 3) + 4 := bit v 2)\<rparr>
      else if p = DMAC0_REG_CLEARMASK then
        d\<lparr>chan_masked := (\<lambda>c. if c < 4 then False else chan_masked d c)\<rparr>
      else if p = DMAC0_REG_MODE then d\<lparr>chan_mode := (chan_mode d)(v AND 3 := v AND 0xFC)\<rparr>
      else if p = DMAC1_REG_MODE then
        d\<lparr>chan_mode := (chan_mode d)((v AND 3) + 4 := v AND 0xFC)\<rparr>
      else case find_chan dma_addr_port p of
        Some c \<Rightarrow> toggle c
          (d\<lparr>chan_addr := (chan_addr d)(c := latch (flip_of c d) (chan_addr d c) v)\<rparr>)
      | None \<Rightarrow> (case find_chan dma_count_port p of
        Some c \<Rightarrow> toggle c
          (d\<lparr>chan_count := (chan_count d)(c := latch (flip_of c d) (chan_count d c) v)\<rparr>)
      | None \<Rightarrow> (case find_chan at_page_port p of
        Some c \<Rightarrow> d\<lparr>chan_page := (chan_page d)(c := v)\<rparr>
      | None \<Rightarrow> d)))"

definition dmac_run :: "(u16 \<times> u8) list \<Rightarrow> dmac \<Rightarrow> dmac" where
  "dmac_run ws d = fold dmac_write ws d"

named_theorems dma_regs \<open>the register addresses, for evaluating port writes\<close>
declare DMAC0_REG_COMMAND_def [dma_regs] DMAC0_REG_CHANMASK_def [dma_regs]
  DMAC0_REG_MODE_def [dma_regs] DMAC0_REG_CLEARFLIPFLOP_def [dma_regs]
  DMAC0_REG_MASTERCLEAR_def [dma_regs] DMAC0_REG_CLEARMASK_def [dma_regs]
  DMAC1_REG_COMMAND_def [dma_regs] DMAC1_REG_CHANMASK_def [dma_regs]
  DMAC1_REG_MODE_def [dma_regs] DMAC1_REG_CLEARFLIPFLOP_def [dma_regs]
  DMAC1_REG_MASTERCLEAR_def [dma_regs] dma_addr_port_def [dma_regs]
  dma_count_port_def [dma_regs] dma_page_port_def [dma_regs] at_page_port_def [dma_regs]
  find_chan_def [dma_regs]

lemma dmac_run_append: "dmac_run (xs @ ys) d = dmac_run ys (dmac_run xs d)"
  by (simp add: dmac_run_def)

lemma dmac_run_simps [simp]:
  "dmac_run [] d = d"
  "dmac_run (w # ws) d = dmac_run ws (dmac_write w d)"
  by (simp_all add: dmac_run_def)

lemma high_byte_mask: "(a :: u16) AND 0xFF00 = push_bit 8 (drop_bit 8 a)"
proof -
  have "(0xFF00 :: u16) = push_bit 8 (mask 8)"
    by (simp add: mask_eq_exp_minus_1)
  show ?thesis
    unfolding \<open>(0xFF00 :: u16) = push_bit 8 (mask 8)\<close>
    by (rule bit_word_eqI) (auto simp: bit_simps)
qed

lemma latch_bytes: "latch True (latch False x (BYTE_LOW a)) (BYTE_HIGH a) = a"
  unfolding latch_def BYTE_LOW_def BYTE_HIGH_def low_byte_mask high_byte_mask if_True if_False
  by (rule bit_word_eqI) (auto simp: bit_simps)

lemma chan_cases:
  fixes c :: u8
  assumes "c \<le> 7"
  obtains "c = 0" | "c = 1" | "c = 2" | "c = 3" | "c = 4" | "c = 5" | "c = 6" | "c = 7"
proof -
  have "unat c \<le> 7" using assms by (simp add: word_le_nat_alt)
  then have "unat c \<in> {0, 1, 2, 3, 4, 5, 6, 7}" by auto
  then have "c \<in> {0, 1, 2, 3, 4, 5, 6, 7}" by (simp add: word_unat_eq_iff)
  then show ?thesis using that by blast
qed

lemma dma_addr_port_le: "dma_addr_port c = Some p \<Longrightarrow> c \<le> 7"
  by (auto simp: dma_addr_port_def split: if_splits)

lemma dma_count_port_le: "dma_count_port c = Some p \<Longrightarrow> c \<le> 7"
  by (auto simp: dma_count_port_def split: if_splits)

lemma at_page_port_le: "at_page_port c = Some p \<Longrightarrow> c \<le> 7"
  by (auto simp: at_page_port_def dma_page_port_def split: if_splits)

lemma dmac_write_addr:
  assumes "dma_addr_port c = Some p"
  shows "dmac_write (p, v) d =
    toggle c (d\<lparr>chan_addr := (chan_addr d)(c := latch (flip_of c d) (chan_addr d c) v)\<rparr>)"
  by (rule chan_cases [OF dma_addr_port_le [OF assms]])
    (use assms in \<open>simp_all add: dma_regs dmac_write_def\<close>)

lemma dmac_write_count:
  assumes "dma_count_port c = Some p"
  shows "dmac_write (p, v) d =
    toggle c (d\<lparr>chan_count := (chan_count d)(c := latch (flip_of c d) (chan_count d c) v)\<rparr>)"
  by (rule chan_cases [OF dma_count_port_le [OF assms]])
    (use assms in \<open>simp_all add: dma_regs dmac_write_def\<close>)

lemma dmac_write_page:
  assumes "at_page_port c = Some p"
  shows "dmac_write (p, v) d = d\<lparr>chan_page := (chan_page d)(c := v)\<rparr>"
  by (rule chan_cases [OF at_page_port_le [OF assms]])
    (use assms in \<open>simp_all add: dma_regs dmac_write_def\<close>)

lemma dmac_addr_writes:
  assumes "dma_addr_port c = Some p" and "\<not> flip_of c d"
  shows "dmac_run [(p, BYTE_LOW a), (p, BYTE_HIGH a)] d = d\<lparr>chan_addr := (chan_addr d)(c := a)\<rparr>"
  using assms(2)
  by (cases "c < 4") (simp_all add: dmac_write_addr [OF assms(1)] toggle_def flip_of_def latch_bytes)

lemma dmac_count_writes:
  assumes "dma_count_port c = Some p" and "\<not> flip_of c d"
  shows "dmac_run [(p, BYTE_LOW a), (p, BYTE_HIGH a)] d = d\<lparr>chan_count := (chan_count d)(c := a)\<rparr>"
  using assms(2)
  by (cases "c < 4") (simp_all add: dmac_write_count [OF assms(1)] toggle_def flip_of_def latch_bytes)

section \<open>Programming a channel\<close>

definition dmac_reset_state :: dmac where
  "dmac_reset_state = \<lparr>flip0 = False, flip1 = False, chan_addr = \<lambda>_. 0, chan_count = \<lambda>_. 0,
     chan_page = \<lambda>_. 0, chan_mode = \<lambda>_. 0, chan_masked = \<lambda>_. True\<rparr>"

lemma dma_outs [io_simps]:
  "outs (dma_set_address c a s) = outs s @
     (case dma_addr_port c of None \<Rightarrow> [] | Some p \<Rightarrow> [(p, BYTE_LOW a), (p, BYTE_HIGH a)])"
  "outs (dma_set_count c a s) = outs s @
     (case dma_count_port c of None \<Rightarrow> [] | Some p \<Rightarrow> [(p, BYTE_LOW a), (p, BYTE_HIGH a)])"
  "outs (dma_set_external_pagereg c v s) = outs s @
     (case dma_page_port c of None \<Rightarrow> [] | Some p \<Rightarrow> [(p, v)])"
  "outs (dma_reset_flipflop n s) = outs s @
     [(if n = 0 then DMAC0_REG_CLEARFLIPFLOP else DMAC1_REG_CLEARFLIPFLOP, 0xff)]"
  "outs (dma_mask_channel c s) = outs s @ (if c > 7 then [] else
     [(if c < 4 then DMAC0_REG_CHANMASK else DMAC1_REG_CHANMASK,
       0x04 OR (if c < 4 then c else c - 4))])"
  "outs (dma_unmask_channel c s) = outs s @ (if c > 7 then [] else
     [(if c < 4 then DMAC0_REG_CHANMASK else DMAC1_REG_CHANMASK,
       0x00 OR (if c < 4 then c else c - 4))])"
  "outs (dma_unmask_all s) = outs s @ [(DMAC0_REG_CLEARMASK, 0)]"
  by (simp_all add: dma_set_address_def dma_set_count_def dma_set_external_pagereg_def
      dma_reset_flipflop_def dma_mask_channel_def dma_unmask_channel_def dma_unmask_all_def
      io_simps Let_def split: option.splits)

lemma dma_mode_outs [io_simps]:
  "outs (dma_set_mode c m s) = outs s @ (if c > 7 then [] else
     [(if c < 4 then DMAC0_REG_CHANMASK else DMAC1_REG_CHANMASK,
       0x04 OR (if c < 4 then c else c - 4)),
      (if c < 4 then DMAC0_REG_MODE else DMAC1_REG_MODE, m OR (if c < 4 then c else c - 4)),
      (DMAC0_REG_CLEARMASK, 0)])"
  by (simp add: dma_set_mode_def io_simps Let_def)

text \<open>After the flip-flop is cleared, \<open>dma_set_address\<close> and \<open>dma_set_count\<close> on a valid
  channel load exactly the given 16-bit values into that channel's registers, low byte first, and
  touch nothing else of either controller.\<close>

lemma dma_set_address_count_loads:
  assumes "c \<le> 7"
  shows "\<exists>ws. outs (dma_set_count c n (dma_reset_flipflop (c div 4) (dma_set_address c a
               (dma_reset_flipflop (c div 4) s)))) = outs s @ ws \<and>
    dmac_run ws d = (if c < 4 then d\<lparr>flip0 := False\<rparr> else d\<lparr>flip1 := False\<rparr>)
      \<lparr>chan_addr := (chan_addr d)(c := a), chan_count := (chan_count d)(c := n)\<rparr>"
proof -
  have div4: "c div 4 = 0 \<longleftrightarrow> c < 4"
    by (rule chan_cases [OF assms]) simp_all
  obtain p q where p: "dma_addr_port c = Some p" and q: "dma_count_port c = Some q"
    by (rule chan_cases [OF assms]) (simp_all add: dma_addr_port_def dma_count_port_def)
  have clear: "dmac_write (DMAC0_REG_CLEARFLIPFLOP, v) e = e\<lparr>flip0 := False\<rparr>"
    "dmac_write (DMAC1_REG_CLEARFLIPFLOP, v) e = e\<lparr>flip1 := False\<rparr>" for v e
    by (simp_all add: dmac_write_def dma_regs)
  show ?thesis
    by (cases "c < 4")
      (auto simp: io_simps p q div4 clear dmac_write_addr [OF p] dmac_write_count [OF q]
        toggle_def flip_of_def latch_bytes)
qed

lemma dma_set_address_count_loads_witness:
  "\<exists>ws. outs (dma_set_count 5 511 (dma_reset_flipflop (5 div 4) (dma_set_address 5 0x1000
            (dma_reset_flipflop (5 div 4) (boot_mach 0))))) = ws \<and>
    chan_addr (dmac_run ws dmac_reset_state) 5 = 0x1000"
  using dma_set_address_count_loads [of 5 511 "0x1000" "boot_mach 0" dmac_reset_state]
  by (auto simp: boot_mach_def)

lemma mode_bits:
  fixes m x :: u8
  assumes "m AND 3 = 0" and "x AND 3 = x"
  shows "(m OR x) AND 3 = x" and "(m OR x) AND 0xFC = m"
proof -
  have 3: "(3 :: u8) = mask 2" "(0xFC :: u8) = NOT (mask 2)"
    by (simp_all add: mask_eq_exp_minus_1)
  have m: "\<not> bit m n" if "n < 2" for n
    using arg_cong [OF assms(1), of "\<lambda>w. bit w n"] that unfolding 3 by (simp add: bit_simps)
  have x: "\<not> bit x n" if "2 \<le> n" for n
    using arg_cong [OF assms(2), of "\<lambda>w. bit w n"] that unfolding 3 by (auto simp: bit_simps)
  show "(m OR x) AND 3 = x" "(m OR x) AND 0xFC = m"
    unfolding 3 by (rule bit_word_eqI; use m x not_le in \<open>auto simp: bit_simps\<close>)+
qed

text \<open>\<open>dma_set_mode\<close> masks the channel, sets its mode bits and then unmasks through controller
  0's clear-mask register only. A channel of controller 0 ends enabled; a channel of controller 1
  ends masked, that is, switched off by the operation that was to set it up.\<close>

lemma dma_set_mode_effect:
  assumes "c \<le> 7" and "m AND 3 = 0"
  shows "\<exists>ws. outs (dma_set_mode c m s) = outs s @ ws \<and>
    chan_mode (dmac_run ws d) c = m \<and> (chan_masked (dmac_run ws d) c \<longleftrightarrow> 4 \<le> c)"
proof -
  have bits: "(m OR x) AND 3 = x \<and> (m OR x) AND 0xFC = m" if "x AND 3 = x" for x
    using mode_bits [OF assms(2) that] by blast
  have b: "m AND 0xFC = m"
    using bits [of 0] by simp
  show ?thesis
    by (rule chan_cases [OF assms(1)])
      (simp_all add: io_simps dmac_write_def dma_regs bits b assms(2) bit_iff_odd not_le)
qed

lemma dma_set_mode_effect_witness:
  "\<exists>ws. outs (dma_set_mode 5 0x44 (boot_mach 0)) = ws \<and>
    chan_masked (dmac_run ws dmac_reset_state) 5"
  using dma_set_mode_effect [of 5 "0x44" "boot_mach 0" dmac_reset_state]
  by (auto simp: boot_mach_def)

text \<open>\<open>dma_set_external_pagereg\<close> on channel 3 loads the page register of channel 1, because both
  are given port \<open>0x83\<close>: channel 3's own page stays what it was.\<close>

lemma dma_page_of_channel_3_goes_to_1:
  "\<exists>ws. outs (dma_set_external_pagereg 3 v s) = outs s @ ws \<and>
    dmac_run ws d = d\<lparr>chan_page := (chan_page d)(1 := v)\<rparr>"
proof -
  have "at_page_port 1 = Some 0x83" "dma_page_port 3 = Some 0x83"
    by (simp_all add: at_page_port_def dma_page_port_def)
  then show ?thesis by (auto simp: io_simps dmac_write_page)
qed

end
