(* ===== verification/Pic.thy ===== *)
theory Pic
  imports PortIO
begin

text \<open>
  The two cascaded 8259A interrupt controllers, \<open>driver/pic.c\<close>: the initialisation sequence and
  the end-of-interrupt commands, against a model of the controller's initialisation protocol
  (ICW1 to the command port, then ICW2, ICW3 and ICW4 to the data port, after which the data
  port is the interrupt mask).
\<close>

unbundle bit_operations_syntax

definition MASTER_PIC_COMMAND_PORT :: u16 where "MASTER_PIC_COMMAND_PORT = 0x20"
definition MASTER_PIC_DATA_PORT :: u16 where "MASTER_PIC_DATA_PORT = 0x21"
definition SLAVE_PIC_COMMAND_PORT :: u16 where "SLAVE_PIC_COMMAND_PORT = 0xA0"
definition SLAVE_PIC_DATA_PORT :: u16 where "SLAVE_PIC_DATA_PORT = 0xA1"
definition PIC_ICW1_EXPECT_ICW4 :: u8 where "PIC_ICW1_EXPECT_ICW4 = 0x01"
definition PIC_ICW1_START_INIT :: u8 where "PIC_ICW1_START_INIT = 0x10"
definition PIC_ICW2_IVT_BASE :: "u8 \<Rightarrow> u8" where "PIC_ICW2_IVT_BASE base = base AND 0xFF"
definition PIC_ICW3_PRIM_SLAVE_PIN :: "nat \<Rightarrow> u8" where
  "PIC_ICW3_PRIM_SLAVE_PIN pin = push_bit pin 1 AND 0xFF"
definition PIC_ICW3_SEC_MASTER_PIN :: "u8 \<Rightarrow> u8" where
  "PIC_ICW3_SEC_MASTER_PIN pin = pin AND 0x07"
definition PIC_ICW4_8086_MODE :: u8 where "PIC_ICW4_8086_MODE = 0x01"
definition PIC_OCW2_EOI :: u8 where "PIC_OCW2_EOI = 0x20"

definition pic_init :: "u8 \<Rightarrow> u8 \<Rightarrow> 'z mach_scheme \<Rightarrow> 'z mach_scheme" where
  "pic_init master_base slave_base s =
     (let s = outb (PIC_ICW1_START_INIT OR PIC_ICW1_EXPECT_ICW4) MASTER_PIC_COMMAND_PORT s;
          s = outb (PIC_ICW1_START_INIT OR PIC_ICW1_EXPECT_ICW4) SLAVE_PIC_COMMAND_PORT s;
          s = outb (PIC_ICW2_IVT_BASE master_base) MASTER_PIC_DATA_PORT s;
          s = outb (PIC_ICW2_IVT_BASE slave_base) SLAVE_PIC_DATA_PORT s;
          s = outb (PIC_ICW3_PRIM_SLAVE_PIN 2) MASTER_PIC_DATA_PORT s;
          s = outb (PIC_ICW3_SEC_MASTER_PIN 2) SLAVE_PIC_DATA_PORT s;
          s = outb PIC_ICW4_8086_MODE MASTER_PIC_DATA_PORT s;
          s = outb PIC_ICW4_8086_MODE SLAVE_PIC_DATA_PORT s;
          s = outb 0x00 MASTER_PIC_DATA_PORT s
      in outb 0x00 SLAVE_PIC_DATA_PORT s)"

definition pic_send_eoi :: "u8 \<Rightarrow> 'z mach_scheme \<Rightarrow> 'z mach_scheme" where
  "pic_send_eoi int_no s =
     (let s = (if int_no \<ge> 0x28 then outb PIC_OCW2_EOI SLAVE_PIC_COMMAND_PORT s else s)
      in outb PIC_OCW2_EOI MASTER_PIC_COMMAND_PORT s)"

section \<open>The controllers' protocol\<close>

record pic8259 =
  icw_next :: nat
  vector_base :: u8
  cascade :: u8
  icw4 :: u8
  imr :: u8
  eois :: nat

definition pic_command :: "u8 \<Rightarrow> pic8259 \<Rightarrow> pic8259" where
  "pic_command v p =
     (if bit v 4 then p\<lparr>icw_next := 2, imr := 0\<rparr>
      else if \<not> bit v 3 \<and> bit v 5 then p\<lparr>eois := eois p + 1\<rparr> else p)"

definition pic_data :: "u8 \<Rightarrow> pic8259 \<Rightarrow> pic8259" where
  "pic_data v p =
     (if icw_next p = 2 then p\<lparr>icw_next := 3, vector_base := v AND 0xF8\<rparr>
      else if icw_next p = 3 then p\<lparr>icw_next := 4, cascade := v\<rparr>
      else if icw_next p = 4 then p\<lparr>icw_next := 0, icw4 := v\<rparr>
      else p\<lparr>imr := v\<rparr>)"

fun pics_write :: "u16 \<times> u8 \<Rightarrow> pic8259 \<times> pic8259 \<Rightarrow> pic8259 \<times> pic8259" where
  "pics_write (port, v) (m, sl) =
     (if port = MASTER_PIC_COMMAND_PORT then (pic_command v m, sl)
      else if port = MASTER_PIC_DATA_PORT then (pic_data v m, sl)
      else if port = SLAVE_PIC_COMMAND_PORT then (m, pic_command v sl)
      else if port = SLAVE_PIC_DATA_PORT then (m, pic_data v sl)
      else (m, sl))"

lemmas pic_regs = MASTER_PIC_COMMAND_PORT_def MASTER_PIC_DATA_PORT_def SLAVE_PIC_COMMAND_PORT_def
  SLAVE_PIC_DATA_PORT_def PIC_ICW1_EXPECT_ICW4_def PIC_ICW1_START_INIT_def PIC_ICW2_IVT_BASE_def
  PIC_ICW3_PRIM_SLAVE_PIN_def PIC_ICW3_SEC_MASTER_PIN_def PIC_ICW4_8086_MODE_def PIC_OCW2_EOI_def

text \<open>Whatever state the controllers are in, even in the middle of another initialisation,
  \<open>pic_init\<close> leaves both in operation in 8086 mode with normal end of interrupt, with the given
  vector bases, the slave cascaded on line 2 of the master, and no interrupt masked.\<close>

lemma pic_init_programs:
  "\<exists>ws. outs (pic_init mb sb s) = outs s @ ws \<and>
    fold pics_write ws (m, sl) =
      (m\<lparr>icw_next := 0, vector_base := mb AND 0xF8, cascade := 4, icw4 := 1, imr := 0\<rparr>,
       sl\<lparr>icw_next := 0, vector_base := sb AND 0xF8, cascade := 2, icw4 := 1, imr := 0\<rparr>)"
proof -
  have "x AND 0xFF = x" for x :: u8
    by (simp add: low_byte_mask take_bit_word_eq_self)
  then show ?thesis
    by (cases m; cases sl)
      (simp add: pic_init_def Let_def io_simps pic_regs pic_command_def pic_data_def bit_iff_odd)
qed

text \<open>An end of interrupt reaches the controllers that took part: the master always, the slave
  exactly for the interrupts of its lines (\<open>0x28\<close> and above), and it never disturbs their
  configuration.\<close>

lemma pic_send_eoi_effect:
  "\<exists>ws. outs (pic_send_eoi n s) = outs s @ ws \<and>
    fold pics_write ws (m, sl) =
      (m\<lparr>eois := eois m + 1\<rparr>, if 0x28 \<le> n then sl\<lparr>eois := eois sl + 1\<rparr> else sl)"
  by (simp add: pic_send_eoi_def Let_def io_simps pic_regs pic_command_def bit_iff_odd)

end
