(* ===== verification/Paging.thy ===== *)
theory Paging
  imports Prelude
begin

text \<open>
  Page directory and page table entries (\<open>include/mm/pde.h\<close>, \<open>include/mm/pte.h\<close>), the split of a
  virtual address (\<open>include/mm/vmm.h\<close>), the alignment macros (\<open>include/utils.h\<close>) and the physical
  map (\<open>include/mem.h\<close>). A function that updates an entry through a pointer is the function from
  the old to the new entry.
\<close>

unbundle bit_operations_syntax

section \<open>Entries\<close>

type_synonym pde_t = u32
type_synonym pte_t = u32

definition PDE_FRAME_MASK :: u32 where "PDE_FRAME_MASK = 0xFFFFF000"
definition PDE_PTABLE_ADDR :: "pde_t \<Rightarrow> u32" where "PDE_PTABLE_ADDR pde = pde AND PDE_FRAME_MASK"
definition PDE_FLAGS :: "pde_t \<Rightarrow> u32" where "PDE_FLAGS pde = pde AND NOT PDE_FRAME_MASK"

definition pde_set_flags :: "pde_t \<Rightarrow> u32 \<Rightarrow> pde_t" where
  "pde_set_flags pde flags = (pde AND PDE_FRAME_MASK) OR (flags AND NOT PDE_FRAME_MASK)"

definition pde_clear_flags :: "pde_t \<Rightarrow> u32 \<Rightarrow> pde_t" where
  "pde_clear_flags pde flags = pde AND NOT (flags AND NOT PDE_FRAME_MASK)"

definition pde_create :: "u32 \<Rightarrow> u32 \<Rightarrow> pde_t" where
  "pde_create frame_addr flags = (frame_addr AND PDE_FRAME_MASK) OR (flags AND NOT PDE_FRAME_MASK)"

definition PTE_FRAME_MASK :: u32 where "PTE_FRAME_MASK = 0xFFFFF000"
definition PTE_FRAME_ADDR :: "pte_t \<Rightarrow> u32" where "PTE_FRAME_ADDR pte = pte AND PTE_FRAME_MASK"
definition PTE_FLAGS :: "pte_t \<Rightarrow> u32" where "PTE_FLAGS pte = pte AND NOT PTE_FRAME_MASK"

definition PTE_PRESENT :: u32 where "PTE_PRESENT = 0x001"
definition PTE_WRITABLE :: u32 where "PTE_WRITABLE = 0x002"
definition PTE_USER :: u32 where "PTE_USER = 0x004"

definition PTE_IS_PRESENT :: "pte_t \<Rightarrow> bool" where "PTE_IS_PRESENT pte \<longleftrightarrow> pte AND PTE_PRESENT \<noteq> 0"
definition PTE_SET_PRESENT :: "pte_t \<Rightarrow> pte_t" where "PTE_SET_PRESENT pte = pte OR PTE_PRESENT"
definition PTE_UNSET_PRESENT :: "pte_t \<Rightarrow> pte_t" where
  "PTE_UNSET_PRESENT pte = pte AND NOT PTE_PRESENT"

definition pte_set_flags :: "pte_t \<Rightarrow> u32 \<Rightarrow> pte_t" where
  "pte_set_flags pte flags = (pte AND PTE_FRAME_MASK) OR (flags AND NOT PTE_FRAME_MASK)"

definition pte_clear_flags :: "pte_t \<Rightarrow> u32 \<Rightarrow> pte_t" where
  "pte_clear_flags pte flags = pte AND NOT (flags AND NOT PTE_FRAME_MASK)"

definition pte_create :: "u32 \<Rightarrow> u32 \<Rightarrow> pte_t" where
  "pte_create frame_addr flags = (frame_addr AND PTE_FRAME_MASK) OR (flags AND NOT PTE_FRAME_MASK)"

section \<open>Addresses\<close>

definition VMM_DIR_INDEX :: "u32 \<Rightarrow> u32" where
  "VMM_DIR_INDEX addr = drop_bit 22 (addr AND 0xFFC00000)"

definition VMM_TABLE_INDEX :: "u32 \<Rightarrow> u32" where
  "VMM_TABLE_INDEX addr = drop_bit 12 (addr AND 0x003FF000)"

definition VMM_PAGE_OFFSET :: "u32 \<Rightarrow> u32" where
  "VMM_PAGE_OFFSET addr = addr AND 0x00000FFF"

definition ALIGN :: "u32 \<Rightarrow> u32 \<Rightarrow> u32" where
  "ALIGN addr alignment = (addr + alignment - 1) AND NOT (alignment - 1)"

definition IS_ALIGNED :: "u32 \<Rightarrow> u32 \<Rightarrow> bool" where
  "IS_ALIGNED addr alignment \<longleftrightarrow> addr AND (alignment - 1) = 0"

definition PAGE_ALIGN_UP :: "u32 \<Rightarrow> u32" where
  "PAGE_ALIGN_UP addr = addr AND NOT 0xFFF"

definition PAGE_ALIGN_DWN :: "u32 \<Rightarrow> u32" where
  "PAGE_ALIGN_DWN addr = (addr + 0xFFF) AND NOT 0xFFF"

definition PHYSMAP_BASE :: u32 where "PHYSMAP_BASE = 0xC0000000"
definition PHYS_TO_VIRT :: "u32 \<Rightarrow> u32" where "PHYS_TO_VIRT addr = addr + PHYSMAP_BASE"
definition VIRT_TO_PHYS :: "u32 \<Rightarrow> u32" where "VIRT_TO_PHYS addr = addr - PHYSMAP_BASE"

section \<open>Masks as shifts\<close>

lemma low12: "(0xFFF :: u32) = mask 12"
  by (simp add: mask_eq_exp_minus_1)

lemma frame_mask: "PDE_FRAME_MASK = NOT (mask 12)" "PTE_FRAME_MASK = NOT (mask 12)"
  by (simp_all add: PDE_FRAME_MASK_def PTE_FRAME_MASK_def mask_eq_exp_minus_1)

lemma dir_mask: "(0xFFC00000 :: u32) = push_bit 22 (mask 10)"
  and table_mask: "(0x003FF000 :: u32) = push_bit 12 (mask 10)"
  by (simp_all add: mask_eq_exp_minus_1)

lemma not_mask_shift: "x AND NOT (mask k) = push_bit k (drop_bit k x)" for x :: "'a::len word"
  by (rule bit_word_eqI) (auto simp: bit_simps)

lemma push_drop_nat: "unat (push_bit k (drop_bit k x)) = unat x div 2 ^ k * 2 ^ k"
  for x :: "'a::len word"
proof -
  have "unat x div 2 ^ k * 2 ^ k \<le> unat x" by simp
  then have "unat x div 2 ^ k * 2 ^ k < 2 ^ LENGTH('a)"
    using unsigned_less [of x, where ?'a = nat] by linarith
  moreover have "unat (push_bit k (drop_bit k x)) = take_bit LENGTH('a) (unat x div 2 ^ k * 2 ^ k)"
    unfolding unsigned_push_bit_eq unat_drop_bit_eq
    by (simp add: push_bit_eq_mult drop_bit_eq_div)
  ultimately show ?thesis by (simp only: take_bit_nat_eq_self)
qed

lemma align_down_nat: "unat (x AND NOT (mask k)) = unat x div 2 ^ k * 2 ^ k"
  for x :: "'a::len word"
  by (simp add: not_mask_shift push_drop_nat)

section \<open>Properties\<close>

text \<open>A page table entry made from a frame address and flags reads back as exactly the page
  part of the one and the low twelve bits of the other, every entry is made of its two parts, and
  \<open>pte_set_flags\<close> and \<open>pte_clear_flags\<close> change the flags as they say and never the frame.\<close>

lemma pte_parts:
  "PTE_FRAME_ADDR (pte_create f g) = PTE_FRAME_ADDR f \<and> PTE_FLAGS (pte_create f g) = PTE_FLAGS g \<and>
   pte_create (PTE_FRAME_ADDR e) (PTE_FLAGS e) = e \<and>
   PTE_FRAME_ADDR (pte_set_flags e g) = PTE_FRAME_ADDR e \<and> PTE_FLAGS (pte_set_flags e g) = PTE_FLAGS g \<and>
   PTE_FRAME_ADDR (pte_clear_flags e g) = PTE_FRAME_ADDR e \<and>
   PTE_FLAGS (pte_clear_flags e g) = PTE_FLAGS e AND NOT g"
  unfolding PTE_FRAME_ADDR_def PTE_FLAGS_def pte_create_def pte_set_flags_def pte_clear_flags_def
    frame_mask
  by (intro conjI bit_word_eqI) (auto simp: bit_simps)

text \<open>The directory index, table index and offset of a virtual address are in range for a
  directory and a table of 1024 entries and a 4 KB page, and together they are the address, so
  the translation of an address loses nothing of it.\<close>

lemma vmm_split:
  "unat (VMM_DIR_INDEX a) < 1024 \<and> unat (VMM_TABLE_INDEX a) < 1024 \<and> unat (VMM_PAGE_OFFSET a) < 4096 \<and>
   push_bit 22 (VMM_DIR_INDEX a) OR push_bit 12 (VMM_TABLE_INDEX a) OR VMM_PAGE_OFFSET a = a"
proof -
  have d: "VMM_DIR_INDEX a = drop_bit 22 a"
    and t: "VMM_TABLE_INDEX a = take_bit 10 (drop_bit 12 a)"
    and p: "VMM_PAGE_OFFSET a = take_bit 12 a"
    unfolding VMM_DIR_INDEX_def VMM_TABLE_INDEX_def VMM_PAGE_OFFSET_def dir_mask table_mask low12
    by (rule bit_word_eqI; auto simp: bit_simps dest: bit_imp_le_length)+
  have "unat (drop_bit 22 a) < 1024"
    using unat_lt_2p32 [of a] by (simp add: drop_bit_eq_div unat_div_distrib)
  moreover have "unat (take_bit 10 (drop_bit 12 a)) < 1024" "unat (take_bit 12 a) < 4096"
    using take_bit_nat_less_exp [of 10 "unat (drop_bit 12 a)"] take_bit_nat_less_exp [of 12 "unat a"]
    by (simp_all only: unsigned_take_bit_eq) simp_all
  moreover have "push_bit 22 (drop_bit 22 a) OR push_bit 12 (take_bit 10 (drop_bit 12 a))
      OR take_bit 12 a = a"
    apply (rule bit_word_eqI)
    subgoal for n by (cases "22 \<le> n"; cases "12 \<le> n") (auto simp: bit_simps)
    done
  ultimately show ?thesis by (simp add: d t p)
qed

text \<open>\<open>PAGE_ALIGN_UP\<close> rounds an address down to the start of its page, and \<open>PAGE_ALIGN_DWN\<close>
  rounds it up to the next page boundary, as long as that does not pass the top of the address
  space: each does what the name of the other says.\<close>

lemma page_align_names_swapped:
  "unat (PAGE_ALIGN_UP a) = unat a div 4096 * 4096 \<and>
   unat (PAGE_ALIGN_DWN a) = (unat a + 4095) mod 2 ^ 32 div 4096 * 4096"
proof -
  have "unat (a + 0xFFF) = (unat a + 4095) mod 2 ^ 32" by (simp add: unat_word_ariths)
  then show ?thesis
    unfolding PAGE_ALIGN_UP_def PAGE_ALIGN_DWN_def low12 [symmetric]
    using align_down_nat [of a 12] align_down_nat [of "a + 0xFFF" 12]
    by (simp add: mask_eq_exp_minus_1)
qed

end
