(* ===== verification/Serial.thy ===== *)
theory Serial
  imports KString Irq
begin

text \<open>
  The 16550 serial port, \<open>driver/serial.c\<close>: line setup, the interrupt registration, and polled
  character input and output. The polling loops may spin for ever, so they are partial functions;
  \<open>None\<close> is a device that never becomes ready. A model of the UART's registers, with the divisor
  latch behind the access bit, states what the writes mean to the device.
\<close>

unbundle bit_operations_syntax

section \<open>Registers\<close>

definition SERIAL_RCVBUF :: "u16 \<Rightarrow> u16" where "SERIAL_RCVBUF base = base + 0x00"
definition SERIAL_XMITBUF :: "u16 \<Rightarrow> u16" where "SERIAL_XMITBUF base = base + 0x00"
definition SERIAL_IER :: "u16 \<Rightarrow> u16" where "SERIAL_IER base = base + 0x01"
definition SERIAL_DLLSB :: "u16 \<Rightarrow> u16" where "SERIAL_DLLSB base = base + 0x00"
definition SERIAL_DLMSB :: "u16 \<Rightarrow> u16" where "SERIAL_DLMSB base = base + 0x01"
definition SERIAL_FIFOCTRL :: "u16 \<Rightarrow> u16" where "SERIAL_FIFOCTRL base = base + 0x02"
definition SERIAL_LINECTRL :: "u16 \<Rightarrow> u16" where "SERIAL_LINECTRL base = base + 0x03"
definition SERIAL_MODEMCTRL :: "u16 \<Rightarrow> u16" where "SERIAL_MODEMCTRL base = base + 0x04"
definition SERIAL_LINESTAT :: "u16 \<Rightarrow> u16" where "SERIAL_LINESTAT base = base + 0x05"

definition LINECTRL_DLAB :: u8 where "LINECTRL_DLAB = 0x80"
definition LINECTRL_PARITY_NONE :: u8 where "LINECTRL_PARITY_NONE = 0x00"
definition LINECTRL_STOPBIT_1 :: u8 where "LINECTRL_STOPBIT_1 = 0x00"
definition LINECTRL_DATABIT_8 :: u8 where "LINECTRL_DATABIT_8 = 0x03"
definition INTREN_XMIT_EMPTY :: u8 where "INTREN_XMIT_EMPTY = 0x02"
definition INTRID_FIFO_UNUSABLE :: u8 where "INTRID_FIFO_UNUSABLE = 0x40"
definition INTRID_FIFO_ENABLED :: u8 where "INTRID_FIFO_ENABLED = 0x80"
definition MODEMCTRL_OUT2 :: u8 where "MODEMCTRL_OUT2 = 0x08"
definition LINESTAT_DATARDY :: u8 where "LINESTAT_DATARDY = 0x01"
definition LINESTAT_THR_EMPTY :: u8 where "LINESTAT_THR_EMPTY = 0x20"
definition SERIAL_BASE_FREQ :: u32 where "SERIAL_BASE_FREQ = 115200"
definition SERIAL_DEFAULT_BAUD :: u32 where "SERIAL_DEFAULT_BAUD = 9600"
definition IRQ4_SERIAL1 :: u8 where "IRQ4_SERIAL1 = 36"

section \<open>Line setup\<close>

definition serial_set_rate :: "u32 \<Rightarrow> 'z mach_scheme \<Rightarrow> 'z mach_scheme option" where
  "serial_set_rate baud s =
     (if baud = 0 then None
      else
        let divisor = ucast (SERIAL_BASE_FREQ div baud) :: u16;
            s = outb LINECTRL_DLAB (SERIAL_LINECTRL COM1_IO_BASE) s;
            s = outb (LOW_BYTE divisor) (SERIAL_DLLSB COM1_IO_BASE) s;
            s = outb (HIGH_BYTE divisor) (SERIAL_DLMSB COM1_IO_BASE) s
        in Some (outb 0x00 (SERIAL_LINECTRL COM1_IO_BASE) s))"

definition serial_set_params :: "u8 \<Rightarrow> u8 \<Rightarrow> u8 \<Rightarrow> 'z mach_scheme \<Rightarrow> 'z mach_scheme" where
  "serial_set_params data_bits parity_type stop_bits =
     outb (data_bits OR parity_type OR stop_bits) (SERIAL_LINECTRL COM1_IO_BASE)"

definition serial_disable_intrs :: "'z mach_scheme \<Rightarrow> 'z mach_scheme" where
  "serial_disable_intrs = outb 0x00 (SERIAL_IER COM1_IO_BASE)"

definition serial_enable_intrs :: "u8 \<Rightarrow> 'z mach_scheme \<Rightarrow> 'z mach_scheme" where
  "serial_enable_intrs intrs = outb intrs (SERIAL_IER COM1_IO_BASE)"

definition serial_enable_fifo :: "u8 \<Rightarrow> 'z mach_scheme \<Rightarrow> 'z mach_scheme" where
  "serial_enable_fifo trigger_level =
     outb (INTRID_FIFO_ENABLED OR trigger_level) (SERIAL_FIFOCTRL COM1_IO_BASE)"

definition serial_disable_fifo :: "'z mach_scheme \<Rightarrow> 'z mach_scheme" where
  "serial_disable_fifo = outb INTRID_FIFO_UNUSABLE (SERIAL_FIFOCTRL COM1_IO_BASE)"

definition serial_set_modemctrl :: "u8 \<Rightarrow> 'z mach_scheme \<Rightarrow> 'z mach_scheme" where
  "serial_set_modemctrl ctrl_bits = outb ctrl_bits (SERIAL_MODEMCTRL COM1_IO_BASE)"

definition serial_init :: "bool \<Rightarrow> 'z mach_scheme \<Rightarrow> 'z mach_scheme option" where
  "serial_init intr_mode s = do {
     let s = s\<lparr>serial_mode_intr := intr_mode\<rparr>;
     let s = serial_disable_intrs s;
     let s = serial_disable_fifo s;
     s \<leftarrow> serial_set_rate SERIAL_DEFAULT_BAUD s;
     let s = serial_set_params LINECTRL_DATABIT_8 LINECTRL_PARITY_NONE LINECTRL_STOPBIT_1 s;
     let s = serial_set_modemctrl MODEMCTRL_OUT2 s;
     Some (if intr_mode
           then register_interrupt_handler IRQ4_SERIAL1 SerialIntrHandler
                  (serial_enable_intrs INTREN_XMIT_EMPTY s)
           else s)
   }"

section \<open>Polled input and output\<close>

definition serial_thr_empty :: "hw \<Rightarrow> 'z mach_scheme \<Rightarrow> bool \<times> 'z mach_scheme" where
  "serial_thr_empty h s =
     (let (v, s) = inb h (SERIAL_LINESTAT COM1_IO_BASE) s in (v AND LINESTAT_THR_EMPTY \<noteq> 0, s))"

definition serial_byte_avail :: "hw \<Rightarrow> 'z mach_scheme \<Rightarrow> bool \<times> 'z mach_scheme" where
  "serial_byte_avail h s =
     (let (v, s) = inb h (SERIAL_LINESTAT COM1_IO_BASE) s in (v AND LINESTAT_DATARDY \<noteq> 0, s))"

text \<open>\<open>while (!ready ()) ;\<close>\<close>

partial_function (option) serial_wait ::
  "('z mach_scheme \<Rightarrow> bool \<times> 'z mach_scheme) \<Rightarrow> 'z mach_scheme \<Rightarrow> 'z mach_scheme option" where
  "serial_wait ready s = (let (r, s) = ready s in if \<not> r then serial_wait ready s else Some s)"

definition serial_putc :: "hw \<Rightarrow> u8 \<Rightarrow> 'z mach_scheme \<Rightarrow> 'z mach_scheme option" where
  "serial_putc h c s = do {
     s \<leftarrow> serial_wait (serial_thr_empty h) s;
     Some (outb c (SERIAL_XMITBUF COM1_IO_BASE) s)
   }"

partial_function (option) serial_puts ::
  "hw \<Rightarrow> ptr \<Rightarrow> 'z mach_scheme \<Rightarrow> 'z mach_scheme option" where
  "serial_puts h str s = do {
     c \<leftarrow> kmem s str;
     if c = 0 then Some s
     else do {
       s \<leftarrow> (if c = 10 then serial_putc h 13 s else Some s);
       s \<leftarrow> serial_putc h c s;
       serial_puts h (str + 1) s
     }
   }"

definition serial_getc :: "hw \<Rightarrow> 'z mach_scheme \<Rightarrow> (u8 \<times> 'z mach_scheme) option" where
  "serial_getc h s = do {
     s \<leftarrow> serial_wait (serial_byte_avail h) s;
     Some (inb h (SERIAL_RCVBUF COM1_IO_BASE) s)
   }"

section \<open>The UART's registers\<close>

record uart =
  divisor_latch :: u16
  line_ctrl :: u8
  intr_enable :: u8
  fifo_ctrl :: u8
  modem_ctrl :: u8
  sent :: "u8 list"

fun uart_write :: "u16 \<times> u8 \<Rightarrow> uart \<Rightarrow> uart" where
  "uart_write (p, v) u =
     (if p = 0x3F8 then
        if bit (line_ctrl u) 7
        then u\<lparr>divisor_latch := le16 v (HIGH_BYTE (divisor_latch u))\<rparr>
        else u\<lparr>sent := sent u @ [v]\<rparr>
      else if p = 0x3F9 then
        if bit (line_ctrl u) 7
        then u\<lparr>divisor_latch := le16 (LOW_BYTE (divisor_latch u)) v\<rparr>
        else u\<lparr>intr_enable := v\<rparr>
      else if p = 0x3FA then u\<lparr>fifo_ctrl := v\<rparr>
      else if p = 0x3FB then u\<lparr>line_ctrl := v\<rparr>
      else if p = 0x3FC then u\<lparr>modem_ctrl := v\<rparr>
      else u)"

lemmas serial_regs = COM1_IO_BASE_def SERIAL_RCVBUF_def SERIAL_XMITBUF_def SERIAL_IER_def
  SERIAL_DLLSB_def SERIAL_DLMSB_def SERIAL_FIFOCTRL_def SERIAL_LINECTRL_def SERIAL_MODEMCTRL_def
  SERIAL_LINESTAT_def LINECTRL_DLAB_def LINECTRL_PARITY_NONE_def LINECTRL_STOPBIT_1_def
  LINECTRL_DATABIT_8_def INTREN_XMIT_EMPTY_def INTRID_FIFO_UNUSABLE_def MODEMCTRL_OUT2_def
  SERIAL_BASE_FREQ_def SERIAL_DEFAULT_BAUD_def LINESTAT_THR_EMPTY_def LINESTAT_DATARDY_def

lemmas serial_ops = serial_set_rate_def serial_set_params_def serial_disable_intrs_def
  serial_enable_intrs_def serial_disable_fifo_def serial_set_modemctrl_def

text \<open>On a port whose divisor latch is closed, \<open>serial_init\<close> programs 9600 baud (divisor 12),
  8 data bits, no parity, one stop bit, the latch closed again so that what is written next is
  transmitted, no FIFO, the interrupt line gated on, and the transmitter interrupt enabled and
  its handler installed exactly in interrupt mode.\<close>

lemma serial_init_programs:
  assumes "\<not> bit (line_ctrl u) 7"
  shows "\<exists>s' ws. serial_init m s = Some s' \<and> outs s' = outs s @ ws \<and>
    fold uart_write ws u =
      u\<lparr>divisor_latch := 12, line_ctrl := 0x03, intr_enable := (if m then 0x02 else 0),
        fifo_ctrl := 0x40, modem_ctrl := 0x08\<rparr> \<and>
    irq_table s' = (if m then (irq_table s)(36 \<mapsto> SerialIntrHandler) else irq_table s)"
proof -
  have "LOW_BYTE 12 = 12" "HIGH_BYTE 12 = 0" "le16 12 0 = 12"
    by (simp_all add: LOW_BYTE_def HIGH_BYTE_def le16_def)
  then show ?thesis using assms
    by (cases u; cases m)
      (simp_all add: serial_init_def serial_ops serial_regs io_simps Let_def bit_iff_odd
        register_interrupt_handler_def IRQ4_SERIAL1_def)
qed

definition uart_reset :: uart where
  "uart_reset = \<lparr>divisor_latch = 0, line_ctrl = 0, intr_enable = 0, fifo_ctrl = 0, modem_ctrl = 0,
     sent = []\<rparr>"

lemma serial_init_programs_witness:
  "\<exists>s' ws. serial_init True (boot_mach 0) = Some s' \<and> outs s' = ws \<and>
    divisor_latch (fold uart_write ws uart_reset) = 12"
  using serial_init_programs [of uart_reset True "boot_mach 0"]
  by (auto simp: uart_reset_def boot_mach_def)

section \<open>Sending a string\<close>

text \<open>
  What the polled output relies on: the transmitter becomes empty after finitely many further
  accesses, whatever they are.
\<close>

definition drained :: "hw \<Rightarrow> io_log \<Rightarrow> nat \<Rightarrow> bool" where
  "drained h l k \<longleftrightarrow>
     (\<forall>l'. length l' = k \<longrightarrow> hw_in h (l' @ l) 0x3FD AND LINESTAT_THR_EMPTY \<noteq> 0)"

definition uart_drains :: "hw \<Rightarrow> bool" where
  "uart_drains h \<longleftrightarrow> (\<forall>l. \<exists>k. drained h l k)"

text \<open>What a terminal expects of a text: a carriage return before every line feed.\<close>

fun crlf :: "u8 list \<Rightarrow> u8 list" where
  "crlf [] = []"
| "crlf (c # cs) = (if c = 10 then [13, 10] else [c]) @ crlf cs"

lemma drained_0: "drained h l 0 \<Longrightarrow> hw_in h l 0x3FD AND LINESTAT_THR_EMPTY \<noteq> 0"
  by (simp add: drained_def)

lemma drained_Suc: "drained h l (Suc k) \<Longrightarrow> drained h (e # l) k"
proof -
  assume *: "drained h l (Suc k)"
  have "hw_in h ((l' @ [e]) @ l) 0x3FD AND LINESTAT_THR_EMPTY \<noteq> 0" if "length l' = k" for l'
    using * that unfolding drained_def by (metis length_append_singleton)
  then show ?thesis by (simp add: drained_def)
qed

lemma serial_thr_empty_eq:
  "serial_thr_empty h s =
     (hw_in h (io s) 0x3FD AND LINESTAT_THR_EMPTY \<noteq> 0, snd (inb h 0x3FD s))"
  by (simp add: serial_thr_empty_def COM1_IO_BASE_def SERIAL_LINESTAT_def case_prod_unfold io_simps)

lemma serial_wait_drained:
  "drained h (io s) k \<Longrightarrow> \<exists>l. serial_wait (serial_thr_empty h) s = Some (s\<lparr>io := l\<rparr>) \<and> outs_of l = outs s"
proof (induction k arbitrary: s)
  case 0
  from drained_0 [OF this] show ?case
    by (subst serial_wait.simps) (auto simp: serial_thr_empty_eq [of h s] inb_def Let_def)
next
  case (Suc k)
  from Suc.prems have "drained h (io (snd (inb h 0x3FD s))) k" by (simp add: io_simps drained_Suc)
  from Suc.IH [OF this] show ?case
    by (subst serial_wait.simps) (auto simp: serial_thr_empty_eq [of h s] inb_def Let_def)
qed

lemma serial_putc_drained:
  assumes "uart_drains h"
  shows "\<exists>l. serial_putc h c s = Some (s\<lparr>io := l\<rparr>) \<and> outs_of l = outs s @ [(0x3F8, c)]"
proof -
  obtain k where "drained h (io s) k" using assms by (auto simp: uart_drains_def)
  from serial_wait_drained [OF this] show ?thesis
    by (auto simp: serial_putc_def outb_def serial_regs)
qed

text \<open>Only the log of port accesses changes.\<close>

lemma serial_puts_crlf:
  assumes "uart_drains h"
  shows "cstr (kmem s) p str \<Longrightarrow>
    \<exists>l. serial_puts h p s = Some (s\<lparr>io := l\<rparr>) \<and> outs_of l = outs s @ map (Pair 0x3F8) (crlf str)"
proof (induction str arbitrary: p s)
  case Nil
  then show ?case by (subst serial_puts.simps) (auto intro: exI [of _ "io s"])
next
  case (Cons c cs)
  then have c: "kmem s p = Some c" "c \<noteq> 0" and cs: "cstr (kmem s) (p + 1) cs" by auto
  have "\<exists>l. (if c = 10 then serial_putc h 13 s else Some s) = Some (s\<lparr>io := l\<rparr>) \<and>
      outs_of l = outs s @ (if c = 10 then [(0x3F8, 13)] else [])"
    using serial_putc_drained [OF assms, of 13 s] by (auto intro: exI [of _ "io s"])
  then obtain l1 where l1: "(if c = 10 then serial_putc h 13 s else Some s) = Some (s\<lparr>io := l1\<rparr>)"
    "outs_of l1 = outs s @ (if c = 10 then [(0x3F8, 13)] else [])" by blast
  obtain l2 where l2: "serial_putc h c (s\<lparr>io := l1\<rparr>) = Some (s\<lparr>io := l2\<rparr>)" "outs_of l2 = outs_of l1 @ [(0x3F8, c)]"
    using serial_putc_drained [OF assms, of c "s\<lparr>io := l1\<rparr>"] by auto
  obtain l3 where "serial_puts h (p + 1) (s\<lparr>io := l2\<rparr>) = Some (s\<lparr>io := l3\<rparr>)"
    "outs_of l3 = outs_of l2 @ map (Pair 0x3F8) (crlf cs)"
    using Cons.IH [of "s\<lparr>io := l2\<rparr>" "p + 1"] cs by auto
  then show ?case using c l1 l2 by (subst serial_puts.simps) auto
qed

text \<open>On a port that drains, \<open>serial_puts\<close> of a terminated string returns and writes to the
  transmit register exactly the characters of the string, in order, with a carriage return before
  each line feed.\<close>

lemma serial_puts_sends:
  assumes "cstr (kmem s) p str" and "uart_drains h"
  shows "\<exists>s'. serial_puts h p s = Some s' \<and> outs s' = outs s @ map (Pair 0x3F8) (crlf str) \<and>
    kmem s' = kmem s"
  using serial_puts_crlf [OF assms(2,1)] by auto

lemma serial_puts_sends_witness:
  "\<exists>s'. serial_puts \<lparr>hw_in = \<lambda>_ _. 0x60, hw_irqs = \<lambda>_. [], hw_dma = \<lambda>_. (0, [])\<rparr> 0
     ((boot_mach 0)\<lparr>kmem := [0 \<mapsto> 104, 1 \<mapsto> 10, 2 \<mapsto> 0]\<rparr>) = Some s' \<and>
   outs s' = [(0x3F8, 104), (0x3F8, 13), (0x3F8, 10)]"
  using serial_puts_sends [of "(boot_mach 0)\<lparr>kmem := [0 \<mapsto> 104, 1 \<mapsto> 10, 2 \<mapsto> 0]\<rparr>" 0 "[104, 10]"
      "\<lparr>hw_in = \<lambda>_ _. 0x60, hw_irqs = \<lambda>_. [], hw_dma = \<lambda>_. (0, [])\<rparr>"]
  by (auto simp: uart_drains_def drained_def LINESTAT_THR_EMPTY_def boot_mach_def)

end
