(* ===== verification/Descriptors.thy ===== *)
theory Descriptors
  imports Prelude
begin

text \<open>
  The segment descriptors and the task state segment, \<open>init/gdt.c\<close>, \<open>include/init/gdt.h\<close> and
  \<open>proc/tss.c\<close>. The static tables are a state record; the addresses the linker gives them are
  parameters. \<open>load_gdt\<close> is assembly and \<open>tss_flush\<close> one instruction: what they load is kept in
  two fields for the processor's registers. A decoder of descriptors, as the processor reads them,
  states what an entry means.
\<close>

unbundle bit_operations_syntax

record gdt_entry_t =
  limit_low :: u16
  base_low :: u16
  base_middle :: u8
  access :: u8
  granularity :: u8
  base_high :: u8

record gdt_ptr_t =
  gp_limit :: u16
  gp_base :: u32

record tss_t =
  prev_tss :: u32
  t_esp0 :: u32  t_ss0 :: u32
  t_esp1 :: u32  t_ss1 :: u32
  t_esp2 :: u32  t_ss2 :: u32
  t_cr3 :: u32  t_eip :: u32  t_eflags :: u32
  t_eax :: u32  t_ecx :: u32  t_edx :: u32  t_ebx :: u32
  t_esp :: u32  t_ebp :: u32  t_esi :: u32  t_edi :: u32
  t_es :: u32  t_cs :: u32  t_ss :: u32  t_ds :: u32  t_fs :: u32  t_gs :: u32
  t_ldt :: u32
  t_trap :: u16
  t_iomap_base :: u16

definition tss_zero :: tss_t where
  "tss_zero = \<lparr>prev_tss = 0, t_esp0 = 0, t_ss0 = 0, t_esp1 = 0, t_ss1 = 0, t_esp2 = 0, t_ss2 = 0,
     t_cr3 = 0, t_eip = 0, t_eflags = 0, t_eax = 0, t_ecx = 0, t_edx = 0, t_ebx = 0, t_esp = 0,
     t_ebp = 0, t_esi = 0, t_edi = 0, t_es = 0, t_cs = 0, t_ss = 0, t_ds = 0, t_fs = 0, t_gs = 0,
     t_ldt = 0, t_trap = 0, t_iomap_base = 0\<rparr>"

record gdt_state =
  gdt :: "gdt_entry_t list"
  gdt_ptr :: gdt_ptr_t
  current_tss :: tss_t
  gdtr :: u32
  task_reg :: u16

definition SIZEOF_GDT_ENTRY :: u32 where "SIZEOF_GDT_ENTRY = 8"
definition SIZEOF_TSS :: u32 where "SIZEOF_TSS = 104"
definition GDT_ENTRIES :: u32 where "GDT_ENTRIES = 6"
definition GDT_SEG_OFFSET :: "u32 \<Rightarrow> u32" where "GDT_SEG_OFFSET entry = entry * SIZEOF_GDT_ENTRY"

definition GDT_ACCESS_PRESENT :: u8 where "GDT_ACCESS_PRESENT = 0x80"
definition GDT_ACCESS_RING0 :: u8 where "GDT_ACCESS_RING0 = 0x00"
definition GDT_ACCESS_RING3 :: u8 where "GDT_ACCESS_RING3 = 0x60"
definition GDT_ACCESS_TYPE :: u8 where "GDT_ACCESS_TYPE = 0x10"
definition GDT_ACCESS_CODE :: u8 where "GDT_ACCESS_CODE = 0x08"
definition GDT_ACCESS_DATA :: u8 where "GDT_ACCESS_DATA = 0x00"
definition GDT_ACCESS_READABLE :: u8 where "GDT_ACCESS_READABLE = 0x02"
definition GDT_ACCESS_READWRITE :: u8 where "GDT_ACCESS_READWRITE = 0x02"
definition GDT_ACCESS_TSS32 :: u8 where "GDT_ACCESS_TSS32 = 0x09"

definition GDT_ACCESS_USER_CODE :: u8 where
  "GDT_ACCESS_USER_CODE = GDT_ACCESS_PRESENT OR GDT_ACCESS_RING3 OR GDT_ACCESS_TYPE OR
     GDT_ACCESS_CODE OR GDT_ACCESS_READABLE"
definition GDT_ACCESS_USER_DATA :: u8 where
  "GDT_ACCESS_USER_DATA = GDT_ACCESS_PRESENT OR GDT_ACCESS_RING3 OR GDT_ACCESS_TYPE OR
     GDT_ACCESS_DATA OR GDT_ACCESS_READWRITE"
definition GDT_ACCESS_KERNEL_CODE :: u8 where
  "GDT_ACCESS_KERNEL_CODE = GDT_ACCESS_PRESENT OR GDT_ACCESS_RING0 OR GDT_ACCESS_TYPE OR
     GDT_ACCESS_CODE OR GDT_ACCESS_READABLE"
definition GDT_ACCESS_KERNEL_DATA :: u8 where
  "GDT_ACCESS_KERNEL_DATA = GDT_ACCESS_PRESENT OR GDT_ACCESS_RING0 OR GDT_ACCESS_TYPE OR
     GDT_ACCESS_DATA OR GDT_ACCESS_READWRITE"

definition GDT_GRANULARITY :: u8 where "GDT_GRANULARITY = 0xCF"
definition TSS_GRANULARITY :: u8 where "TSS_GRANULARITY = 0x00"

definition create_gdt_entry :: "u32 \<Rightarrow> u32 \<Rightarrow> u8 \<Rightarrow> u8 \<Rightarrow> gdt_entry_t" where
  "create_gdt_entry base limit acc gran =
     \<lparr>limit_low = ucast (limit AND 0xFFFF),
      base_low = ucast (base AND 0xFFFF),
      base_middle = ucast (drop_bit 16 base AND 0xFF),
      access = acc,
      granularity = ucast (drop_bit 16 limit AND 0x0F) OR (gran AND 0xF0),
      base_high = ucast (drop_bit 24 base AND 0xFF)\<rparr>"

section \<open>Loading the tables\<close>

definition tss_flush :: "u16 \<Rightarrow> gdt_state \<Rightarrow> gdt_state" where
  "tss_flush selector s = s\<lparr>task_reg := selector\<rparr>"

definition tss_update_esp0 :: "u32 \<Rightarrow> gdt_state \<Rightarrow> gdt_state" where
  "tss_update_esp0 esp0 s = s\<lparr>current_tss := (current_tss s)\<lparr>t_esp0 := esp0\<rparr>\<rparr>"

definition gdt_init_flat_protected :: "u32 \<Rightarrow> u32 \<Rightarrow> u32 \<Rightarrow> gdt_state \<Rightarrow> gdt_state" where
  "gdt_init_flat_protected gdt_addr gdt_ptr_addr tss_addr s =
     (let s = s\<lparr>gdt_ptr := \<lparr>gp_limit = ucast (SIZEOF_GDT_ENTRY * GDT_ENTRIES - 1),
                            gp_base = gdt_addr\<rparr>\<rparr>;
          s = s\<lparr>gdt := (gdt s)[0 := create_gdt_entry 0 0 0 0]\<rparr>;
          s = s\<lparr>gdt := (gdt s)[1 := create_gdt_entry 0 0xFFFFFFFF GDT_ACCESS_KERNEL_CODE
                                     GDT_GRANULARITY]\<rparr>;
          s = s\<lparr>gdt := (gdt s)[2 := create_gdt_entry 0 0xFFFFFFFF GDT_ACCESS_KERNEL_DATA
                                     GDT_GRANULARITY]\<rparr>;
          s = s\<lparr>gdt := (gdt s)[3 := create_gdt_entry 0 0xFFFFFFFF GDT_ACCESS_USER_CODE
                                     GDT_GRANULARITY]\<rparr>;
          s = s\<lparr>gdt := (gdt s)[4 := create_gdt_entry 0 0xFFFFFFFF GDT_ACCESS_USER_DATA
                                     GDT_GRANULARITY]\<rparr>;
          t = tss_zero\<lparr>t_ss0 := GDT_SEG_OFFSET 2, t_esp0 := 0\<rparr>;
          t = t\<lparr>t_cs := GDT_SEG_OFFSET 1 OR 0x3\<rparr>;
          t = t\<lparr>t_ds := GDT_SEG_OFFSET 2 OR 0x3, t_ss := GDT_SEG_OFFSET 2 OR 0x3\<rparr>;
          t = t\<lparr>t_gs := GDT_SEG_OFFSET 2 OR 0x3, t_fs := GDT_SEG_OFFSET 2 OR 0x3,
                t_es := GDT_SEG_OFFSET 2 OR 0x3\<rparr>;
          s = s\<lparr>current_tss := t\<rparr>;
          s = s\<lparr>gdt := (gdt s)[5 := create_gdt_entry tss_addr (SIZEOF_TSS - 1)
                  (GDT_ACCESS_PRESENT OR GDT_ACCESS_RING3 OR GDT_ACCESS_TSS32) TSS_GRANULARITY]\<rparr>;
          s = s\<lparr>gdtr := gdt_ptr_addr\<rparr>
      in tss_flush (ucast (GDT_SEG_OFFSET 5 OR 0x3)) s)"

definition get_gdt_ptr :: "u32 \<Rightarrow> u32" where
  "get_gdt_ptr gdt_ptr_addr = gdt_ptr_addr"

section \<open>Descriptors as the processor reads them\<close>

definition seg_base :: "gdt_entry_t \<Rightarrow> u32" where
  "seg_base e = ucast (base_low e) OR push_bit 16 (ucast (base_middle e))
     OR push_bit 24 (ucast (base_high e))"

definition seg_limit20 :: "gdt_entry_t \<Rightarrow> u32" where
  "seg_limit20 e = ucast (limit_low e) OR push_bit 16 (ucast (granularity e AND 0x0F))"

text \<open>The last offset in the segment: the limit counts pages when the granularity bit is set.\<close>

definition seg_last :: "gdt_entry_t \<Rightarrow> u32" where
  "seg_last e =
     (if bit (granularity e) 7 then push_bit 12 (seg_limit20 e) OR 0xFFF else seg_limit20 e)"

definition seg_dpl :: "gdt_entry_t \<Rightarrow> u8" where
  "seg_dpl e = drop_bit 5 (access e) AND 3"

definition seg_present :: "gdt_entry_t \<Rightarrow> bool" where "seg_present e \<longleftrightarrow> bit (access e) 7"
definition seg_is_code :: "gdt_entry_t \<Rightarrow> bool" where
  "seg_is_code e \<longleftrightarrow> bit (access e) 4 \<and> bit (access e) 3"
definition seg_is_writable_data :: "gdt_entry_t \<Rightarrow> bool" where
  "seg_is_writable_data e \<longleftrightarrow> bit (access e) 4 \<and> \<not> bit (access e) 3 \<and> bit (access e) 1"
definition seg_is_free_tss32 :: "gdt_entry_t \<Rightarrow> bool" where
  "seg_is_free_tss32 e \<longleftrightarrow> access e AND 0x1F = 0x09"

text \<open>The entry a selector names.\<close>

definition selected :: "gdt_state \<Rightarrow> u32 \<Rightarrow> gdt_entry_t" where
  "selected s sel = gdt s ! (unat (drop_bit 3 sel))"

lemma nibble_masks: "(0xFFFF :: u32) = mask 16" "(0x0F :: u32) = mask 4" "(0x0F :: u8) = mask 4"
  "(0xF0 :: u8) = NOT (mask 4)" "(0xFF :: u32) = mask 8"
  by (simp_all add: mask_eq_exp_minus_1)

lemma seg_base_create: "seg_base (create_gdt_entry b l a g) = b"
  unfolding seg_base_def create_gdt_entry_def gdt_entry_t.simps nibble_masks
  apply (rule bit_word_eqI)
  subgoal for n by (cases "n < 16"; cases "n < 24") (auto simp: bit_simps)
  done

lemma seg_limit20_create: "seg_limit20 (create_gdt_entry b l a g) = take_bit 20 l"
  unfolding seg_limit20_def create_gdt_entry_def gdt_entry_t.simps nibble_masks
  apply (rule bit_word_eqI)
  subgoal for n by (cases "n < 16"; cases "n < 20") (auto simp: bit_simps)
  done

lemma granularity_create: "granularity (create_gdt_entry b l a g) AND 0xF0 = g AND 0xF0"
  unfolding create_gdt_entry_def gdt_entry_t.simps nibble_masks
  by (rule bit_word_eqI) (auto simp: bit_simps)

text \<open>A descriptor built from a base, a limit, an access byte and granularity flags reads back
  as the whole base, the low twenty bits of the limit, the access byte and the high nibble of the
  flags: the scattered fields are put together without loss or overlap.\<close>

lemma gdt_entry_roundtrip:
  "seg_base (create_gdt_entry b l a g) = b \<and>
   seg_limit20 (create_gdt_entry b l a g) = take_bit 20 l \<and>
   access (create_gdt_entry b l a g) = a \<and>
   granularity (create_gdt_entry b l a g) AND 0xF0 = g AND 0xF0"
  by (simp add: seg_base_create seg_limit20_create granularity_create)
    (simp add: create_gdt_entry_def)

lemmas gdt_consts = GDT_ACCESS_PRESENT_def GDT_ACCESS_RING0_def GDT_ACCESS_RING3_def
  GDT_ACCESS_TYPE_def GDT_ACCESS_CODE_def GDT_ACCESS_DATA_def GDT_ACCESS_READABLE_def
  GDT_ACCESS_READWRITE_def GDT_ACCESS_TSS32_def GDT_ACCESS_USER_CODE_def GDT_ACCESS_USER_DATA_def
  GDT_ACCESS_KERNEL_CODE_def GDT_ACCESS_KERNEL_DATA_def GDT_GRANULARITY_def TSS_GRANULARITY_def
  SIZEOF_GDT_ENTRY_def SIZEOF_TSS_def GDT_ENTRIES_def GDT_SEG_OFFSET_def

lemma flat_segment:
  "seg_base (create_gdt_entry 0 0xFFFFFFFF a GDT_GRANULARITY) = 0"
  "seg_last (create_gdt_entry 0 0xFFFFFFFF a GDT_GRANULARITY) = 0xFFFFFFFF"
  by (simp_all add: seg_base_def seg_last_def seg_limit20_def create_gdt_entry_def
      GDT_GRANULARITY_def bit_iff_odd)


definition gdt_boot :: gdt_state where
  "gdt_boot = \<lparr>gdt = replicate 6 (create_gdt_entry 0 0 0 0),
     gdt_ptr = \<lparr>gp_limit = 0, gp_base = 0\<rparr>, current_tss = tss_zero, gdtr = 0, task_reg = 0\<rparr>"


end
