(* ===== verification/Block.thy ===== *)
theory Block
  imports KString PortIO
begin

text \<open>
  The block device layer, \<open>driver/block.c\<close>: the table of registered devices, registration, lookup by
  name, and the range-checked read that dispatches to the driver. Device structures live in a heap
  of records; the table is the array behind the static pointer, \<open>None\<close> while the pointer is
  \<open>NULL\<close>. Function pointers are code addresses, and calling one is a parameter that the drivers
  instantiate. \<open>int32_t\<close> results are 32-bit words, \<open>-1\<close> the error.
\<close>

unbundle bit_operations_syntax

type_synonym fnptr = u32

record block_device_ops_t =
  op_read :: fnptr
  op_write :: fnptr

record block_device_t =
  bd_name :: ptr
  bd_block_size :: u32
  bd_num_blocks :: u32
  bd_driver_private :: ptr
  bd_ops :: ptr

definition SIZEOF_BLOCK_DEVICE :: u32 where "SIZEOF_BLOCK_DEVICE = 20"

record blk = mach +
  block_devices :: "ptr list option"
  num_block_devices :: u32
  max_block_devices :: u32
  bdev_heap :: "ptr \<Rightarrow> block_device_t option"
  bops_heap :: "ptr \<Rightarrow> block_device_ops_t option"

text \<open>The code of a driver's operation, called through its address.\<close>

type_synonym 'z blk_reader =
  "fnptr \<Rightarrow> ptr \<Rightarrow> u32 \<Rightarrow> ptr \<Rightarrow> 'z blk_scheme \<Rightarrow> (u32 \<times> 'z blk_scheme) option"

section \<open>The code\<close>

text \<open>The loop that compares the names of the registered devices; \<open>NULL\<close> when none is equal.\<close>

function blk_scan ::
  "mem \<Rightarrow> (ptr \<Rightarrow> block_device_t option) \<Rightarrow> ptr list \<Rightarrow> u32 \<Rightarrow> ptr \<Rightarrow> u32 \<Rightarrow> ptr option" where
  "blk_scan m heap devs num name i =
     (if i < num then
        if unat i < length devs then
          let dev = devs ! unat i in
          if dev = NULL then blk_scan m heap devs num name (i + 1)
          else do {
            d \<leftarrow> heap dev;
            r \<leftarrow> strcmp m (bd_name d) name;
            if r = 0 then Some dev else blk_scan m heap devs num name (i + 1)
          }
        else None
      else Some NULL)"
  by pat_completeness auto
termination
  by (relation "measure (\<lambda>(m, heap, devs, num, name, i). unat num - unat i)")
    (auto intro: word_loop_dec)

declare blk_scan.simps [simp del]

definition blkdev_init_table :: "allocator \<Rightarrow> 'z blk_scheme \<Rightarrow> bool \<times> 'z blk_scheme" where
  "blkdev_init_table alloc s =
     (case block_devices s of
        Some _ \<Rightarrow> (True, s)
      | None \<Rightarrow>
          let s = s\<lparr>num_block_devices := 0, max_block_devices := 16\<rparr>;
              (p, s) = malloc alloc (4 * max_block_devices s) s
          in if p = NULL then (False, s)
             else (True, s\<lparr>block_devices := Some (replicate (unat (max_block_devices s)) NULL)\<rparr>))"

definition blkdev_register ::
  "allocator \<Rightarrow> ptr \<Rightarrow> u32 \<Rightarrow> u32 \<Rightarrow> ptr \<Rightarrow> ptr \<Rightarrow> 'z blk_scheme \<Rightarrow> (u32 \<times> 'z blk_scheme) option" where
  "blkdev_register alloc name block_size num_blocks ops driver_private s =
     (let (ok, s) = blkdev_init_table alloc s in
      if \<not> ok then Some (-1, s)
      else if num_block_devices s \<ge> max_block_devices s then Some (-1, s)
      else
        let (dev, s) = malloc alloc SIZEOF_BLOCK_DEVICE s in
        if dev = NULL then Some (-1, s)
        else do {
          devs \<leftarrow> block_devices s;
          found \<leftarrow> blk_scan (kmem s) (bdev_heap s) devs (num_block_devices s) name 0;
          if found \<noteq> NULL then Some (-1, s)
          else do {
            let s = s\<lparr>bdev_heap := (bdev_heap s)(dev \<mapsto>
                   \<lparr>bd_name = name, bd_block_size = block_size, bd_num_blocks = num_blocks,
                    bd_driver_private = driver_private, bd_ops = ops\<rparr>)\<rparr>;
            let i = num_block_devices s;
            if unat i < length devs
            then Some (0, s\<lparr>block_devices := Some (devs[unat i := dev]),
                            num_block_devices := i + 1\<rparr>)
            else None
          }
        })"

definition blkdev_get_by_name :: "ptr \<Rightarrow> 'z blk_scheme \<Rightarrow> ptr option" where
  "blkdev_get_by_name name s =
     (if name = NULL then Some NULL
      else blk_scan (kmem s) (bdev_heap s) (case block_devices s of None \<Rightarrow> [] | Some ds \<Rightarrow> ds)
             (num_block_devices s) name 0)"

definition blkread ::
  "'z blk_reader \<Rightarrow> ptr \<Rightarrow> u32 \<Rightarrow> ptr \<Rightarrow> 'z blk_scheme \<Rightarrow> (u32 \<times> 'z blk_scheme) option" where
  "blkread call dev lba buffer s =
     (if dev = NULL then Some (-1, s)
      else do {
        d \<leftarrow> bdev_heap s dev;
        if bd_ops d = NULL then Some (-1, s)
        else do {
          ops \<leftarrow> bops_heap s (bd_ops d);
          if op_read ops = 0 then Some (-1, s)
          else if lba \<ge> bd_num_blocks d then Some (-1, s)
          else call (op_read ops) (bd_driver_private d) lba buffer s
        }
      })"

section \<open>The table as a list of names and devices\<close>

definition devs_of :: "'z blk_scheme \<Rightarrow> ptr list" where
  "devs_of s = (case block_devices s of None \<Rightarrow> [] | Some ds \<Rightarrow> take (unat (num_block_devices s)) ds)"

definition dev_named :: "'z blk_scheme \<Rightarrow> ptr \<Rightarrow> u8 list \<times> block_device_t \<Rightarrow> bool" where
  "dev_named s p e \<longleftrightarrow>
     p \<noteq> NULL \<and> live (hlog s) p \<noteq> None \<and> bdev_heap s p = Some (snd e)
     \<and> cstr (kmem s) (bd_name (snd e)) (fst e)"

definition table_shape :: "'z blk_scheme \<Rightarrow> bool" where
  "table_shape s \<longleftrightarrow>
     (case block_devices s of
        None \<Rightarrow> num_block_devices s = 0
      | Some ds \<Rightarrow> length ds = 16 \<and> max_block_devices s = 16 \<and> num_block_devices s \<le> 16)"

definition blk_rel :: "'z blk_scheme \<Rightarrow> (u8 list \<times> block_device_t) list \<Rightarrow> bool" where
  "blk_rel s al \<longleftrightarrow>
     table_shape s \<and> list_all2 (dev_named s) (devs_of s) al \<and> distinct (map fst al)
     \<and> distinct (devs_of s)"

text \<open>The device the scan stops at.\<close>

definition ptr_of_name :: "ptr list \<Rightarrow> (u8 list \<times> block_device_t) list \<Rightarrow> u8 list \<Rightarrow> ptr" where
  "ptr_of_name ps al nm =
     (case find (\<lambda>e. fst (snd e) = nm) (zip ps al) of None \<Rightarrow> NULL | Some (p, _) \<Rightarrow> p)"

lemma blk_scan_spec:
  assumes rel: "list_all2 (dev_named s) (take n ds) al" and num: "unat num = n" "n \<le> length ds"
    and nm: "cstr (kmem s) name nm"
  shows "i \<le> num \<Longrightarrow> blk_scan (kmem s) (bdev_heap s) ds num name i =
    Some (ptr_of_name (drop (unat i) (take n ds)) (drop (unat i) al) nm)"
proof (induction "unat num - unat i" arbitrary: i)
  case 0
  then have "i = num" by (simp add: word_le_nat_alt word_unat_eq_iff)
  moreover have "length al = n" using rel num by (simp add: list_all2_iff)
  ultimately show ?case using num by (subst blk_scan.simps) (simp add: ptr_of_name_def)
next
  case (Suc k)
  have len: "length al = n" using rel num by (simp add: list_all2_iff)
  have lt: "i < num" using Suc.hyps(2) by (simp add: word_less_nat_alt)
  have un: "unat i < n" using lt num by (simp add: word_less_nat_alt)
  have Su: "unat (i + 1) = Suc (unat i)" by (rule unat_Suc_less [OF lt])
  have IH: "blk_scan (kmem s) (bdev_heap s) ds num name (i + 1) =
      Some (ptr_of_name (drop (Suc (unat i)) (take n ds)) (drop (Suc (unat i)) al) nm)"
    using Suc.hyps(1) [of "i + 1"] Suc.hyps(2) lt Su by (simp add: word_le_nat_alt word_less_nat_alt)
  let ?p = "ds ! unat i" and ?e = "al ! unat i"
  have e: "dev_named s ?p ?e"
    using list_all2_nthD [OF rel, of "unat i"] un num by simp
  have "strcmp (kmem s) (bd_name (snd ?e)) name = Some (cmp_bytes (fst ?e) nm)"
    using e nm by (auto simp: dev_named_def intro: strcmp_cmp_bytes)
  moreover have "cmp_bytes (fst ?e) nm = 0 \<longleftrightarrow> fst ?e = nm"
    using e nm by (auto simp: dev_named_def dest!: cstr_nonzero [rotated] intro!: cmp_bytes_eq_0)
  moreover have "drop (unat i) (take n ds) = ?p # drop (Suc (unat i)) (take n ds)"
    "drop (unat i) al = ?e # drop (Suc (unat i)) al"
    using un num len by (simp_all add: Cons_nth_drop_Suc [symmetric])
  ultimately show ?case
    using e lt un num(2) IH
    by (subst blk_scan.simps) (simp add: dev_named_def ptr_of_name_def)
qed

lemma ptr_of_name_map_of:
  assumes "list_all2 (dev_named s) ps al"
  shows "case map_of al nm of
      None \<Rightarrow> ptr_of_name ps al nm = NULL
    | Some d \<Rightarrow> ptr_of_name ps al nm \<noteq> NULL \<and> bdev_heap s (ptr_of_name ps al nm) = Some d"
  using assms
proof (induction ps al rule: list_all2_induct)
  case (Cons p ps e al)
  then show ?case
    by (cases e) (auto simp: ptr_of_name_def dev_named_def split: option.splits)
qed (simp add: ptr_of_name_def)

lemma ptr_of_name_NULL:
  "list_all2 (dev_named s) ps al \<Longrightarrow> ptr_of_name ps al nm = NULL \<longleftrightarrow> nm \<notin> fst ` set al"
  using ptr_of_name_map_of [of s ps al nm]
  by (auto split: option.splits simp: map_of_eq_None_iff dest!: map_of_SomeD intro: rev_image_eqI)

lemma blk_scan_rel:
  assumes "blk_rel s al" and "block_devices s = Some ds" and "cstr (kmem s) name nm"
  shows "blk_scan (kmem s) (bdev_heap s) ds (num_block_devices s) name 0 =
    Some (ptr_of_name (devs_of s) al nm)"
  using assms blk_scan_spec [of s "unat (num_block_devices s)" ds al "num_block_devices s" name nm 0]
  by (auto simp: blk_rel_def devs_of_def table_shape_def word_le_nat_alt)

section \<open>Registration and lookup\<close>

lemma dev_named_more:
  "dev_named s p e \<Longrightarrow> kmem t = kmem s \<Longrightarrow> bdev_heap t p = bdev_heap s p \<Longrightarrow>
     live (hlog t) p \<noteq> None \<Longrightarrow> dev_named t p e"
  by (simp add: dev_named_def)

lemma malloc_NULL: "alloc (hlog s) n = NULL \<Longrightarrow> snd (malloc alloc n s) = s"
  by (simp add: malloc_def Let_def)

lemma malloc_hlog:
  "alloc (hlog s) n \<noteq> NULL \<Longrightarrow> snd (malloc alloc n s) = s\<lparr>hlog := Malloc n (alloc (hlog s) n) # hlog s\<rparr>"
  by (simp add: malloc_def Let_def)

lemma blk_rel_malloc:
  assumes "blk_rel s al"
  shows "blk_rel (snd (malloc alloc n s)) al"
proof (cases "alloc (hlog s) n = NULL")
  case True
  then show ?thesis using assms by (simp add: malloc_NULL)
next
  case False
  then have "dev_named (snd (malloc alloc n s)) p e" if "dev_named s p e" for p e
    using that by (auto simp: malloc_hlog dev_named_def)
  then show ?thesis using assms False
    by (auto simp: blk_rel_def malloc_hlog table_shape_def devs_of_def list_all2_mono
        split: option.splits elim!: list_all2_mono)
qed

lemma init_table_rel:
  assumes "blk_rel s al" and "blkdev_init_table alloc s = (ok, s')"
  shows "blk_rel s' al" and "kmem s' = kmem s"
    and "ok \<Longrightarrow> \<exists>ds. block_devices s' = Some ds"
    and "ok \<longleftrightarrow> block_devices s \<noteq> None \<or> alloc (hlog s) 64 \<noteq> NULL"
proof -
  have "blk_rel s' al \<and> kmem s' = kmem s \<and> (ok \<longrightarrow> (\<exists>ds. block_devices s' = Some ds))
      \<and> (ok \<longleftrightarrow> block_devices s \<noteq> None \<or> alloc (hlog s) 64 \<noteq> NULL)"
  proof (cases "block_devices s")
    case (Some ds)
    then show ?thesis using assms by (simp add: blkdev_init_table_def)
  next
    case None
    let ?s1 = "s\<lparr>num_block_devices := 0, max_block_devices := 16\<rparr>"
    have al: "al = []" using assms(1) None by (simp add: blk_rel_def devs_of_def)
    show ?thesis
      using assms(2) None al
      by (cases "alloc (hlog s) 64 = NULL")
        (auto simp: blkdev_init_table_def Let_def case_prod_unfold malloc_NULL malloc_hlog
          blk_rel_def table_shape_def devs_of_def)
  qed
  then show "blk_rel s' al" "kmem s' = kmem s" "ok \<Longrightarrow> \<exists>ds. block_devices s' = Some ds"
    "ok \<longleftrightarrow> block_devices s \<noteq> None \<or> alloc (hlog s) 64 \<noteq> NULL" by blast+
qed

lemma blk_rel_shape:
  "blk_rel s al \<Longrightarrow> block_devices s = Some ds \<Longrightarrow>
     length ds = 16 \<and> max_block_devices s = 16 \<and> unat (num_block_devices s) = length al
     \<and> length al \<le> 16"
  by (auto simp: blk_rel_def table_shape_def devs_of_def word_le_nat_alt list_all2_iff)

lemma list_all2_dev_live:
  "list_all2 (dev_named s) ps al \<Longrightarrow> p \<in> set ps \<Longrightarrow> live (hlog s) p \<noteq> None"
  by (induction rule: list_all2_induct) (auto simp: dev_named_def)

lemma blk_rel_add:
  assumes rel: "blk_rel s al" and ds: "block_devices s = Some ds" and room: "length al < 16"
    and new: "nm \<notin> fst ` set al" and nm: "cstr (kmem s) (bd_name d) nm"
    and fresh: "p \<noteq> NULL" "live (hlog s) p = None"
  shows "blk_rel (s\<lparr>hlog := Malloc n p # hlog s, bdev_heap := (bdev_heap s)(p \<mapsto> d),
      block_devices := Some (ds[unat (num_block_devices s) := p]),
      num_block_devices := num_block_devices s + 1\<rparr>) (al @ [(nm, d)])" (is "blk_rel ?t _")
proof -
  note sh = blk_rel_shape [OF rel ds]
  let ?k = "unat (num_block_devices s)"
  have lt: "num_block_devices s < 16" using sh room by (simp add: word_less_nat_alt)
  then have Sk: "unat (num_block_devices s + 1) = Suc ?k" by (rule unat_Suc_less)
  have old: "list_all2 (dev_named s) (take ?k ds) al"
    using rel ds by (simp add: blk_rel_def devs_of_def)
  have "p \<notin> set (take ?k ds)"
    using list_all2_dev_live [OF old] fresh(2) by fastforce
  moreover have "devs_of ?t = take ?k ds @ [p]"
    using sh room by (simp add: devs_of_def Sk take_Suc_conv_app_nth)
  moreover have "dev_named ?t q e" if "dev_named s q e" for q e
    using that fresh by (auto simp: dev_named_def)
  moreover have "dev_named ?t p (nm, d)" using nm fresh by (simp add: dev_named_def)
  moreover have "table_shape ?t" using sh lt by (simp add: table_shape_def inc_le)
  ultimately show ?thesis
    using rel old new ds unfolding blk_rel_def
    by (auto simp: devs_of_def intro!: list_all2_appendI elim: list_all2_mono)
qed

text \<open>One of the two allocations of a registration fails: of the table, when there is none yet, or
  of the device.\<close>

definition register_oom :: "allocator \<Rightarrow> 'z blk_scheme \<Rightarrow> bool" where
  "register_oom alloc s \<longleftrightarrow>
     block_devices s = None \<and> alloc (hlog s) 64 = NULL \<or>
     alloc (hlog (snd (blkdev_init_table alloc s))) SIZEOF_BLOCK_DEVICE = NULL"

lemma register_spec:
  assumes rel: "blk_rel s al" and nm: "cstr (kmem s) name nm" and fresh: "alloc_fresh alloc"
  shows "\<exists>r s'. blkdev_register alloc name bs nb ops priv s = Some (r, s') \<and> kmem s' = kmem s \<and>
    (if r = 0
     then nm \<notin> fst ` set al \<and> length al < 16 \<and>
       blk_rel s' (al @ [(nm, \<lparr>bd_name = name, bd_block_size = bs, bd_num_blocks = nb,
                              bd_driver_private = priv, bd_ops = ops\<rparr>)])
     else r = -1 \<and> blk_rel s' al) \<and>
    (r = 0 \<longleftrightarrow> nm \<notin> fst ` set al \<and> length al < 16 \<and> \<not> register_oom alloc s)"
proof -
  obtain ok s1 where s1: "blkdev_init_table alloc s = (ok, s1)" by (cases "blkdev_init_table alloc s")
  note tab = init_table_rel [OF rel s1]
  show ?thesis
  proof (cases ok)
    case False
    then show ?thesis using tab by (auto simp: blkdev_register_def s1 register_oom_def)
  next
    case True
    then have oom: "register_oom alloc s \<longleftrightarrow> alloc (hlog s1) SIZEOF_BLOCK_DEVICE = NULL"
      using tab(4) by (auto simp: register_oom_def s1)
    from True obtain ds where ds: "block_devices s1 = Some ds" using tab by blast
    note sh = blk_rel_shape [OF tab(1) ds]
    show ?thesis
    proof (cases "length al < 16")
      case full: False
      then have "max_block_devices s1 \<le> num_block_devices s1" using sh by (simp add: word_le_nat_alt)
      then show ?thesis using True tab full by (simp add: blkdev_register_def s1)
    next
      case room: True
      then have lt: "\<not> max_block_devices s1 \<le> num_block_devices s1"
        using sh by (simp add: word_le_nat_alt)
      let ?p = "alloc (hlog s1) SIZEOF_BLOCK_DEVICE"
      show ?thesis
      proof (cases "?p = NULL")
        case True
        then show ?thesis using \<open>ok\<close> tab lt oom
          by (auto simp: blkdev_register_def s1 malloc_NULL case_prod_unfold)
      next
        case p: False
        define s2 where "s2 = snd (malloc alloc SIZEOF_BLOCK_DEVICE s1)"
        have s2: "s2 = s1\<lparr>hlog := Malloc SIZEOF_BLOCK_DEVICE ?p # hlog s1\<rparr>"
          using p by (simp add: s2_def malloc_hlog)
        have r2: "blk_rel s2 al" unfolding s2_def by (rule blk_rel_malloc [OF tab(1)])
        have scan: "blk_scan (kmem s1) (bdev_heap s1) ds (num_block_devices s1) name 0
            = Some (ptr_of_name (devs_of s2) al nm)"
          using blk_scan_rel [OF r2, of ds name nm] nm tab(2) ds by (simp add: s2)
        have dup: "ptr_of_name (devs_of s2) al nm = NULL \<longleftrightarrow> nm \<notin> fst ` set al"
          using r2 by (intro ptr_of_name_NULL [of s2]) (simp add: blk_rel_def)
        have m: "malloc alloc SIZEOF_BLOCK_DEVICE s1 = (?p, s2)"
          by (simp add: s2_def prod_eq_iff)
        show ?thesis
        proof (cases "nm \<in> fst ` set al")
          case True
          then show ?thesis using \<open>ok\<close> tab lt p ds scan dup r2 oom
            by (simp add: blkdev_register_def s1 m s2)
        next
          case False
          have live: "live (hlog s1) ?p = None" using fresh p by (simp add: alloc_fresh_def)
          show ?thesis
            using blk_rel_add [OF tab(1) ds room False _ p live, where n = SIZEOF_BLOCK_DEVICE
                and d = "\<lparr>bd_name = name, bd_block_size = bs, bd_num_blocks = nb,
                              bd_driver_private = priv, bd_ops = ops\<rparr>"]
              \<open>ok\<close> tab nm lt p ds scan dup False sh room oom
            by (simp add: blkdev_register_def s1 m s2)
        qed
      qed
    qed
  qed
qed

lemma init_table_frame:
  "blkdev_init_table alloc s = (ok, s') \<Longrightarrow>
     io s' = io s \<and> irq_table s' = irq_table s \<and> ticks s' = ticks s \<and> freq s' = freq s \<and>
     fdc_irq_fired s' = fdc_irq_fired s \<and> kmem s' = kmem s \<and> bdev_heap s' = bdev_heap s \<and>
     bops_heap s' = bops_heap s \<and> blk.more s' = blk.more s"
  by (auto simp: blkdev_init_table_def malloc_def Let_def split: option.splits if_splits)

text \<open>Registration touches the table, the device structures and the allocator only.\<close>

lemma register_frame:
  assumes "blkdev_register alloc name bs nb ops priv s = Some (r, s')"
  shows "io s' = io s \<and> irq_table s' = irq_table s \<and> ticks s' = ticks s \<and> freq s' = freq s \<and>
     fdc_irq_fired s' = fdc_irq_fired s \<and> kmem s' = kmem s \<and> bops_heap s' = bops_heap s \<and>
     blk.more s' = blk.more s"
proof -
  obtain ok s1 where s1: "blkdev_init_table alloc s = (ok, s1)" by (cases "blkdev_init_table alloc s")
  show ?thesis
    using assms init_table_frame [OF s1]
    by (auto simp: blkdev_register_def s1 malloc_def Let_def split: if_splits option.splits
        Option.bind_splits)
qed

lemma blk_rel_cong:
  assumes "blk_rel s al" and "hlog t = hlog s" "kmem t = kmem s" "block_devices t = block_devices s"
    "num_block_devices t = num_block_devices s" "max_block_devices t = max_block_devices s"
    "bdev_heap t = bdev_heap s"
  shows "blk_rel t al"
  using assms
  by (simp add: blk_rel_def table_shape_def devs_of_def dev_named_def [abs_def] cong: option.case_cong)

lemma register_oom_cong:
  assumes "hlog t = hlog s" "block_devices t = block_devices s"
  shows "register_oom alloc t = register_oom alloc s"
  using assms
  by (auto simp: register_oom_def blkdev_init_table_def malloc_def Let_def split: option.splits)

text \<open>C15: \<open>blkdev_register\<close> implements insertion into a table of at most sixteen devices with distinct
  names. It never faults; it returns 0 and the table has the new device at its end, or \<open>-1\<close> and
  the table is what it was; the former exactly when the name is new, the table has room and the
  allocator does not fail. (The relation \<open>blk_rel\<close> ties the array, the counters, the device
  structures and the names in memory to the abstract list.)\<close>

theorem blkdev_register_refines:
  assumes rel: "blk_rel s al" and nm: "cstr (kmem s) name nm" and fresh: "alloc_fresh alloc"
  shows "\<exists>r s'. blkdev_register alloc name bs nb ops priv s = Some (r, s') \<and> kmem s' = kmem s \<and>
    (if r = 0
     then nm \<notin> fst ` set al \<and> length al < 16 \<and>
       blk_rel s' (al @ [(nm, \<lparr>bd_name = name, bd_block_size = bs, bd_num_blocks = nb,
                              bd_driver_private = priv, bd_ops = ops\<rparr>)])
     else r = -1 \<and> blk_rel s' al) \<and>
    (r = 0 \<longleftrightarrow> nm \<notin> fst ` set al \<and> length al < 16 \<and> \<not> register_oom alloc s)"
  by (rule register_spec [OF assms])

lemma get_by_name_spec:
  assumes "blk_rel s al" and "cstr (kmem s) name nm" and "name \<noteq> NULL"
  shows "\<exists>p. blkdev_get_by_name name s = Some p \<and>
    (case map_of al nm of None \<Rightarrow> p = NULL | Some d \<Rightarrow> p \<noteq> NULL \<and> bdev_heap s p = Some d)"
proof (cases "block_devices s")
  case None
  then have "al = []" "num_block_devices s = 0"
    using assms(1) by (auto simp: blk_rel_def devs_of_def table_shape_def)
  then show ?thesis using assms(3) None
    by (simp add: blkdev_get_by_name_def blk_scan.simps)
next
  case (Some ds)
  have "list_all2 (dev_named s) (devs_of s) al" using assms(1) by (simp add: blk_rel_def)
  from ptr_of_name_map_of [OF this, of nm] blk_scan_rel [OF assms(1) Some assms(2)]
  show ?thesis using assms(3) Some by (simp add: blkdev_get_by_name_def)
qed

text \<open>C16: \<open>blkdev_get_by_name\<close> is the lookup in that table: for a name in it, a pointer to exactly the
  device registered under the name, for any other \<open>NULL\<close>.\<close>

theorem blkdev_get_by_name_refines:
  assumes "blk_rel s al" and "cstr (kmem s) name nm" and "name \<noteq> NULL"
  shows "\<exists>p. blkdev_get_by_name name s = Some p \<and>
    (case map_of al nm of None \<Rightarrow> p = NULL | Some d \<Rightarrow> p \<noteq> NULL \<and> bdev_heap s p = Some d)"
  by (rule get_by_name_spec [OF assms])

text \<open>\<open>blkread\<close> calls the driver exactly for a device with a read operation and a block in its
  range, with the driver's private data; in every other case it returns \<open>-1\<close> and does nothing, and
  a block number past the end never reaches the driver.\<close>

lemma blkread_range_checked:
  assumes "dev = NULL \<or> (\<exists>d. bdev_heap s dev = Some d \<and>
             (bd_ops d = NULL \<or> bops_heap s (bd_ops d) \<noteq> None))"
  shows "blkread call dev lba buf s =
    (if dev \<noteq> NULL \<and> bd_ops (the (bdev_heap s dev)) \<noteq> NULL \<and>
        op_read (the (bops_heap s (bd_ops (the (bdev_heap s dev))))) \<noteq> 0 \<and>
        lba < bd_num_blocks (the (bdev_heap s dev))
     then call (op_read (the (bops_heap s (bd_ops (the (bdev_heap s dev))))))
            (bd_driver_private (the (bdev_heap s dev))) lba buf s
     else Some (-1, s))"
  using assms by (auto simp: blkread_def not_le)

section \<open>Witnesses\<close>

text \<open>A machine with the name of a device in memory and an empty table.\<close>

definition blk_boot :: blk where
  "blk_boot = mach.extend ((boot_mach 0)\<lparr>kmem := [8 \<mapsto> 102, 9 \<mapsto> 0]\<rparr>)
     \<lparr>block_devices = None, num_block_devices = 0, max_block_devices = 16,
      bdev_heap = Map.empty, bops_heap = Map.empty\<rparr>"

lemma blk_boot_rel: "blk_rel blk_boot []"
  by (simp add: blk_rel_def blk_boot_def mach.defs boot_mach_def table_shape_def devs_of_def)

theorem blkdev_register_refines_witness:
  "\<exists>s' d. blkdev_register (pool [0x100, 0x200]) 8 512 2880 0x40 NULL blk_boot = Some (0, s') \<and>
     blk_rel s' [([102], d)]"
proof -
  have "\<not> register_oom (pool [0x100, 0x200]) blk_boot"
    by (simp add: register_oom_def blkdev_init_table_def pool_def blk_boot_def mach.defs
        boot_mach_def malloc_def Let_def)
  moreover have "cstr (kmem blk_boot) 8 [102]"
    by (simp add: blk_boot_def mach.defs boot_mach_def)
  ultimately show ?thesis
    using blkdev_register_refines [OF blk_boot_rel, of 8 "[102]" "pool [0x100, 0x200]" 512 2880 "0x40" NULL]
    by (auto simp: pool_fresh)
qed

definition blk_one :: blk where
  "blk_one = blk_boot\<lparr>hlog := [Malloc 20 0x200],
     block_devices := Some (0x200 # replicate 15 NULL), num_block_devices := 1,
     bdev_heap := [0x200 \<mapsto> \<lparr>bd_name = 8, bd_block_size = 512, bd_num_blocks = 2880,
                             bd_driver_private = NULL, bd_ops = 0x40\<rparr>],
     bops_heap := [0x40 \<mapsto> \<lparr>op_read = 1, op_write = 2\<rparr>]\<rparr>"

theorem blkdev_get_by_name_refines_witness:
  "\<exists>p. blkdev_get_by_name 8 blk_one = Some p \<and> p \<noteq> NULL"
proof -
  have "blk_rel blk_one [([102], the (bdev_heap blk_one 0x200))]"
    by (simp add: blk_rel_def blk_one_def blk_boot_def mach.defs boot_mach_def table_shape_def
        devs_of_def dev_named_def)
  from blkdev_get_by_name_refines [OF this, of 8 "[102]"] show ?thesis
    by (auto simp: blk_one_def blk_boot_def mach.defs boot_mach_def)
qed

lemma blkread_range_checked_witness:
  "blkread (\<lambda>_ _ _ _ s. Some (0, s)) 0x200 2880 0x1000 blk_one = Some (-1, blk_one) \<and>
   blkread (\<lambda>_ _ _ _ s. Some (0, s)) 0x200 2879 0x1000 blk_one = Some (0, blk_one)"
proof -
  have "0x200 = NULL \<or> (\<exists>d. bdev_heap blk_one 0x200 = Some d \<and>
             (bd_ops d = NULL \<or> bops_heap blk_one (bd_ops d) \<noteq> None))"
    by (simp add: blk_one_def)
  from blkread_range_checked [OF this, of "\<lambda>_ _ _ _ s. Some (0, s)" _ "0x1000"] show ?thesis
    by (simp add: blk_one_def)
qed

end
