(* ===== verification/Fdc.thy ===== *)
theory Fdc
  imports Block Timer Dma
begin

text \<open>
  The floppy disk controller driver, \<open>driver/fdc.c\<close>: commands and results through the FIFO with
  bounded polling, waiting for the interrupt, motor control, the commands, and the public
  operations. The polling loops count 500 iterations, the retry loops 10. Waiting for the interrupt
  may spin for ever, so whatever waits is an option. A command that times out is dropped, as in
  the code, which ignores the result of sending it.
\<close>

unbundle bit_operations_syntax

definition FLOPPY_DMA_BUFFER :: ptr where "FLOPPY_DMA_BUFFER = 0x1000"
definition FDC_PRIM_DOR :: u16 where "FDC_PRIM_DOR = 0x3F2"
definition FDC_PRIM_MSR :: u16 where "FDC_PRIM_MSR = 0x3F4"
definition FDC_PRIM_FIFO :: u16 where "FDC_PRIM_FIFO = 0x3F5"
definition FDC_PRIM_CCR :: u16 where "FDC_PRIM_CCR = 0x3F7"
definition FDC_CMD_READ_SECTOR :: u8 where "FDC_CMD_READ_SECTOR = 0x06"
definition FDC_CMD_SPECIFY :: u8 where "FDC_CMD_SPECIFY = 0x03"
definition FDC_CMD_RECALIBRATE :: u8 where "FDC_CMD_RECALIBRATE = 0x07"
definition FDC_CMD_SENSE_INTERRUPT :: u8 where "FDC_CMD_SENSE_INTERRUPT = 0x08"
definition FDC_CMD_SEEK :: u8 where "FDC_CMD_SEEK = 0x0F"
definition FDC_DOR_DISABLE :: u8 where "FDC_DOR_DISABLE = 0x00"
definition FDC_DOR_ENABLE :: u8 where "FDC_DOR_ENABLE = 0x04"
definition FDC_DOR_IRQ_DMA :: u8 where "FDC_DOR_IRQ_DMA = 0x08"
definition FDC_MSR_DATAREG_MASK :: u8 where "FDC_MSR_DATAREG_MASK = 0x80"
definition FDC_CCR_500KBPS :: u8 where "FDC_CCR_500KBPS = 0x00"
definition FDC_EXT_SD :: u8 where "FDC_EXT_SD = 0x20"
definition FDC_EXT_DD :: u8 where "FDC_EXT_DD = 0x40"
definition FDC_EXT_MT :: u8 where "FDC_EXT_MT = 0x80"
definition FDC_GPL_3_5 :: u8 where "FDC_GPL_3_5 = 0x1B"
definition FDC_BPS_512 :: u8 where "FDC_BPS_512 = 0x02"
definition IRQ6_FLOPPY :: u8 where "IRQ6_FLOPPY = 38"

definition FDC_DOR_MOTOR_MASK :: "u8 \<Rightarrow> u8 option" where
  "FDC_DOR_MOTOR_MASK drive =
     (if drive = 0 then Some 0x10 else if drive = 1 then Some 0x20
      else if drive = 2 then Some 0x40 else if drive = 3 then Some 0x80 else None)"

record fdcst = blk +
  fdc_current_drive :: u8

section \<open>Registers, commands and results\<close>

definition fdc_init_dma :: "u16 \<Rightarrow> bool \<Rightarrow> 'z mach_scheme \<Rightarrow> 'z mach_scheme" where
  "fdc_init_dma count is_write s =
     (let s = dma_mask_channel DMA_CHAN_FLOPPY s;
          s = dma_reset_flipflop 0 s;
          s = dma_set_address DMA_CHAN_FLOPPY (ucast FLOPPY_DMA_BUFFER) s;
          s = dma_reset_flipflop 0 s;
          s = dma_set_count DMA_CHAN_FLOPPY count s;
          s = dma_set_external_pagereg DMA_CHAN_FLOPPY 0 s;
          s = (if is_write then dma_setup_write DMA_CHAN_FLOPPY s
               else dma_setup_read DMA_CHAN_FLOPPY s)
      in dma_unmask_all s)"

definition fdc_get_status :: "hw \<Rightarrow> 'z mach_scheme \<Rightarrow> u8 \<times> 'z mach_scheme" where
  "fdc_get_status h s = inb h FDC_PRIM_MSR s"

definition fdc_write_dor :: "u8 \<Rightarrow> 'z mach_scheme \<Rightarrow> 'z mach_scheme" where
  "fdc_write_dor v = outb v FDC_PRIM_DOR"

definition fdc_write_ccr :: "u8 \<Rightarrow> 'z mach_scheme \<Rightarrow> 'z mach_scheme" where
  "fdc_write_ccr v = outb v FDC_PRIM_CCR"

primrec fdc_send_loop :: "hw \<Rightarrow> u8 \<Rightarrow> nat \<Rightarrow> 'z mach_scheme \<Rightarrow> u8 \<times> 'z mach_scheme" where
  "fdc_send_loop h command 0 s = (-1, s)"
| "fdc_send_loop h command (Suc n) s =
     (let (v, s) = fdc_get_status h s in
      if v AND FDC_MSR_DATAREG_MASK \<noteq> 0 then (0, outb command FDC_PRIM_FIFO s)
      else fdc_send_loop h command n s)"

definition fdc_send_command :: "hw \<Rightarrow> u8 \<Rightarrow> 'z mach_scheme \<Rightarrow> u8 \<times> 'z mach_scheme" where
  "fdc_send_command h command s = fdc_send_loop h command 500 s"

primrec fdc_read_loop :: "hw \<Rightarrow> nat \<Rightarrow> 'z mach_scheme \<Rightarrow> u8 \<times> 'z mach_scheme" where
  "fdc_read_loop h 0 s = (0, s)"
| "fdc_read_loop h (Suc n) s =
     (let (v, s) = fdc_get_status h s in
      if v AND FDC_MSR_DATAREG_MASK \<noteq> 0 then inb h FDC_PRIM_FIFO s
      else fdc_read_loop h n s)"

definition fdc_read_fifo :: "hw \<Rightarrow> 'z mach_scheme \<Rightarrow> u8 \<times> 'z mach_scheme" where
  "fdc_read_fifo h s = fdc_read_loop h 500 s"

text \<open>A sequence of commands whose results are ignored.\<close>

definition fdc_send_all :: "hw \<Rightarrow> u8 list \<Rightarrow> 'z mach_scheme \<Rightarrow> 'z mach_scheme" where
  "fdc_send_all h cs s = fold (\<lambda>c s. snd (fdc_send_command h c s)) cs s"

definition fdc_disable :: "'z mach_scheme \<Rightarrow> 'z mach_scheme" where
  "fdc_disable = fdc_write_dor FDC_DOR_DISABLE"

definition fdc_enable :: "'z mach_scheme \<Rightarrow> 'z mach_scheme" where
  "fdc_enable = fdc_write_dor (FDC_DOR_ENABLE OR FDC_DOR_IRQ_DMA)"

definition fdc_control_motor ::
  "hw \<Rightarrow> u8 \<Rightarrow> bool \<Rightarrow> 'z mach_scheme \<Rightarrow> 'z mach_scheme option" where
  "fdc_control_motor h drive enable s =
     (case FDC_DOR_MOTOR_MASK drive of
        None \<Rightarrow> Some s
      | Some motor \<Rightarrow>
          let s = fdc_write_dor
                    (if enable then motor OR drive OR FDC_DOR_IRQ_DMA OR FDC_DOR_ENABLE
                     else FDC_DOR_ENABLE OR FDC_DOR_IRQ_DMA) s
          in sleep h 10 s)"

partial_function (option) fdc_wait_for_irq ::
  "hw \<Rightarrow> 'z mach_scheme \<Rightarrow> 'z mach_scheme option" where
  "fdc_wait_for_irq h s =
     (if fdc_irq_fired s = 0 then fdc_wait_for_irq h (spin h s)
      else Some (s\<lparr>fdc_irq_fired := 0\<rparr>))"

text \<open>The status byte and the cylinder; every caller passes the addresses of two locals.\<close>

definition fdc_sense_interrupt :: "hw \<Rightarrow> 'z mach_scheme \<Rightarrow> u32 \<times> u32 \<times> 'z mach_scheme" where
  "fdc_sense_interrupt h s =
     (let s = snd (fdc_send_command h FDC_CMD_SENSE_INTERRUPT s);
          (st0, s) = fdc_read_fifo h s;
          (cyl, s) = fdc_read_fifo h s
      in (ucast st0, ucast cyl, s))"

definition fdc_fix_drivedata ::
  "hw \<Rightarrow> u32 \<Rightarrow> u32 \<Rightarrow> u32 \<Rightarrow> bool \<Rightarrow> 'z mach_scheme \<Rightarrow> 'z mach_scheme" where
  "fdc_fix_drivedata h steprate loadtime unloadtime usedma s =
     fdc_send_all h
       [FDC_CMD_SPECIFY,
        ucast (push_bit 4 (steprate AND 0x0F)) OR ucast (unloadtime AND 0x0F),
        ucast (push_bit 1 (loadtime AND 0x7F)) OR (if usedma then 0 else 1)] s"

section \<open>Commands that wait for the interrupt\<close>

definition fdc_read_sector_chs ::
  "hw \<Rightarrow> u8 \<Rightarrow> u8 \<Rightarrow> u8 \<Rightarrow> 'z fdcst_scheme \<Rightarrow> 'z fdcst_scheme option" where
  "fdc_read_sector_chs h head track sector s = do {
     let s = fdc_init_dma 511 False s;
     let s = fdc_send_all h
       [FDC_CMD_READ_SECTOR OR FDC_EXT_DD OR FDC_EXT_MT OR FDC_EXT_SD,
        push_bit 2 head OR fdc_current_drive s,
        track, head, sector, FDC_BPS_512,
        if unat sector + 1 \<ge> 18 then 18 else sector + 1,
        FDC_GPL_3_5, 0xff] s;
     s \<leftarrow> fdc_wait_for_irq h s;
     let s = ((\<lambda>s. snd (fdc_read_fifo h s)) ^^ 7) s;
     let (st0, cyl, s) = fdc_sense_interrupt h s;
     Some s
   }"

primrec fdc_recalibrate_loop ::
  "hw \<Rightarrow> u8 \<Rightarrow> nat \<Rightarrow> 'z mach_scheme \<Rightarrow> (u32 \<times> 'z mach_scheme) option" where
  "fdc_recalibrate_loop h drive 0 s =
     do { s \<leftarrow> fdc_control_motor h drive False s; Some (-1, s) }"
| "fdc_recalibrate_loop h drive (Suc n) s = do {
     let s = fdc_send_all h [FDC_CMD_RECALIBRATE, drive] s;
     s \<leftarrow> fdc_wait_for_irq h s;
     let (st0, cyl, s) = fdc_sense_interrupt h s;
     if cyl = 0 then do { s \<leftarrow> fdc_control_motor h drive False s; Some (0, s) }
     else fdc_recalibrate_loop h drive n s
   }"

definition fdc_recalibrate ::
  "hw \<Rightarrow> u8 \<Rightarrow> 'z mach_scheme \<Rightarrow> (u32 \<times> 'z mach_scheme) option" where
  "fdc_recalibrate h drive s =
     (if drive > 3 then Some (-1, s)
      else do {
        s \<leftarrow> fdc_control_motor h drive True s;
        fdc_recalibrate_loop h drive 10 s
      })"

primrec fdc_seek_loop ::
  "hw \<Rightarrow> u8 \<Rightarrow> u8 \<Rightarrow> nat \<Rightarrow> 'z fdcst_scheme \<Rightarrow> (u32 \<times> 'z fdcst_scheme) option" where
  "fdc_seek_loop h cyl head 0 s = Some (-1, s)"
| "fdc_seek_loop h cyl head (Suc n) s = do {
     let s = fdc_send_all h [FDC_CMD_SEEK, push_bit 2 head OR fdc_current_drive s, cyl] s;
     s \<leftarrow> fdc_wait_for_irq h s;
     let (st0, cyl_returned, s) = fdc_sense_interrupt h s;
     if cyl_returned = ucast cyl then Some (0, s) else fdc_seek_loop h cyl head n s
   }"

definition fdc_seek ::
  "hw \<Rightarrow> u8 \<Rightarrow> u8 \<Rightarrow> 'z fdcst_scheme \<Rightarrow> (u32 \<times> 'z fdcst_scheme) option" where
  "fdc_seek h cyl head s = fdc_seek_loop h cyl head 10 s"

section \<open>Public operations\<close>

definition fdc_set_drive :: "u8 \<Rightarrow> 'z fdcst_scheme \<Rightarrow> 'z fdcst_scheme" where
  "fdc_set_drive drive s = (if drive > 3 then s else s\<lparr>fdc_current_drive := drive\<rparr>)"

definition fdc_get_drive :: "'z fdcst_scheme \<Rightarrow> u8" where
  "fdc_get_drive s = fdc_current_drive s"

definition fdc_lba_to_chs :: "u32 \<Rightarrow> u32 \<times> u32 \<times> u32" where
  "fdc_lba_to_chs lba =
     (ucast (ucast (lba div (18 * 2)) :: u8),
      (lba mod (2 * 18)) div 18,
      (lba mod (2 * 18)) mod 18 + 1)"

definition fdc_reset :: "hw \<Rightarrow> 'z fdcst_scheme \<Rightarrow> 'z fdcst_scheme option" where
  "fdc_reset h s = do {
     let s = fdc_enable (fdc_disable s);
     s \<leftarrow> fdc_wait_for_irq h s;
     let s = ((\<lambda>s. snd (snd (fdc_sense_interrupt h s))) ^^ 4) s;
     let s = fdc_write_ccr FDC_CCR_500KBPS s;
     let s = fdc_fix_drivedata h 3 16 240 True s;
     (r, s) \<leftarrow> fdc_recalibrate h (fdc_current_drive s) s;
     Some s
   }"

definition fdc_read_sector ::
  "hw \<Rightarrow> u32 \<Rightarrow> ptr \<Rightarrow> 'z fdcst_scheme \<Rightarrow> (u32 \<times> 'z fdcst_scheme) option" where
  "fdc_read_sector h sectorLBA buff s = do {
     let (cylinder, head, sector) = fdc_lba_to_chs sectorLBA;
     s \<leftarrow> fdc_control_motor h (fdc_current_drive s) True s;
     (r, s) \<leftarrow> fdc_seek h (ucast cylinder) (ucast head) s;
     if r \<noteq> 0 then Some (-1, s)
     else do {
       s \<leftarrow> fdc_read_sector_chs h (ucast head) (ucast cylinder) (ucast sector) s;
       s \<leftarrow> fdc_control_motor h (fdc_current_drive s) False s;
       if buff \<noteq> NULL then do {
         (_, m) \<leftarrow> memcpy (kmem s) buff FLOPPY_DMA_BUFFER 512;
         Some (0, s\<lparr>kmem := m\<rparr>)
       } else Some (-1, s)
     }
   }"

text \<open>The driver's operations, and the call through their addresses \<open>rd\<close> and \<open>wr\<close>.\<close>

definition fdc_blk_read ::
  "hw \<Rightarrow> ptr \<Rightarrow> u32 \<Rightarrow> ptr \<Rightarrow> 'z fdcst_scheme \<Rightarrow> (u32 \<times> 'z fdcst_scheme) option" where
  "fdc_blk_read h priv lba buffer s = fdc_read_sector h lba buffer s"

definition fdc_blk_write ::
  "ptr \<Rightarrow> u32 \<Rightarrow> ptr \<Rightarrow> 'z fdcst_scheme \<Rightarrow> u32 \<times> 'z fdcst_scheme" where
  "fdc_blk_write priv lba buffer s = (-1, s)"

record fdc_link =
  l_blk_read :: fnptr
  l_blk_write :: fnptr
  l_ops :: ptr
  l_fd0 :: ptr

definition call_blk_read ::
  "hw \<Rightarrow> fdc_link \<Rightarrow> fnptr \<Rightarrow> ptr \<Rightarrow> u32 \<Rightarrow> ptr \<Rightarrow> 'z fdcst_scheme \<Rightarrow> (u32 \<times> 'z fdcst_scheme) option" where
  "call_blk_read h ln f priv lba buffer s =
     (if f = l_blk_read ln then fdc_blk_read h priv lba buffer s else None)"

definition fdc_init ::
  "hw \<Rightarrow> allocator \<Rightarrow> fdc_link \<Rightarrow> 'z fdcst_scheme \<Rightarrow> 'z fdcst_scheme option" where
  "fdc_init h alloc ln s = do {
     let s = register_interrupt_handler IRQ6_FLOPPY FdcIrqHandler s;
     let s = fdc_set_drive 0 s;
     s \<leftarrow> fdc_reset h s;
     let s = s\<lparr>bops_heap := (bops_heap s)(l_ops ln \<mapsto>
                  \<lparr>op_read = l_blk_read ln, op_write = l_blk_write ln\<rparr>)\<rparr>;
     (r, s) \<leftarrow> blkdev_register alloc (l_fd0 ln) 512 2880 (l_ops ln) NULL s;
     Some s
   }"

end
