(* ===== verification/Floppy.thy ===== *)
theory Floppy
  imports Fdc
begin

text \<open>
  The floppy drive the driver talks to, as a protocol, and the correctness of the driver against
  it. The protocol is read off the log of port accesses: a command byte collects its parameters,
  a read or a seek is then awaited by an interrupt, and the results are read back. \<open>floppy_ok\<close>
  states what the driver relies on of a controller and a drive with a given disk image: the data
  register is ready when it is polled, an awaited interrupt arrives and no other does, a sense
  command reports the cylinder of the last seek, and a read command whose DMA channel, cylinder
  and sector are set up deposits that sector of the image. \<open>sim_floppy\<close> is a hardware that does so.
\<close>

unbundle bit_operations_syntax

section \<open>The protocol\<close>

datatype phase =
    Idle
  | InReset
  | Collect "u8 list"
  | Await "u8 list"
  | ReadRes nat
  | SenseRes nat

record fdev =
  phase :: phase
  cur_cyl :: u8
  dev_dma :: dmac

definition opcode :: "u8 list \<Rightarrow> u8" where
  "opcode bs = (case bs of [] \<Rightarrow> 0 | b # _ \<Rightarrow> b AND 0x1F)"

definition cmd_len :: "u8 list \<Rightarrow> nat" where
  "cmd_len bs =
     (if opcode bs = 0x06 then 9 else if opcode bs = 0x0F \<or> opcode bs = 0x03 then 3
      else if opcode bs = 0x07 then 2 else 1)"

definition execute :: "u8 list \<Rightarrow> fdev \<Rightarrow> fdev" where
  "execute bs d =
     (if opcode bs = 0x06 then d\<lparr>phase := Await bs\<rparr>
      else if opcode bs = 0x0F then d\<lparr>phase := Await bs, cur_cyl := bs ! 2\<rparr>
      else if opcode bs = 0x07 then d\<lparr>phase := Await bs, cur_cyl := 0\<rparr>
      else if opcode bs = 0x08 then d\<lparr>phase := SenseRes 2\<rparr>
      else d\<lparr>phase := Idle\<rparr>)"

definition fifo_in :: "u8 \<Rightarrow> fdev \<Rightarrow> fdev" where
  "fifo_in v d =
     (let bs = (case phase d of Collect bs \<Rightarrow> bs @ [v] | _ \<Rightarrow> [v]) in
      if length bs = cmd_len bs then execute bs d else d\<lparr>phase := Collect bs\<rparr>)"

definition fifo_out :: "fdev \<Rightarrow> fdev" where
  "fifo_out d =
     (case phase d of
        Await bs \<Rightarrow> if opcode bs = 0x06 then d\<lparr>phase := ReadRes 6\<rparr> else d
      | ReadRes n \<Rightarrow> d\<lparr>phase := (if n \<le> 1 then Idle else ReadRes (n - 1))\<rparr>
      | SenseRes n \<Rightarrow> d\<lparr>phase := (if n \<le> 1 then Idle else SenseRes (n - 1))\<rparr>
      | _ \<Rightarrow> d)"

definition dor_write :: "u8 \<Rightarrow> fdev \<Rightarrow> fdev" where
  "dor_write v d =
     (if \<not> bit v 2 then d\<lparr>phase := InReset\<rparr>
      else if phase d = InReset then d\<lparr>phase := Await []\<rparr> else d)"

fun fdev_step :: "io_event \<Rightarrow> fdev \<Rightarrow> fdev" where
  "fdev_step (Out p v) d =
     (if p = FDC_PRIM_FIFO then fifo_in v d
      else if p = FDC_PRIM_DOR then dor_write v d
      else d\<lparr>dev_dma := dmac_write (p, v) (dev_dma d)\<rparr>)"
| "fdev_step (In p v) d = (if p = FDC_PRIM_FIFO then fifo_out d else d)"
| "fdev_step Spin d = d"

definition fdev_init :: fdev where
  "fdev_init = \<lparr>phase = Idle, cur_cyl = 0, dev_dma = dmac_reset_state\<rparr>"

definition fdev_of :: "io_log \<Rightarrow> fdev" where
  "fdev_of l = foldr fdev_step l fdev_init"

abbreviation dev :: "'z mach_scheme \<Rightarrow> fdev" where
  "dev s \<equiv> fdev_of (io s)"

section \<open>What the drive does\<close>

text \<open>The sectors of the image are numbered by track, then head, then sector within the track.\<close>

definition chs_index :: "u8 \<Rightarrow> u8 \<Rightarrow> u8 \<Rightarrow> nat" where
  "chs_index c side r = (unat c * 2 + unat side) * 18 + (unat r - 1)"

text \<open>A read command that is set up: the head is over the cylinder, the parameters agree, the
  sector exists, and channel 2 is programmed for 512 bytes from the device to memory.\<close>

definition read_set_up :: "fdev \<Rightarrow> u8 list \<Rightarrow> bool" where
  "read_set_up d bs \<longleftrightarrow>
     length bs = 9 \<and> bs ! 2 = cur_cyl d \<and> bs ! 2 < 80 \<and> bs ! 3 < 2
     \<and> drop_bit 2 (bs ! 1) AND 1 = bs ! 3 \<and> 1 \<le> bs ! 4 \<and> bs ! 4 \<le> 18 \<and> bs ! 5 = 2
     \<and> \<not> chan_masked (dev_dma d) 2 \<and> chan_mode (dev_dma d) 2 = 0x44
     \<and> chan_count (dev_dma d) 2 = 511"

definition dma_target :: "fdev \<Rightarrow> ptr" where
  "dma_target d = ucast (chan_addr (dev_dma d) 2) OR push_bit 16 (ucast (chan_page (dev_dma d) 2))"

definition irq_soon :: "hw \<Rightarrow> io_log \<Rightarrow> nat \<Rightarrow> bool" where
  "irq_soon h l k \<longleftrightarrow>
     (\<forall>l'. quiet_log l' \<and> spins_in l' = k \<longrightarrow> IRQ6_FLOPPY \<in> set (hw_irqs h (l' @ l)))"

definition floppy_ok :: "hw \<Rightarrow> (nat \<Rightarrow> u8 list) \<Rightarrow> bool" where
  "floppy_ok h img \<longleftrightarrow> (\<forall>l. let d = fdev_of l in
     hw_in h l FDC_PRIM_MSR AND FDC_MSR_DATAREG_MASK \<noteq> 0 \<and>
     (phase d = SenseRes 1 \<longrightarrow> hw_in h l FDC_PRIM_FIFO = cur_cyl d) \<and>
     (case phase d of
        Await bs \<Rightarrow>
          (\<exists>k. irq_soon h l k) \<and>
          (IRQ6_FLOPPY \<notin> set (hw_irqs h l) \<or> opcode bs \<noteq> 0x06 \<longrightarrow> snd (hw_dma h l) = []) \<and>
          (IRQ6_FLOPPY \<in> set (hw_irqs h l) \<and> opcode bs = 0x06 \<and> read_set_up d bs \<longrightarrow>
             hw_dma h l = (dma_target d, img (chs_index (bs ! 2) (bs ! 3) (bs ! 4))))
      | _ \<Rightarrow> IRQ6_FLOPPY \<notin> set (hw_irqs h l) \<and> snd (hw_dma h l) = []))"

text \<open>The kernel's side: the handlers are installed, each for its interrupt only.\<close>

definition irqs_installed :: "'z mach_scheme \<Rightarrow> bool" where
  "irqs_installed s \<longleftrightarrow> timer_installed s \<and>
     (\<forall>n. irq_table s n = Some FdcIrqHandler \<longleftrightarrow> n = IRQ6_FLOPPY)"

section \<open>The log and the device\<close>

lemma fdev_of_Cons [simp]: "fdev_of (e # l) = fdev_step e (fdev_of l)"
  by (simp add: fdev_of_def)

lemma fdev_of_quiet: "quiet_log l' \<Longrightarrow> fdev_of (l' @ l) = fdev_of l"
  by (induction l') (auto simp: quiet_log_def FDC_PRIM_FIFO_def)

lemma irq_soon_0: "irq_soon h l 0 \<Longrightarrow> IRQ6_FLOPPY \<in> set (hw_irqs h l)"
  unfolding irq_soon_def by (drule spec [of _ "[]"]) (simp add: spins_in_def quiet_log_def)

lemma irq_soon_Suc:
  assumes "irq_soon h l (Suc k)" and "spins_in a = 1" and "quiet_log a"
  shows "irq_soon h (a @ l) k"
  unfolding irq_soon_def
proof (intro allI impI)
  fix b
  assume b: "quiet_log b \<and> spins_in b = k"
  then have "quiet_log (b @ a) \<and> spins_in (b @ a) = Suc k"
    using assms by (simp add: quiet_log_append spins_in_append)
  with assms(1) show "IRQ6_FLOPPY \<in> set (hw_irqs h (b @ a @ l))"
    unfolding irq_soon_def by (metis append.assoc)
qed

text \<open>A state that differs in the log, the tick counter, the interrupt flag and memory only.\<close>

definition io_step :: "'z mach_scheme \<Rightarrow> 'z mach_scheme \<Rightarrow> bool" where
  "io_step s t \<longleftrightarrow>
     t = s\<lparr>kmem := kmem t, io := io t, ticks := ticks t, fdc_irq_fired := fdc_irq_fired t\<rparr>"

lemma io_stepI:
  "hlog t = hlog s \<Longrightarrow> irq_table t = irq_table s \<Longrightarrow> freq t = freq s \<Longrightarrow>
   serial_mode_intr t = serial_mode_intr s \<Longrightarrow> mach.more t = mach.more s \<Longrightarrow> io_step s t"
  unfolding io_step_def by (rule mach.equality) simp_all

lemma io_step_refl [simp]: "io_step s s"
  by (rule io_stepI) simp_all

lemma io_step_fields:
  assumes "io_step s t"
  shows "hlog t = hlog s" "irq_table t = irq_table s" "freq t = freq s"
    "serial_mode_intr t = serial_mode_intr s" "mach.more t = mach.more s"
  by (subst assms [unfolded io_step_def]; simp)+

lemma io_step_driver_fields:
  assumes "io_step s t"
  shows "fdc_current_drive t = fdc_current_drive s" "block_devices t = block_devices s"
    "num_block_devices t = num_block_devices s" "max_block_devices t = max_block_devices s"
    "bdev_heap t = bdev_heap s" "bops_heap t = bops_heap s" "fdcst.more t = fdcst.more s"
  by (subst assms [unfolded io_step_def]; simp)+

lemma io_step_trans: "io_step r s \<Longrightarrow> io_step s t \<Longrightarrow> io_step r t"
  by (rule io_stepI) (simp_all add: io_step_fields)

lemma io_step_spin: "io_step s (spin h s)"
  by (rule io_stepI) (simp_all add: io_simps)

lemma io_step_outb: "io_step s (outb v p s)"
  by (rule io_stepI) (simp_all add: io_simps)

lemma io_step_installed: "io_step s t \<Longrightarrow> irqs_installed t = irqs_installed s"
  by (simp add: irqs_installed_def timer_installed_def io_step_fields)

definition awaiting :: "fdev \<Rightarrow> bool" where
  "awaiting d \<longleftrightarrow> (\<exists>bs. phase d = Await bs)"

text \<open>A step that leaves memory and the interrupt flag alone as well.\<close>

definition calm :: "'z mach_scheme \<Rightarrow> 'z mach_scheme \<Rightarrow> bool" where
  "calm s t \<longleftrightarrow> io_step s t \<and> kmem t = kmem s \<and> fdc_irq_fired t = fdc_irq_fired s"

lemma calm_refl [simp]: "calm s s"
  by (simp add: calm_def)

lemma calm_trans: "calm r s \<Longrightarrow> calm s t \<Longrightarrow> calm r t"
  by (auto simp: calm_def intro: io_step_trans)

lemma calm_outb: "calm s (outb v p s)"
  by (simp add: calm_def io_step_outb io_simps)

lemma calm_inb: "calm s (snd (inb h p s))"
  by (auto simp: calm_def io_simps intro!: io_stepI)

lemma calm_installed: "calm s t \<Longrightarrow> irqs_installed t = irqs_installed s"
  by (simp add: calm_def io_step_installed)

section \<open>Polling\<close>

lemma floppy_ready: "floppy_ok h img \<Longrightarrow> hw_in h l FDC_PRIM_MSR AND FDC_MSR_DATAREG_MASK \<noteq> 0"
  unfolding floppy_ok_def Let_def by blast

lemma fdc_send_ready:
  assumes "floppy_ok h img"
  shows "snd (fdc_send_command h c s) = outb c FDC_PRIM_FIFO (snd (inb h FDC_PRIM_MSR s))"
proof -
  have "fdc_send_loop h c (Suc 499) s = (0, outb c FDC_PRIM_FIFO (snd (inb h FDC_PRIM_MSR s)))"
    using floppy_ready [OF assms, of "io s"]
    by (subst fdc_send_loop.simps(2)) (simp add: fdc_get_status_def case_prod_unfold io_simps)
  then show ?thesis by (simp add: fdc_send_command_def)
qed

lemma fdc_read_ready:
  assumes "floppy_ok h img"
  shows "fdc_read_fifo h s = inb h FDC_PRIM_FIFO (snd (inb h FDC_PRIM_MSR s))"
proof -
  have "fdc_read_loop h (Suc 499) s = inb h FDC_PRIM_FIFO (snd (inb h FDC_PRIM_MSR s))"
    using floppy_ready [OF assms, of "io s"]
    by (subst fdc_read_loop.simps(2)) (simp add: fdc_get_status_def case_prod_unfold io_simps)
  then show ?thesis by (simp add: fdc_read_fifo_def)
qed

lemma dev_inb_msr [simp]: "dev (snd (inb h FDC_PRIM_MSR s)) = dev s"
  by (simp add: io_simps FDC_PRIM_MSR_def FDC_PRIM_FIFO_def)

lemma dev_send:
  assumes "floppy_ok h img"
  shows "dev (snd (fdc_send_command h c s)) = fifo_in c (dev s)"
    and "calm s (snd (fdc_send_command h c s))"
  unfolding fdc_send_ready [OF assms]
  by (simp_all add: io_simps FDC_PRIM_MSR_def FDC_PRIM_FIFO_def)
    (rule calm_trans [OF calm_inb calm_outb])

lemma dev_send_all:
  assumes "floppy_ok h img"
  shows "dev (fdc_send_all h cs s) = fold fifo_in cs (dev s)"
    and "calm s (fdc_send_all h cs s)"
proof -
  have "dev (fdc_send_all h cs s) = fold fifo_in cs (dev s) \<and> calm s (fdc_send_all h cs s)"
  proof (induction cs arbitrary: s)
    case (Cons c cs)
    show ?case
      using Cons.IH [of "snd (fdc_send_command h c s)"] dev_send [OF assms, where c = c and s = s]
      by (auto simp: fdc_send_all_def intro: calm_trans)
  qed (simp add: fdc_send_all_def)
  then show "dev (fdc_send_all h cs s) = fold fifo_in cs (dev s)" "calm s (fdc_send_all h cs s)"
    by simp_all
qed

lemma dev_read:
  assumes "floppy_ok h img"
  shows "dev (snd (fdc_read_fifo h s)) = fifo_out (dev s)"
    and "calm s (snd (fdc_read_fifo h s))"
    and "phase (dev s) = SenseRes 1 \<Longrightarrow> fst (fdc_read_fifo h s) = cur_cyl (dev s)"
  unfolding fdc_read_ready [OF assms]
proof -
  show "dev (snd (inb h FDC_PRIM_FIFO (snd (inb h FDC_PRIM_MSR s)))) = fifo_out (dev s)"
    by (simp add: io_simps FDC_PRIM_MSR_def FDC_PRIM_FIFO_def)
  show "calm s (snd (inb h FDC_PRIM_FIFO (snd (inb h FDC_PRIM_MSR s))))"
    by (rule calm_trans [OF calm_inb calm_inb])
  assume "phase (dev s) = SenseRes 1"
  then have "phase (dev (snd (inb h FDC_PRIM_MSR s))) = SenseRes 1" by simp
  then have "hw_in h (io (snd (inb h FDC_PRIM_MSR s))) FDC_PRIM_FIFO
      = cur_cyl (dev (snd (inb h FDC_PRIM_MSR s)))"
    using assms unfolding floppy_ok_def Let_def by blast
  then show "fst (inb h FDC_PRIM_FIFO (snd (inb h FDC_PRIM_MSR s))) = cur_cyl (dev s)"
    by (simp add: inb_simps(3) del: fdev_of_Cons)
qed

text \<open>Sensing the interrupt reports the cylinder and leaves the controller idle.\<close>

lemma dev_sense:
  assumes ok: "floppy_ok h img" and ph: "\<forall>bs. phase (dev s) \<noteq> Collect bs"
  obtains st0 t where "fdc_sense_interrupt h s = (st0, ucast (cur_cyl (dev s)), t)"
    "calm s t" "dev t = (dev s)\<lparr>phase := Idle\<rparr>"
proof -
  define a where "a = snd (fdc_send_command h FDC_CMD_SENSE_INTERRUPT s)"
  define b where "b = snd (fdc_read_fifo h a)"
  define c where "c = snd (fdc_read_fifo h b)"
  have "fifo_in FDC_CMD_SENSE_INTERRUPT (dev s) = (dev s)\<lparr>phase := SenseRes 2\<rparr>"
    using ph by (cases "phase (dev s)")
      (simp_all add: fifo_in_def FDC_CMD_SENSE_INTERRUPT_def cmd_len_def opcode_def execute_def)
  then have a: "dev a = (dev s)\<lparr>phase := SenseRes 2\<rparr>" "calm s a"
    by (simp_all add: a_def dev_send [OF ok])
  have b: "dev b = (dev s)\<lparr>phase := SenseRes 1\<rparr>" "calm a b"
    using a by (simp_all add: b_def fifo_out_def dev_read [OF ok])
  have c: "dev c = (dev s)\<lparr>phase := Idle\<rparr>" "calm b c" "fst (fdc_read_fifo h b) = cur_cyl (dev s)"
    using b by (simp_all add: c_def fifo_out_def dev_read [OF ok])
  show ?thesis
    by (rule that [of "ucast (fst (fdc_read_fifo h a))" c])
      (use a b c in \<open>auto simp: fdc_sense_interrupt_def case_prod_unfold a_def [symmetric]
        b_def [symmetric] c_def [symmetric] intro: calm_trans\<close>)
qed

section \<open>Waiting\<close>

lemma dev_spin [simp]: "dev (spin h s) = dev s"
  using spin_log [of h s] fdev_of_quiet by auto

lemma spin_calm:
  assumes "floppy_ok h img" and "irqs_installed s" and "\<not> awaiting (dev s)"
  shows "calm s (spin h s)"
proof -
  have "IRQ6_FLOPPY \<notin> set (hw_irqs h (io s)) \<and> snd (hw_dma h (io s)) = []"
    using assms(1,3) unfolding floppy_ok_def Let_def awaiting_def
    by (cases "phase (dev s)") (auto dest!: spec [of _ "io s"])
  then show ?thesis using assms(2)
    by (auto simp: calm_def io_step_spin spin_kmem spin_fdc irqs_installed_def)
qed

lemma sleep_calm:
  assumes ok: "floppy_ok h img" and tick: "ticking h" and "irqs_installed s"
    and "\<not> awaiting (dev s)"
  obtains t where "sleep h ms s = Some t" "calm s t" "dev t = dev s"
proof -
  obtain t where t: "sleep h ms s = Some t"
    using sleep_total [OF tick] assms(3) unfolding irqs_installed_def by blast
  have "calm s t \<and> dev t = dev s"
  proof (rule sleep_loop_inv [where P = "\<lambda>t. calm s t \<and> dev t = dev s"])
    show "sleep_loop h (ticks s + ms * freq s div 1000) s = Some t"
      using t by (simp add: sleep_def Let_def)
    show "calm s (spin h u) \<and> dev (spin h u) = dev s" if "calm s u \<and> dev u = dev s" for u
      using that assms spin_calm [OF ok, of u] by (auto simp: calm_installed intro: calm_trans)
  qed simp
  then show ?thesis using t that by blast
qed

lemma floppy_await:
  assumes "floppy_ok h img" and "phase (fdev_of l) = Await bs"
  shows "\<exists>k. irq_soon h l k"
    and "IRQ6_FLOPPY \<notin> set (hw_irqs h l) \<or> opcode bs \<noteq> 0x06 \<Longrightarrow> snd (hw_dma h l) = []"
    and "IRQ6_FLOPPY \<in> set (hw_irqs h l) \<Longrightarrow> opcode bs = 0x06 \<Longrightarrow> read_set_up (fdev_of l) bs \<Longrightarrow>
      hw_dma h l = (dma_target (fdev_of l), img (chs_index (bs ! 2) (bs ! 3) (bs ! 4)))"
  using assms unfolding floppy_ok_def Let_def by (auto dest!: spec [of _ l])

text \<open>What an awaited command leaves in memory.\<close>

definition transferred :: "(nat \<Rightarrow> u8 list) \<Rightarrow> fdev \<Rightarrow> u8 list \<Rightarrow> mem \<Rightarrow> mem" where
  "transferred img d bs m =
     (if opcode bs = 0x06 then put m (dma_target d) (img (chs_index (bs ! 2) (bs ! 3) (bs ! 4)))
      else m)"

lemma wait_now:
  assumes ok: "floppy_ok h img" and "irqs_installed s" and "fdc_irq_fired s = 0"
    and ph: "phase (dev s) = Await bs" and set: "opcode bs = 0x06 \<longrightarrow> read_set_up (dev s) bs"
    and irq: "IRQ6_FLOPPY \<in> set (hw_irqs h (io s))"
  shows "\<exists>t. fdc_wait_for_irq h s = Some t \<and> io_step s t \<and> dev t = dev s \<and> fdc_irq_fired t = 0 \<and>
      kmem t = transferred img (dev s) bs (kmem s)"
proof -
  have fired: "fdc_irq_fired (spin h s) = 1"
    using assms(2) irq by (auto simp: spin_fdc irqs_installed_def)
  have "kmem (spin h s) = transferred img (dev s) bs (kmem s)"
    using floppy_await [OF ok ph] irq set by (auto simp: spin_kmem transferred_def)
  moreover have "fdc_wait_for_irq h s = Some ((spin h s)\<lparr>fdc_irq_fired := 0\<rparr>)"
    using assms(3) fired
    by (simp add: fdc_wait_for_irq.simps [of h s] fdc_wait_for_irq.simps [of h "spin h s"])
  moreover have "io_step s ((spin h s)\<lparr>fdc_irq_fired := 0\<rparr>)"
    by (rule io_stepI) (simp_all add: io_simps)
  ultimately show ?thesis by simp
qed

lemma wait_soon:
  assumes ok: "floppy_ok h img"
  shows "irq_soon h (io s) k \<Longrightarrow> irqs_installed s \<Longrightarrow> fdc_irq_fired s = 0 \<Longrightarrow> phase (dev s) = Await bs \<Longrightarrow>
    opcode bs = 0x06 \<longrightarrow> read_set_up (dev s) bs \<Longrightarrow>
    \<exists>t. fdc_wait_for_irq h s = Some t \<and> io_step s t \<and> dev t = dev s \<and> fdc_irq_fired t = 0 \<and>
      kmem t = transferred img (dev s) bs (kmem s)"
proof (induction k arbitrary: s)
  case 0
  then show ?case by (intro wait_now [OF ok] irq_soon_0)
next
  case (Suc k)
  show ?case
  proof (cases "IRQ6_FLOPPY \<in> set (hw_irqs h (io s))")
    case True
    then show ?thesis using Suc.prems by (intro wait_now [OF ok])
  next
    case False
    have "snd (hw_dma h (io s)) = []" using floppy_await(2) [OF ok Suc.prems(4)] False by blast
    then have sp: "calm s (spin h s)"
      using False Suc.prems(2)
      by (auto simp: calm_def io_step_spin spin_kmem spin_fdc irqs_installed_def)
    obtain a where a: "io (spin h s) = a @ io s" "spins_in a = 1" "quiet_log a"
      using spin_log [of h s] by blast
    have soon: "irq_soon h (io (spin h s)) k"
      unfolding a(1) by (rule irq_soon_Suc [OF Suc.prems(1) a(2,3)])
    from sp have kf: "kmem (spin h s) = kmem s" "fdc_irq_fired (spin h s) = fdc_irq_fired s"
      by (simp_all add: calm_def)
    obtain t where t: "fdc_wait_for_irq h (spin h s) = Some t" "io_step (spin h s) t" "dev t = dev s"
      "fdc_irq_fired t = 0" "kmem t = transferred img (dev s) bs (kmem s)"
      using Suc.IH [OF soon] Suc.prems calm_installed [OF sp] kf by auto
    have "fdc_wait_for_irq h s = fdc_wait_for_irq h (spin h s)"
      using Suc.prems(3) by (simp add: fdc_wait_for_irq.simps [of h s])
    then show ?thesis using t io_step_trans [OF io_step_spin t(2)] by auto
  qed
qed

text \<open>The state between commands: handlers installed, no interrupt pending, controller idle.\<close>

definition settled :: "'z mach_scheme \<Rightarrow> bool" where
  "settled s \<longleftrightarrow> irqs_installed s \<and> fdc_irq_fired s = 0 \<and> phase (dev s) = Idle"

lemma wait_sense:
  assumes ok: "floppy_ok h img" and "irqs_installed s" "fdc_irq_fired s = 0"
    and ph: "phase (dev s) = Await bs" and op: "opcode bs \<noteq> 0x06"
  obtains u t st0 where "fdc_wait_for_irq h s = Some u"
    "fdc_sense_interrupt h u = (st0, ucast (cur_cyl (dev s)), t)"
    "io_step s t" "settled t" "kmem t = kmem s" "dev t = (dev s)\<lparr>phase := Idle\<rparr>"
proof -
  obtain k where "irq_soon h (io s) k" using floppy_await(1) [OF ok ph] by blast
  from wait_soon [OF ok this assms(2,3) ph] op
  obtain u where u: "fdc_wait_for_irq h s = Some u" "io_step s u" "dev u = dev s"
    "fdc_irq_fired u = 0" "kmem u = kmem s"
    by (auto simp: transferred_def)
  have "\<forall>bs. phase (dev u) \<noteq> Collect bs" using u(3) ph by simp
  from dev_sense [OF ok this] obtain st0 t where
    t: "fdc_sense_interrupt h u = (st0, ucast (cur_cyl (dev u)), t)" "calm u t"
      "dev t = (dev u)\<lparr>phase := Idle\<rparr>" by blast
  have "io_step s t" using t(2) u(2) unfolding calm_def by (blast intro: io_step_trans)
  then show ?thesis
    using that [of u st0 t] u t assms(2) by (auto simp: settled_def calm_def io_step_installed)
qed

section \<open>Seeking\<close>

lemma fifo_seek:
  assumes "phase d = Idle"
  shows "fold fifo_in [FDC_CMD_SEEK, x, c] d = d\<lparr>phase := Await [FDC_CMD_SEEK, x, c], cur_cyl := c\<rparr>"
  using assms
  by (simp add: fifo_in_def cmd_len_def opcode_def execute_def FDC_CMD_SEEK_def)

lemma seek_found:
  assumes ok: "floppy_ok h img" and s: "settled s"
  obtains t where "fdc_seek h c side s = Some (0, t)" "io_step s t" "settled t" "kmem t = kmem s"
    "dev t = (dev s)\<lparr>cur_cyl := c\<rparr>"
proof -
  let ?bs = "[FDC_CMD_SEEK, push_bit 2 side OR fdc_current_drive s, c]"
  let ?a = "fdc_send_all h ?bs s"
  have "phase (dev s) = Idle" using s by (simp add: settled_def)
  from fifo_seek [OF this] have a: "dev ?a = (dev s)\<lparr>phase := Await ?bs, cur_cyl := c\<rparr>"
    "calm s ?a" by (simp_all only: dev_send_all [OF ok])
  have op: "opcode ?bs \<noteq> 0x06" by (simp add: opcode_def FDC_CMD_SEEK_def)
  have pre: "irqs_installed ?a" "fdc_irq_fired ?a = 0" "phase (dev ?a) = Await ?bs"
    using a s calm_installed [OF a(2)] by (simp_all add: settled_def calm_def)
  from wait_sense [OF ok pre op] obtain u t st0 where
    t: "fdc_wait_for_irq h ?a = Some u"
      "fdc_sense_interrupt h u = (st0, ucast (cur_cyl (dev ?a)), t)"
      "io_step ?a t" "settled t" "kmem t = kmem ?a" "dev t = (dev ?a)\<lparr>phase := Idle\<rparr>"
    by blast
  note t = t [unfolded a(1), simplified]
  have "fdc_seek_loop h c side (Suc 9) s = Some (0, t)"
    by (subst fdc_seek_loop.simps(2)) (simp add: t)
  moreover have "io_step s t" using a(2) t(3) unfolding calm_def by (blast intro: io_step_trans)
  ultimately show ?thesis
    using that [of t] t(4,5,6) a(2) \<open>phase (dev s) = Idle\<close>
    by (cases "dev s") (simp add: fdc_seek_def calm_def)
qed

section \<open>Reading\<close>

lemma calm_fdc_init_dma: "calm s (fdc_init_dma n w s)"
  by (auto simp: fdc_init_dma_def Let_def dma_mask_channel_def dma_reset_flipflop_def
      dma_set_address_def dma_set_count_def dma_set_external_pagereg_def dma_setup_write_def
      dma_setup_read_def dma_set_mode_def dma_unmask_all_def calm_def io_simps
      intro!: io_stepI split: option.splits)

lemma dma_chan2_regs:
  "dma_addr_port DMA_CHAN_FLOPPY = Some 0x04" "dma_count_port DMA_CHAN_FLOPPY = Some 0x05"
  "dma_page_port DMA_CHAN_FLOPPY = Some 0x81" "at_page_port 2 = Some 0x81"
  "dma_addr_port 2 = Some 0x04" "dma_count_port 2 = Some 0x05"
  by (simp_all add: dma_addr_port_def dma_count_port_def dma_page_port_def at_page_port_def
      DMA_CHAN_FLOPPY_def)

text \<open>The writes of \<open>fdc_init_dma\<close>, in order.\<close>

definition dma_writes :: "u16 \<Rightarrow> bool \<Rightarrow> (u16 \<times> u8) list" where
  "dma_writes n w =
     [(0x0A, 0x06), (0x0C, 0xFF), (0x04, 0x00), (0x04, 0x10), (0x0C, 0xFF), (0x05, BYTE_LOW n),
      (0x05, BYTE_HIGH n), (0x81, 0x00), (0x0A, 0x06), (0x0B, if w then 0x4A else 0x46),
      (0x0E, 0), (0x0E, 0)]"

lemma fdc_init_dma_io:
  "io (fdc_init_dma n w s) = rev (map (\<lambda>(p, v). Out p v) (dma_writes n w)) @ io s"
  unfolding fdc_init_dma_def Let_def dma_writes_def
  by (simp add: dma_mask_channel_def dma_reset_flipflop_def
      dma_set_address_def dma_set_count_def dma_set_external_pagereg_def dma_setup_write_def
      dma_setup_read_def dma_set_mode_def dma_unmask_all_def io_simps dma_chan2_regs
      DMAC0_REG_CHANMASK_def DMAC0_REG_CLEARFLIPFLOP_def DMAC0_REG_CLEARMASK_def
      DMAC0_REG_MODE_def DMA_MODE_READ_def DMA_MODE_WRITE_def DMA_MODE_SINGLE_def
      FLOPPY_DMA_BUFFER_def BYTE_LOW_def BYTE_HIGH_def Let_def)
    (simp add: DMA_CHAN_FLOPPY_def)

lemma dmac_latch_0x1000: "latch True (latch False x 0x00) 0x10 = 0x1000"
  using latch_bytes [of x "0x1000"] by (simp add: BYTE_LOW_def BYTE_HIGH_def)

lemma dma_programmed:
  "dmac_run (dma_writes n w) d =
     d\<lparr>flip0 := False,
       chan_masked := (\<lambda>c. if c < 4 then False else chan_masked d c),
       chan_addr := (chan_addr d)(2 := 0x1000),
       chan_count := (chan_count d)(2 := n),
       chan_page := (chan_page d)(2 := 0),
       chan_mode := (chan_mode d)(2 := if w then 0x48 else 0x44)\<rparr>"
proof -
  have w: "dmac_write (0x0A, 0x06) e = e\<lparr>chan_masked := (chan_masked e)(2 := True)\<rparr>"
    "dmac_write (0x0C, 0xFF) e = e\<lparr>flip0 := False\<rparr>"
    "dmac_write (0x0B, v) e = e\<lparr>chan_mode := (chan_mode e)(v AND 3 := v AND 0xFC)\<rparr>"
    "dmac_write (0x0E, 0) e =
       e\<lparr>chan_masked := (\<lambda>c. if c < 4 then False else chan_masked e c)\<rparr>" for e v
    by (simp_all add: dmac_write_def dma_regs bit_iff_odd)
  show ?thesis
    unfolding dma_writes_def
    by (rule dmac.equality) (auto simp: w dmac_write_addr [OF dma_chan2_regs(5)] dmac_write_count [OF dma_chan2_regs(6)]
        dmac_write_page [OF dma_chan2_regs(4)] toggle_def flip_of_def latch_bytes dmac_latch_0x1000
        fun_eq_iff)
qed

lemma dev_dma_run:
  "\<forall>(p, v) \<in> set ws. p \<noteq> FDC_PRIM_FIFO \<and> p \<noteq> FDC_PRIM_DOR \<Longrightarrow>
   fdev_of (rev (map (\<lambda>(p, v). Out p v) ws) @ l) = (fdev_of l)\<lparr>dev_dma := dmac_run ws (dev_dma (fdev_of l))\<rparr>"
proof (induction ws arbitrary: l)
  case (Cons w ws)
  then show ?case by (cases w) simp
qed simp

lemma dev_fdc_init_dma:
  "dev (fdc_init_dma n w s) = (dev s)\<lparr>dev_dma := dmac_run (dma_writes n w) (dev_dma (dev s))\<rparr>"
  unfolding fdc_init_dma_io
  by (rule dev_dma_run) (simp add: dma_writes_def FDC_PRIM_FIFO_def FDC_PRIM_DOR_def)

lemma dev_reads:
  assumes "floppy_ok h img"
  shows "dev (((\<lambda>s. snd (fdc_read_fifo h s)) ^^ n) s) = (fifo_out ^^ n) (dev s) \<and>
    calm s (((\<lambda>s. snd (fdc_read_fifo h s)) ^^ n) s)"
proof (induction n)
  case (Suc n)
  then show ?case
    by (auto simp: dev_read(1) [OF assms] intro: calm_trans dev_read(2) [OF assms])
qed simp

lemma fifo_read:
  assumes "phase d = Idle"
  shows "fold fifo_in [0xE6, x, c, sd, r, b, e, g, l] d = d\<lparr>phase := Await [0xE6, x, c, sd, r, b, e, g, l]\<rparr>"
  using assms by (simp add: fifo_in_def cmd_len_def opcode_def execute_def)

lemma result_phase:
  assumes "phase d = Await bs" and "opcode bs = 0x06"
  shows "(fifo_out ^^ 7) d = d\<lparr>phase := Idle\<rparr>"
  using assms by (simp add: fifo_out_def numeral_eq_Suc)

lemma head_and_drive:
  fixes side drive :: u8
  assumes "side < 2" and "drive \<le> 3"
  shows "drop_bit 2 (push_bit 2 side OR drive) AND 1 = side"
proof -
  have "unat side \<in> {0, 1}" "unat drive \<in> {0, 1, 2, 3}"
    using assms by (auto simp: word_less_nat_alt word_le_nat_alt)
  then have "side \<in> {0, 1}" "drive \<in> {0, 1, 2, 3}"
    by (simp_all add: word_unat_eq_iff)
  then show ?thesis by auto
qed

lemma read_chs:
  assumes ok: "floppy_ok h img" and s: "settled s" and cyl: "cur_cyl (dev s) = track" "track < 80"
    and side: "side < 2" and sec: "1 \<le> sector" "sector \<le> 18" and drv: "fdc_current_drive s \<le> 3"
  obtains t where "fdc_read_sector_chs h side track sector s = Some t" "io_step s t" "settled t"
    "kmem t = put (kmem s) FLOPPY_DMA_BUFFER (img (chs_index track side sector))"
proof -
  define eot :: u8 where "eot = (if unat sector + 1 \<ge> 18 then 18 else sector + 1)"
  let ?a = "fdc_init_dma 511 False s"
  let ?x = "push_bit 2 side OR fdc_current_drive s"
  let ?bs = "[0xE6, ?x, track, side, sector, FDC_BPS_512,
    eot, FDC_GPL_3_5, 0xff]"
  let ?b = "fdc_send_all h ?bs ?a"
  have ca: "calm s ?a" by (rule calm_fdc_init_dma)
  have da: "dev ?a = (dev s)\<lparr>dev_dma := dmac_run (dma_writes 511 False) (dev_dma (dev s))\<rparr>"
    by (rule dev_fdc_init_dma)
  then have "phase (dev ?a) = Idle" using s by (simp add: settled_def)
  from fifo_read [OF this] have db: "dev ?b = (dev ?a)\<lparr>phase := Await ?bs\<rparr>" and cb: "calm ?a ?b"
    by (simp_all only: dev_send_all [OF ok])
  have cab: "calm s ?b" by (rule calm_trans [OF ca cb])
  have drive: "fdc_current_drive ?a = fdc_current_drive s"
    using ca by (simp add: calm_def io_step_driver_fields)
  have cmd: "FDC_CMD_READ_SECTOR OR FDC_EXT_DD OR FDC_EXT_MT OR FDC_EXT_SD = 0xE6"
    by (simp add: FDC_CMD_READ_SECTOR_def FDC_EXT_DD_def FDC_EXT_MT_def FDC_EXT_SD_def)
  have op: "opcode ?bs = 0x06" by (simp add: opcode_def)
  have ready: "read_set_up (dev ?b) ?bs"
  proof -
    obtain d where d: "dev ?b = d" by blast
    have "cur_cyl d = track" "dev_dma d = dmac_run (dma_writes 511 False) (dev_dma (dev s))"
      using cyl(1) by (simp_all add: d [symmetric] db da)
    then show ?thesis
      unfolding d using cyl side sec head_and_drive [OF side drv]
      by (simp add: read_set_up_def dma_programmed FDC_BPS_512_def)
  qed
  have pre: "irqs_installed ?b" "fdc_irq_fired ?b = 0" "phase (dev ?b) = Await ?bs"
    using db s calm_installed [OF cab] cab by (simp_all add: settled_def calm_def)
  obtain k where "irq_soon h (io ?b) k" using floppy_await(1) [OF ok pre(3)] by blast
  from wait_soon [OF ok this pre] ready obtain u where
    u: "fdc_wait_for_irq h ?b = Some u" "io_step ?b u" "dev u = dev ?b" "fdc_irq_fired u = 0"
      "kmem u = transferred img (dev ?b) ?bs (kmem ?b)" by blast
  let ?v = "((\<lambda>s. snd (fdc_read_fifo h s)) ^^ 7) u"
  have dv: "dev ?v = (dev ?b)\<lparr>phase := Idle\<rparr>" and cv: "calm u ?v"
    using dev_reads [OF ok, of 7 u] result_phase [OF pre(3) op] by (simp_all add: u(3))
  have "\<forall>bs. phase (dev ?v) \<noteq> Collect bs" by (simp add: dv)
  from dev_sense [OF ok this] obtain st0 t where
    t: "fdc_sense_interrupt h ?v = (st0, ucast (cur_cyl (dev ?v)), t)" "calm ?v t"
      "dev t = (dev ?v)\<lparr>phase := Idle\<rparr>" by blast
  have ut: "calm u t" by (rule calm_trans [OF cv t(2)])
  have st: "io_step s t"
    using cab u(2) ut unfolding calm_def by (blast intro: io_step_trans)
  have "dma_target (dev ?b) = FLOPPY_DMA_BUFFER"
    by (simp add: dma_target_def db da dma_programmed FLOPPY_DMA_BUFFER_def)
  then have mem: "kmem t = put (kmem s) FLOPPY_DMA_BUFFER (img (chs_index track side sector))"
    using ut u(5) op cab by (simp add: calm_def transferred_def)
  have "settled t"
    using s io_step_installed [OF st] ut u(4) t(3) by (simp add: settled_def calm_def)
  moreover have "fdc_read_sector_chs h side track sector s = Some t"
    unfolding fdc_read_sector_chs_def Let_def drive cmd eot_def [symmetric] using u(1) t(1) by simp
  ultimately show ?thesis using that st mem by blast
qed

section \<open>Addresses\<close>

lemma chs_nat: "(n div 36 * 2 + n mod 36 div 18) * 18 + n mod 18 = (n :: nat)"
proof -
  have "n mod 36 = 18 * (n div 18 mod 2) + n mod 18" using mod_mult2_eq [of n 18 2] by simp
  then have "n mod 36 div 18 = n div 18 mod 2" by simp
  moreover have "n div 36 = n div 18 div 2" using div_mult2_eq [of n 18 2] by simp
  ultimately show ?thesis by simp
qed

lemma lba_parts:
  fixes lba :: u32
  assumes "unat lba < 9216"
  shows "fdc_lba_to_chs lba = (c, side, sec) \<Longrightarrow>
    unat c = unat lba div 36 \<and> unat side = unat lba mod 36 div 18 \<and> unat sec = unat lba mod 18 + 1"
proof -
  assume *: "fdc_lba_to_chs lba = (c, side, sec)"
  have d: "unat (lba div 36) = unat lba div 36" by (simp add: unat_div_distrib)
  then have "unat (lba div 36) < 256" using assms by simp
  then have "unat (ucast (ucast (lba div 36) :: u8) :: u32) = unat lba div 36"
    by (simp add: unsigned_ucast_eq unsigned_take_bit_eq take_bit_nat_eq_self d)
  moreover have "unat (lba mod 36 div 18) = unat lba mod 36 div 18"
    by (simp add: unat_div_distrib unat_mod_distrib)
  moreover have "unat (lba mod 36 mod 18) = unat lba mod 18"
    by (simp add: unat_mod_distrib mod_mod_cancel)
  moreover have "unat (lba mod 36 mod 18 + 1) = Suc (unat (lba mod 36 mod 18))"
    by (rule unat_Suc_less [of _ 18]) (simp add: word_less_nat_alt unat_mod_distrib)
  ultimately show ?thesis using * by (auto simp: fdc_lba_to_chs_def)
qed

text \<open>C40: \<open>fdc_lba_to_chs\<close> is the numbering of sectors by cylinder, head and sector: for every block
  below 9216 the head is 0 or 1, the sector 1 to 18, and the three give the block back, so distinct
  blocks have distinct addresses; on the 2880 blocks of a diskette the cylinder is below 80.\<close>

theorem fdc_lba_to_chs_bijective:
  assumes "unat lba < 9216" and "fdc_lba_to_chs lba = (c, side, sec)"
  shows "unat side < 2 \<and> 1 \<le> unat sec \<and> unat sec \<le> 18 \<and>
    (unat c * 2 + unat side) * 18 + (unat sec - 1) = unat lba \<and> (unat lba < 2880 \<longrightarrow> unat c < 80)"
proof -
  note p = lba_parts [OF assms]
  have "(unat c * 2 + unat side) * 18 + (unat sec - 1) = unat lba"
    using p chs_nat [of "unat lba"] by simp
  moreover have "unat lba mod 36 < 36" "unat lba mod 18 < 18" by simp_all
  ultimately show ?thesis using p by (auto simp: less_mult_imp_div_less)
qed

theorem fdc_lba_to_chs_bijective_witness:
  "unat (1 :: u32) < 2 \<and> (79 * 2 + unat (1 :: u32)) * 18 + (18 - 1) = unat (2879 :: u32)"
  using fdc_lba_to_chs_bijective [of 2879 79 1 18] by (simp add: fdc_lba_to_chs_def)

section \<open>Reading a sector\<close>

lemma motor_calm:
  assumes ok: "floppy_ok h img" and tick: "ticking h" and s: "settled s" and drv: "drive \<le> 3"
  obtains t where "fdc_control_motor h drive on s = Some t" "calm s t" "dev t = dev s"
proof -
  have "unat drive \<in> {0, 1, 2, 3}" using drv by (auto simp: word_le_nat_alt)
  then have "drive \<in> {0, 1, 2, 3}" by (simp add: word_unat_eq_iff)
  then obtain v where v: "fdc_control_motor h drive on s = sleep h 10 (outb v FDC_PRIM_DOR s)" "bit v 2"
    by (auto simp: fdc_control_motor_def FDC_DOR_MOTOR_MASK_def fdc_write_dor_def Let_def
        FDC_DOR_IRQ_DMA_def FDC_DOR_ENABLE_def bit_iff_odd)
  let ?a = "outb v FDC_PRIM_DOR s"
  have a: "dev ?a = dev s"
    using v(2) s by (simp add: io_simps FDC_PRIM_DOR_def FDC_PRIM_FIFO_def dor_write_def settled_def)
  have ca: "calm s ?a" by (rule calm_outb)
  have "irqs_installed ?a" "\<not> awaiting (dev ?a)"
    using s calm_installed [OF ca] a by (simp_all add: settled_def awaiting_def)
  from sleep_calm [OF ok tick this] obtain t where "sleep h 10 ?a = Some t" "calm ?a t" "dev t = dev ?a"
    by blast
  then show ?thesis using that v(1) a calm_trans [OF ca] by auto
qed

lemma settled_calm: "settled s \<Longrightarrow> calm s t \<Longrightarrow> dev t = dev s \<Longrightarrow> settled t"
  by (simp add: settled_def calm_installed) (simp add: calm_def)

lemma read_sector_ok:
  assumes ok: "floppy_ok h img" and tick: "ticking h" and s: "settled s"
    and drv: "fdc_current_drive s \<le> 3" and lba: "unat lba < 2880" and buf: "buf \<noteq> NULL"
    and map: "mapped (kmem s) buf 512"
    and ap: "apart buf 512 FLOPPY_DMA_BUFFER 512" and len: "length (img (unat lba)) = 512"
  obtains t where "fdc_read_sector h lba buf s = Some (0, t)" "io_step s t" "settled t"
    "kmem t = put (put (kmem s) FLOPPY_DMA_BUFFER (img (unat lba))) buf (img (unat lba))"
proof -
  obtain c side sec where chs: "fdc_lba_to_chs lba = (c, side, sec)" by (cases "fdc_lba_to_chs lba")
  have lba': "unat lba < 9216" using lba by simp
  note p = lba_parts [OF lba' chs]
  have small: "unat c < 80" "unat side < 2" "1 \<le> unat sec" "unat sec \<le> 18"
    using p lba by (auto simp: less_mult_imp_div_less)
  let ?c = "ucast c :: u8" and ?hd = "ucast side :: u8" and ?r = "ucast sec :: u8"
  have u: "unat ?c = unat c" "unat ?hd = unat side" "unat ?r = unat sec"
    using small by (simp_all add: unsigned_ucast_eq take_bit_nat_eq_self)
  have rng: "?c < 80" "?hd < 2" "1 \<le> ?r" "?r \<le> 18"
    using small u by (simp_all add: word_less_nat_alt word_le_nat_alt)
  have idx: "chs_index ?c ?hd ?r = unat lba"
    using p chs_nat [of "unat lba"] by (simp add: chs_index_def u)
  obtain s1 where s1: "fdc_control_motor h (fdc_current_drive s) True s = Some s1" "calm s s1"
    "dev s1 = dev s" by (rule motor_calm [OF ok tick s drv])
  have set1: "settled s1" by (rule settled_calm [OF s s1(2,3)])
  obtain s2 where s2: "fdc_seek h ?c ?hd s1 = Some (0, s2)" "io_step s1 s2" "settled s2"
    "kmem s2 = kmem s1" "dev s2 = (dev s1)\<lparr>cur_cyl := ?c\<rparr>"
    by (rule seek_found [OF ok set1])
  have st2: "io_step s s2" using s1(2) s2(2) unfolding calm_def by (blast intro: io_step_trans)
  have drv2: "fdc_current_drive s2 \<le> 3" using drv io_step_driver_fields(1) [OF st2] by simp
  have cyl: "cur_cyl (dev s2) = ?c" using s2(5) by simp
  obtain s3 where s3: "fdc_read_sector_chs h ?hd ?c ?r s2 = Some s3" "io_step s2 s3" "settled s3"
    "kmem s3 = put (kmem s2) FLOPPY_DMA_BUFFER (img (chs_index ?c ?hd ?r))"
    by (rule read_chs [OF ok s2(3) cyl rng drv2])
  have st3: "io_step s s3" by (rule io_step_trans [OF st2 s3(2)])
  have drv3: "fdc_current_drive s3 \<le> 3" using drv io_step_driver_fields(1) [OF st3] by simp
  obtain s4 where s4: "fdc_control_motor h (fdc_current_drive s3) False s3 = Some s4" "calm s3 s4"
    "dev s4 = dev s3" by (rule motor_calm [OF ok tick s3(3) drv3])
  have set4: "settled s4" by (rule settled_calm [OF s3(3) s4(2,3)])
  have mem4: "kmem s4 = put (kmem s) FLOPPY_DMA_BUFFER (img (unat lba))"
    using s1(2) s2(4) s3(4) s4(2) by (simp add: calm_def idx)
  have "fetch (kmem s4) FLOPPY_DMA_BUFFER 512 = Some (img (unat lba))"
    using fetch_put_same [of "img (unat lba)" "kmem s" FLOPPY_DMA_BUFFER] len by (simp add: mem4)
  moreover have "mapped (kmem s4) buf 512" unfolding mem4 by (rule mapped_put [OF map])
  ultimately have cp: "memcpy (kmem s4) buf FLOPPY_DMA_BUFFER 512
      = Some (buf, put (kmem s4) buf (img (unat lba)))"
    using ap by (intro memcpy_put) simp_all
  let ?t = "s4\<lparr>kmem := put (kmem s4) buf (img (unat lba))\<rparr>"
  have "io_step s4 ?t" by (rule io_stepI) simp_all
  then have "io_step s ?t" using st3 s4(2) unfolding calm_def by (blast intro: io_step_trans)
  moreover have "settled ?t" using set4 by (simp add: settled_def irqs_installed_def timer_installed_def)
  moreover have "fdc_read_sector h lba buf s = Some (0, ?t)"
    unfolding fdc_read_sector_def chs using s1(1) s2(1) s3(1) s4(1) cp buf by simp
  ultimately show ?thesis using that mem4 by simp
qed

text \<open>C10: on a working drive \<open>fdc_read_sector\<close> of any of the 2880 blocks returns 0 and the caller's
  buffer holds exactly that sector of the disk. The motor, the seek, the DMA channel, the command
  and its results, the interrupt and the copy are all part of the statement: besides the buffer
  and the DMA buffer no byte of memory changes, the driver is ready for the next operation, and
  only the log, the tick counter and memory differ from before.\<close>

theorem fdc_read_sector_reads:
  assumes "floppy_ok h img" and "ticking h" and "settled s" and "fdc_current_drive s \<le> 3"
    and "unat lba < 2880" and "buf \<noteq> NULL" and "mapped (kmem s) buf 512"
    and "apart buf 512 FLOPPY_DMA_BUFFER 512" and "length (img (unat lba)) = 512"
  shows "\<exists>t. fdc_read_sector h lba buf s = Some (0, t) \<and>
    fetch (kmem t) buf 512 = Some (img (unat lba)) \<and>
    kmem t = put (put (kmem s) FLOPPY_DMA_BUFFER (img (unat lba))) buf (img (unat lba)) \<and>
    settled t \<and> io_step s t"
proof -
  obtain t where t: "fdc_read_sector h lba buf s = Some (0, t)" "io_step s t" "settled t"
    "kmem t = put (put (kmem s) FLOPPY_DMA_BUFFER (img (unat lba))) buf (img (unat lba))"
    by (rule read_sector_ok [OF assms])
  have "fetch (kmem t) buf 512 = Some (img (unat lba))"
    using fetch_put_same [of "img (unat lba)" _ buf] assms(9) by (simp add: t(4))
  with t show ?thesis by blast
qed

section \<open>Reset and initialisation\<close>

text \<open>\<open>_fdc_init_dma\<close> programs channel 2 with the DMA buffer's address, the count, page 0 and
  single transfers in the right direction, leaves the flip-flop clear and every channel of
  controller 0 enabled, and changes nothing else: in particular no register of another channel.\<close>

lemma fdc_init_dma_programs:
  "\<exists>ws. outs (fdc_init_dma n w s) = outs s @ ws \<and>
    dmac_run ws d =
     d\<lparr>flip0 := False,
       chan_masked := (\<lambda>c. if c < 4 then False else chan_masked d c),
       chan_addr := (chan_addr d)(2 := ucast FLOPPY_DMA_BUFFER),
       chan_count := (chan_count d)(2 := n),
       chan_page := (chan_page d)(2 := 0),
       chan_mode := (chan_mode d)(2 := if w then 0x48 else 0x44)\<rparr>"
proof -
  have "outs_of (rev (map (\<lambda>(p, v). Out p v) ws) @ l) = outs_of l @ ws" for ws l
    by (induction ws arbitrary: l) auto
  then show ?thesis
    by (intro exI [of _ "dma_writes n w"])
      (simp add: fdc_init_dma_io dma_programmed FLOPPY_DMA_BUFFER_def)
qed

lemma recalibrate_ok:
  assumes ok: "floppy_ok h img" and tick: "ticking h" and s: "settled s" and drv: "drive \<le> 3"
  obtains t where "fdc_recalibrate h drive s = Some (0, t)" "io_step s t" "settled t"
    "kmem t = kmem s" "cur_cyl (dev t) = 0"
proof -
  obtain a where a: "fdc_control_motor h drive True s = Some a" "calm s a" "dev a = dev s"
    by (rule motor_calm [OF ok tick s drv])
  have sa: "settled a" by (rule settled_calm [OF s a(2,3)])
  let ?bs = "[FDC_CMD_RECALIBRATE, drive]"
  let ?b = "fdc_send_all h ?bs a"
  have b: "dev ?b = (dev a)\<lparr>phase := Await ?bs, cur_cyl := 0\<rparr>" "calm a ?b"
    using sa by (simp_all add: dev_send_all [OF ok])
      (simp add: settled_def fifo_in_def cmd_len_def opcode_def execute_def FDC_CMD_RECALIBRATE_def)
  have op: "opcode ?bs \<noteq> 0x06" by (simp add: opcode_def FDC_CMD_RECALIBRATE_def)
  have pre: "irqs_installed ?b" "fdc_irq_fired ?b = 0" "phase (dev ?b) = Await ?bs"
    using b sa calm_installed [OF b(2)] by (simp_all add: settled_def calm_def)
  from wait_sense [OF ok pre op] obtain u c st0 where
    c: "fdc_wait_for_irq h ?b = Some u"
      "fdc_sense_interrupt h u = (st0, ucast (cur_cyl (dev ?b)), c)"
      "io_step ?b c" "settled c" "kmem c = kmem ?b" "dev c = (dev ?b)\<lparr>phase := Idle\<rparr>"
    by blast
  obtain t where t: "fdc_control_motor h drive False c = Some t" "calm c t" "dev t = dev c"
    by (rule motor_calm [OF ok tick c(4) drv])
  have "fdc_recalibrate_loop h drive (Suc 9) a = Some (0, t)"
    using c(1,2) t(1) by (subst fdc_recalibrate_loop.simps(2)) (simp add: b(1))
  then have "fdc_recalibrate h drive s = Some (0, t)"
    using drv a(1) by (simp add: fdc_recalibrate_def)
  moreover have "io_step s t" using a(2) b(2) c(3) t(2) unfolding calm_def
    by (blast intro: io_step_trans)
  moreover have "kmem t = kmem s" using a(2) b(2) c(5) t(2) by (simp add: calm_def)
  ultimately show ?thesis
    using that [of t] settled_calm [OF c(4) t(2,3)] t(3) c(6) b(1) by simp
qed

lemma senses_ok:
  assumes ok: "floppy_ok h img" and ph: "\<forall>bs. phase (dev s) \<noteq> Collect bs"
  shows "calm s (((\<lambda>s. snd (snd (fdc_sense_interrupt h s))) ^^ n) s) \<and>
    phase (dev (((\<lambda>s. snd (snd (fdc_sense_interrupt h s))) ^^ n) s)) =
      (if n = 0 then phase (dev s) else Idle)"
proof (induction n)
  case (Suc n)
  let ?a = "((\<lambda>s. snd (snd (fdc_sense_interrupt h s))) ^^ n) s"
  have "\<forall>bs. phase (dev ?a) \<noteq> Collect bs" using Suc ph by (cases n) auto
  from dev_sense [OF ok this] obtain st0 t where
    "fdc_sense_interrupt h ?a = (st0, ucast (cur_cyl (dev ?a)), t)" "calm ?a t"
    "dev t = (dev ?a)\<lparr>phase := Idle\<rparr>" by blast
  then show ?case using Suc by (auto intro: calm_trans)
qed simp

lemma reset_ok:
  assumes ok: "floppy_ok h img" and tick: "ticking h" and s: "irqs_installed s" "fdc_irq_fired s = 0"
    and drv: "fdc_current_drive s \<le> 3"
  obtains t where "fdc_reset h s = Some t" "io_step s t" "settled t" "kmem t = kmem s"
    "cur_cyl (dev t) = 0"
proof -
  let ?a = "fdc_enable (fdc_disable s)"
  have ca: "calm s ?a"
    unfolding fdc_enable_def fdc_disable_def fdc_write_dor_def
    by (rule calm_trans [OF calm_outb calm_outb])
  have pa: "phase (dev ?a) = Await []"
    by (simp add: fdc_enable_def fdc_disable_def fdc_write_dor_def io_simps FDC_PRIM_DOR_def
        FDC_PRIM_FIFO_def dor_write_def FDC_DOR_ENABLE_def FDC_DOR_IRQ_DMA_def FDC_DOR_DISABLE_def
        bit_iff_odd)
  have pre: "irqs_installed ?a" "fdc_irq_fired ?a = 0"
    using s calm_installed [OF ca] ca by (simp_all add: calm_def)
  obtain k where "irq_soon h (io ?a) k" using floppy_await(1) [OF ok pa] by blast
  from wait_soon [OF ok this pre pa] obtain u where
    u: "fdc_wait_for_irq h ?a = Some u" "io_step ?a u" "dev u = dev ?a" "fdc_irq_fired u = 0"
      "kmem u = kmem ?a" by (auto simp: opcode_def transferred_def)
  let ?b = "((\<lambda>s. snd (snd (fdc_sense_interrupt h s))) ^^ 4) u"
  have b: "calm u ?b" "phase (dev ?b) = Idle"
    using senses_ok [OF ok, of u 4] u(3) pa by simp_all
  let ?c = "fdc_write_ccr FDC_CCR_500KBPS ?b"
  have c: "calm ?b ?c" "phase (dev ?c) = Idle"
    using b(2) by (simp_all add: fdc_write_ccr_def calm_outb)
      (simp add: io_simps FDC_PRIM_CCR_def FDC_PRIM_FIFO_def FDC_PRIM_DOR_def)
  let ?d = "fdc_fix_drivedata h 3 16 240 True ?c"
  have d: "calm ?c ?d" "phase (dev ?d) = Idle"
    unfolding fdc_fix_drivedata_def dev_send_all(1) [OF ok]
    using dev_send_all(2) [OF ok] c(2)
    by (simp_all add: fifo_in_def cmd_len_def opcode_def execute_def FDC_CMD_SPECIFY_def)
  have bd: "calm u ?d" by (rule calm_trans [OF b(1) calm_trans [OF c(1) d(1)]])
  have sd: "io_step s ?d" using ca u(2) bd unfolding calm_def by (blast intro: io_step_trans)
  have set: "settled ?d"
    using io_step_installed [OF sd] s(1) u(4) bd d(2) by (simp add: settled_def calm_def)
  have drv': "fdc_current_drive ?d \<le> 3" using io_step_driver_fields(1) [OF sd] drv by simp
  obtain t where t: "fdc_recalibrate h (fdc_current_drive ?d) ?d = Some (0, t)" "io_step ?d t"
    "settled t" "kmem t = kmem ?d" "cur_cyl (dev t) = 0"
    by (rule recalibrate_ok [OF ok tick set drv'])
  have "fdc_reset h s = Some t" using u(1) t(1) by (simp add: fdc_reset_def)
  moreover have "kmem t = kmem s" using ca u(5) bd t(4) by (simp add: calm_def)
  ultimately show ?thesis using that io_step_trans [OF sd t(2)] t(3,5) by blast
qed

text \<open>The name the driver registers: \<open>"fd0"\<close>.\<close>

definition fd0_name :: "u8 list" where
  "fd0_name = [102, 100, 48]"

definition fd0_device :: "fdc_link \<Rightarrow> block_device_t" where
  "fd0_device ln = \<lparr>bd_name = l_fd0 ln, bd_block_size = 512, bd_num_blocks = 2880,
     bd_driver_private = NULL, bd_ops = l_ops ln\<rparr>"

text \<open>The driver initialised: controller idle, drive 0, the operations in place.\<close>

definition fdc_ready :: "fdc_link \<Rightarrow> 'z fdcst_scheme \<Rightarrow> bool" where
  "fdc_ready ln s \<longleftrightarrow> settled s \<and> fdc_current_drive s = 0 \<and>
     bops_heap s (l_ops ln) = Some \<lparr>op_read = l_blk_read ln, op_write = l_blk_write ln\<rparr>"

lemma fdc_init_ok:
  assumes ok: "floppy_ok h img" and tick: "ticking h" and s: "timer_installed s" "fdc_irq_fired s = 0"
    and irq: "\<forall>n. irq_table s n \<noteq> Some FdcIrqHandler"
    and rel: "blk_rel s al" and room: "length al < 16" and new: "fd0_name \<notin> fst ` set al"
    and nm: "cstr (kmem s) (l_fd0 ln) fd0_name"
    and alloc: "alloc_fresh alloc" "\<not> register_oom alloc s"
  shows "\<exists>t. fdc_init h alloc ln s = Some t \<and> fdc_ready ln t \<and> kmem t = kmem s \<and>
    blk_rel t (al @ [(fd0_name, fd0_device ln)])"
proof -
  let ?a = "fdc_set_drive 0 (register_interrupt_handler IRQ6_FLOPPY FdcIrqHandler s)"
  have a: "irqs_installed ?a" "fdc_irq_fired ?a = 0" "fdc_current_drive ?a \<le> 3"
    "hlog ?a = hlog s" "kmem ?a = kmem s" "block_devices ?a = block_devices s"
    "num_block_devices ?a = num_block_devices s" "max_block_devices ?a = max_block_devices s"
    "bdev_heap ?a = bdev_heap s"
    using s irq by (auto simp: fdc_set_drive_def register_interrupt_handler_def irqs_installed_def
        timer_installed_def IRQ6_FLOPPY_def)
  obtain b where b: "fdc_reset h ?a = Some b" "io_step ?a b" "settled b" "kmem b = kmem ?a"
    by (rule reset_ok [OF ok tick a(1-3)])
  let ?c = "b\<lparr>bops_heap := (bops_heap b)(l_ops ln \<mapsto>
                  \<lparr>op_read = l_blk_read ln, op_write = l_blk_write ln\<rparr>)\<rparr>"
  note f = io_step_fields [OF b(2)] io_step_driver_fields [OF b(2)]
  have c: "blk_rel ?c al"
    by (rule blk_rel_cong [OF rel]) (use f a(4-9) b(4) in simp_all)
  have oom: "\<not> register_oom alloc ?c"
    using alloc(2) register_oom_cong [of ?c s alloc] f(1) f(7) a(4,6) by simp
  have nmc: "cstr (kmem ?c) (l_fd0 ln) fd0_name" using nm a(5) b(4) by simp
  from register_spec [OF c nmc alloc(1), of 512 2880 "l_ops ln" NULL] oom room new
  obtain t where t: "blkdev_register alloc (l_fd0 ln) 512 2880 (l_ops ln) NULL ?c = Some (0, t)"
    "kmem t = kmem ?c" "blk_rel t (al @ [(fd0_name, fd0_device ln)])"
    by (auto simp: fd0_device_def)
  note fr = register_frame [OF t(1)]
  have "settled t" using b(3) fr by (simp add: settled_def irqs_installed_def timer_installed_def)
  moreover have "fdc_current_drive ?c = 0" using f(6) by (simp add: fdc_set_drive_def)
  then have "fdc_current_drive t = 0"
    using fr by (cases t; cases b) simp
  ultimately have "fdc_ready ln t" using fr by (simp add: fdc_ready_def)
  moreover have "fdc_init h alloc ln s = Some t" using b(1) t(1) by (simp add: fdc_init_def Let_def)
  ultimately show ?thesis using t(2,3) a(5) b(4) by auto
qed

section \<open>A simulated drive\<close>

definition sim_floppy :: "(nat \<Rightarrow> u8 list) \<Rightarrow> hw" where
  "sim_floppy img = \<lparr>
     hw_in = \<lambda>l p. if p = FDC_PRIM_MSR then 0x80
                    else if p = FDC_PRIM_FIFO then cur_cyl (fdev_of l) else 0,
     hw_irqs = \<lambda>l. case phase (fdev_of l) of Await bs \<Rightarrow> [32, IRQ6_FLOPPY] | _ \<Rightarrow> [32],
     hw_dma = \<lambda>l. case phase (fdev_of l) of
         Await bs \<Rightarrow>
           if opcode bs = 0x06 \<and> read_set_up (fdev_of l) bs
           then (dma_target (fdev_of l), img (chs_index (bs ! 2) (bs ! 3) (bs ! 4)))
           else (0, [])
       | _ \<Rightarrow> (0, [])\<rparr>"

lemma sim_floppy_ok: "floppy_ok (sim_floppy img) img"
proof -
  have "irq_soon (sim_floppy img) l 0" if "phase (fdev_of l) = Await bs" for l bs
    using that by (simp add: irq_soon_def sim_floppy_def fdev_of_quiet)
  then show ?thesis
    unfolding floppy_ok_def Let_def
    by (auto simp: sim_floppy_def FDC_MSR_DATAREG_MASK_def FDC_PRIM_MSR_def FDC_PRIM_FIFO_def
        IRQ6_FLOPPY_def split: phase.splits)
qed

lemma sim_floppy_ticking: "ticking (sim_floppy img)"
proof -
  have "soon (sim_floppy img) l 0" for l
    by (simp add: soon_def sim_floppy_def IRQ6_FLOPPY_def split: phase.splits)
  then show ?thesis
    unfolding ticking_def by (auto simp: sim_floppy_def IRQ6_FLOPPY_def split: phase.splits)
qed

text \<open>A machine with both handlers installed and 1 MB of memory, and a disk that has its block
  number in every byte of a block.\<close>

definition floppy_mach :: fdcst where
  "floppy_mach = blk.extend (mach.extend ((boot_mach 0x100000)
       \<lparr>irq_table := [32 \<mapsto> TimerInterruptHandler, 38 \<mapsto> FdcIrqHandler], freq := 1000\<rparr>)
     \<lparr>block_devices = None, num_block_devices = 0, max_block_devices = 16,
      bdev_heap = Map.empty, bops_heap = Map.empty\<rparr>) \<lparr>fdc_current_drive = 0\<rparr>"

definition demo_disk :: "nat \<Rightarrow> u8 list" where
  "demo_disk n = replicate 512 (of_nat n)"

lemma floppy_mach_settled: "settled floppy_mach"
  by (simp add: settled_def irqs_installed_def timer_installed_def floppy_mach_def blk.defs mach.defs
      boot_mach_def fdev_of_def fdev_init_def IRQ6_FLOPPY_def)

lemma floppy_mach_mapped: "p < 0x100000 - of_nat n \<Longrightarrow> n < 0x100000 \<Longrightarrow> mapped (kmem floppy_mach) p n"
proof -
  assume p: "p < 0x100000 - of_nat n" and n: "n < 0x100000"
  have "p + of_nat i < 0x100000" if "i < n" for i
  proof -
    have un: "unat (of_nat n :: u32) = n" "unat (of_nat i :: u32) = i"
      using n that by (simp_all add: unat_of_nat32)
    have "unat (0x100000 - of_nat n :: u32) = 0x100000 - n"
      using n un by (simp add: unat_sub word_le_nat_alt)
    then have lt: "unat p + i < 0x100000" using p that by (simp add: word_less_nat_alt)
    then have "unat (p + of_nat i) = unat p + i" by (simp add: unat_word_ariths un)
    then show ?thesis using lt by (simp add: word_less_nat_alt)
  qed
  then show ?thesis
    by (simp add: mapped_iff floppy_mach_def blk.defs mach.defs boot_mach_def)
qed

theorem fdc_read_sector_reads_witness:
  "\<exists>t. fdc_read_sector (sim_floppy demo_disk) 100 0x8000 floppy_mach = Some (0, t) \<and>
    fetch (kmem t) 0x8000 512 = Some (replicate 512 100)"
proof -
  have "mapped (kmem floppy_mach) 0x8000 512" by (rule floppy_mach_mapped) simp_all
  moreover have "fdc_current_drive floppy_mach \<le> 3" by (simp add: floppy_mach_def blk.defs mach.defs)
  moreover have "apart 0x8000 512 FLOPPY_DMA_BUFFER 512"
    by (simp add: apart_def FLOPPY_DMA_BUFFER_def)
  ultimately show ?thesis
    using fdc_read_sector_reads [OF sim_floppy_ok [of demo_disk] sim_floppy_ticking floppy_mach_settled,
        of 100 "0x8000"]
    by (auto simp: demo_disk_def)
qed

text \<open>C30: on a working controller \<open>fdc_init\<close> returns with the interrupt handler installed, the
  controller reset, calibrated and idle on drive 0, and the device \<open>fd0\<close> of 2880 blocks of 512
  bytes in the table of block devices with the driver's operations behind it; memory is
  unchanged.\<close>

theorem fdc_init_registers:
  assumes "floppy_ok h img" and "ticking h" and "timer_installed s" and "fdc_irq_fired s = 0"
    and "\<forall>n. irq_table s n \<noteq> Some FdcIrqHandler"
    and "blk_rel s al" and "length al < 16" and "fd0_name \<notin> fst ` set al"
    and "cstr (kmem s) (l_fd0 ln) fd0_name"
    and "alloc_fresh alloc" and "\<not> register_oom alloc s"
  shows "\<exists>t. fdc_init h alloc ln s = Some t \<and> fdc_ready ln t \<and> kmem t = kmem s \<and>
    blk_rel t (al @ [(fd0_name, fd0_device ln)])"
  by (rule fdc_init_ok [OF assms])

definition demo_link :: fdc_link where
  "demo_link = \<lparr>l_blk_read = 0xC0101000, l_blk_write = 0xC0101100, l_ops = 0xC0110000, l_fd0 = 0x7000\<rparr>"

theorem fdc_init_registers_witness:
  "\<exists>t. fdc_init (sim_floppy demo_disk) (pool [0x9000, 0xA000]) demo_link
      (floppy_mach\<lparr>kmem := put (kmem floppy_mach) 0x7000 (fd0_name @ [0]),
                   irq_table := [32 \<mapsto> TimerInterruptHandler]\<rparr>) = Some t \<and>
    blk_rel t [(fd0_name, fd0_device demo_link)]"
proof -
  let ?s = "floppy_mach\<lparr>kmem := put (kmem floppy_mach) 0x7000 (fd0_name @ [0]),
                   irq_table := [32 \<mapsto> TimerInterruptHandler]\<rparr>"
  have "cstr (kmem ?s) (l_fd0 demo_link) fd0_name"
    using cstr_put [of fd0_name "kmem floppy_mach" "0x7000"] by (simp add: demo_link_def fd0_name_def)
  moreover have "blk_rel ?s []" "timer_installed ?s" "fdc_irq_fired ?s = 0"
    by (simp_all add: blk_rel_def floppy_mach_def blk.defs mach.defs table_shape_def devs_of_def
        timer_installed_def boot_mach_def)
  moreover have "\<not> register_oom (pool [0x9000, 0xA000]) ?s"
    by (simp add: register_oom_def blkdev_init_table_def pool_def floppy_mach_def blk.defs mach.defs
        boot_mach_def malloc_def Let_def)
  moreover have "\<forall>n. irq_table ?s n \<noteq> Some FdcIrqHandler" by simp
  ultimately have "\<exists>t. fdc_init (sim_floppy demo_disk) (pool [0x9000, 0xA000]) demo_link ?s = Some t \<and>
      fdc_ready demo_link t \<and> kmem t = kmem ?s \<and> blk_rel t ([] @ [(fd0_name, fd0_device demo_link)])"
    by (intro fdc_init_registers [OF sim_floppy_ok [of demo_disk] sim_floppy_ticking])
      (simp_all add: pool_fresh)
  then show ?thesis by auto
qed

end
