(* ===== verification/BlockSource.thy ===== *)
theory BlockSource
  imports Floppy
begin

text \<open>
  The interface between the file system and the block devices: what a client of \<open>blkread\<close> relies
  on, as a locale, and its interpretation on the code's own provider, \<open>blkread\<close> dispatching to the
  floppy driver. \<open>inv d s\<close> says that \<open>d\<close> is a device in working order in state \<open>s\<close>; \<open>img\<close> is
  what is on it; \<open>scratch\<close> is the memory the driver transfers through.
\<close>

text \<open>States between which nothing a device driver depends on has changed.\<close>

definition same_dev :: "'z fdcst_scheme \<Rightarrow> 'z fdcst_scheme \<Rightarrow> bool" where
  "same_dev s t \<longleftrightarrow>
     io t = io s \<and> irq_table t = irq_table s \<and> fdc_irq_fired t = fdc_irq_fired s
     \<and> fdc_current_drive t = fdc_current_drive s \<and> bdev_heap t = bdev_heap s
     \<and> bops_heap t = bops_heap s"

locale block_source =
  fixes read :: "ptr \<Rightarrow> u32 \<Rightarrow> ptr \<Rightarrow> 'z fdcst_scheme \<Rightarrow> (u32 \<times> 'z fdcst_scheme) option"
    and inv :: "ptr \<Rightarrow> 'z fdcst_scheme \<Rightarrow> bool"
    and img :: "nat \<Rightarrow> u8 list"
    and scratch :: ptr
    and blocks :: nat
  assumes img_length: "inv d s \<Longrightarrow> length (img n) = 512"
    and read_in_range:
      "inv d s \<Longrightarrow> unat lba < blocks \<Longrightarrow> buf \<noteq> NULL \<Longrightarrow> mapped (kmem s) buf 512 \<Longrightarrow>
       apart buf 512 scratch 512 \<Longrightarrow>
       \<exists>t. read d lba buf s = Some (0, t) \<and> io_step s t \<and> inv d t \<and>
         kmem t = put (put (kmem s) scratch (img (unat lba))) buf (img (unat lba))"
    and read_out_of_range:
      "inv d s \<Longrightarrow> \<not> unat lba < blocks \<Longrightarrow> read d lba buf s = Some (-1, s)"
    and inv_same: "inv d s \<Longrightarrow> same_dev s t \<Longrightarrow> inv d t"

context block_source
begin

text \<open>Memory away from the buffer and the scratch area survives a read, and the buffer holds the
  block.\<close>

lemma read_fetch:
  assumes "inv d s" and "unat lba < blocks" and "buf \<noteq> NULL" and "mapped (kmem s) buf 512"
    and "apart buf 512 scratch 512"
  shows "\<exists>t. read d lba buf s = Some (0, t) \<and> io_step s t \<and> inv d t \<and>
    fetch (kmem t) buf 512 = Some (img (unat lba)) \<and>
    (\<forall>q n. apart buf 512 q n \<longrightarrow> apart scratch 512 q n \<longrightarrow> fetch (kmem t) q n = fetch (kmem s) q n) \<and>
    (\<forall>q n. mapped (kmem s) q n \<longrightarrow> mapped (kmem t) q n)"
proof -
  obtain t where t: "read d lba buf s = Some (0, t)" "io_step s t" "inv d t"
    "kmem t = put (put (kmem s) scratch (img (unat lba))) buf (img (unat lba))"
    using read_in_range [OF assms] by blast
  have len: "length (img (unat lba)) = 512" by (rule img_length [OF assms(1)])
  have "fetch (kmem t) buf 512 = Some (img (unat lba))"
    using fetch_put_same [of "img (unat lba)" _ buf] len by (simp add: t(4))
  with t show ?thesis by (simp add: len fetch_put_apart mapped_put)
qed

end

section \<open>The floppy disk as a block source\<close>

definition fd_inv ::
  "hw \<Rightarrow> fdc_link \<Rightarrow> (nat \<Rightarrow> u8 list) \<Rightarrow> ptr \<Rightarrow> 'z fdcst_scheme \<Rightarrow> bool" where
  "fd_inv h ln img d s \<longleftrightarrow>
     floppy_ok h img \<and> ticking h \<and> (\<forall>n. length (img n) = 512) \<and> fdc_ready ln s
     \<and> d \<noteq> NULL \<and> bdev_heap s d = Some (fd0_device ln) \<and> l_ops ln \<noteq> NULL \<and> l_blk_read ln \<noteq> 0"

lemma settled_cong:
  "settled s \<Longrightarrow> io t = io s \<Longrightarrow> irq_table t = irq_table s \<Longrightarrow> fdc_irq_fired t = fdc_irq_fired s \<Longrightarrow>
     settled t"
  by (simp add: settled_def irqs_installed_def timer_installed_def)

lemma fd_blkread:
  assumes "fd_inv h ln img d s"
  shows "blkread (call_blk_read h ln) d lba buf s =
    (if unat lba < 2880 then fdc_read_sector h lba buf s else Some (-1, s))"
  using assms
  by (auto simp: fd_inv_def blkread_def fd0_device_def fdc_ready_def call_blk_read_def
      fdc_blk_read_def word_le_nat_alt)

interpretation fd: block_source
  "blkread (call_blk_read h ln)" "fd_inv h ln img" img FLOPPY_DMA_BUFFER 2880 for h ln img
proof
  fix d and s :: "'z fdcst_scheme" and n
  assume "fd_inv h ln img d s"
  then show "length (img n) = 512" by (simp add: fd_inv_def)
next
  fix d :: ptr and s :: "'z fdcst_scheme" and lba :: u32 and buf :: ptr
  assume inv: "fd_inv h ln img d s" and lba: "unat lba < 2880" and buf: "buf \<noteq> NULL"
    and map: "mapped (kmem s) buf 512" and ap: "apart buf 512 FLOPPY_DMA_BUFFER 512"
  have pre: "floppy_ok h img" "ticking h" "settled s" "fdc_current_drive s \<le> 3"
    "length (img (unat lba)) = 512"
    using inv by (simp_all add: fd_inv_def fdc_ready_def)
  obtain t where t: "fdc_read_sector h lba buf s = Some (0, t)" "io_step s t" "settled t"
    "kmem t = put (put (kmem s) FLOPPY_DMA_BUFFER (img (unat lba))) buf (img (unat lba))"
    by (rule read_sector_ok [OF pre(1-4) lba buf map ap pre(5)])
  have "fd_inv h ln img d t"
    using inv t(3) io_step_driver_fields [OF t(2)] by (simp add: fd_inv_def fdc_ready_def)
  then show "\<exists>t. blkread (call_blk_read h ln) d lba buf s = Some (0, t) \<and> io_step s t \<and>
      fd_inv h ln img d t \<and>
      kmem t = put (put (kmem s) FLOPPY_DMA_BUFFER (img (unat lba))) buf (img (unat lba))"
    using t lba by (auto simp: fd_blkread [OF inv])
next
  fix d :: ptr and s :: "'z fdcst_scheme" and lba :: u32 and buf :: ptr
  assume "fd_inv h ln img d s" "\<not> unat lba < 2880"
  then show "blkread (call_blk_read h ln) d lba buf s = Some (-1, s)"
    by (simp add: fd_blkread)
next
  fix d :: ptr and s t :: "'z fdcst_scheme"
  assume "fd_inv h ln img d s" "same_dev s t"
  then show "fd_inv h ln img d t"
    by (auto simp: fd_inv_def same_dev_def fdc_ready_def intro: settled_cong)
qed

end
