(* ===== verification/Fat12.thy ===== *)
theory Fat12
  imports BlockSource
begin

text \<open>
  The FAT12 file system, \<open>fs/fat12.c\<close>, on the structures of \<open>include/fs/fat12.h\<close> and
  \<open>include/fs/vfs.h\<close>. Structures the code allocates live in heaps of records, one heap for each
  type. What the code reads as raw bytes stays in memory: the boot sector with the BIOS parameter
  block, the file allocation table, the directory sectors in the array on the stack, and the name
  of a vnode, whose address is the address of the vnode. Dereferencing a pointer that is not to a
  live object of its type is a fault, \<open>None\<close>. The addresses of the static tables, of the string
  literal and of the stack arrays are the parameters of a record \<open>fat_env\<close>. \<open>rd\<close> is
  \<open>blkread\<close>; its result is ignored by the code wherever it is called.
\<close>

unbundle bit_operations_syntax

section \<open>Structures\<close>

datatype vnode_type = V_FILE | V_DIRECTORY | V_CHARDEVICE | V_BLOCKDEVICE | V_PIPE | V_SOCKET | V_SYMLINK

record vnode =
  vfs_mountedhere :: ptr
  vfs_ptr :: ptr
  vtype :: vnode_type
  vops :: ptr
  vflags :: u32
  vdata :: ptr

record vfs_fs =
  fs_type_of :: ptr
  vcovered :: ptr
  vroot :: ptr
  fs_data :: ptr

record fat12_handle =
  bpb :: ptr
  ebr :: ptr
  fat_start :: u32
  root_dir_start :: u32
  root_dir_sectors :: u32
  data_area_start :: u32
  fat_table :: ptr
  block_dev :: ptr

record inode =
  dir_entry :: "u8 list"
  dir_sector :: u32
  dir_offset :: u32

record fsst = fdcst +
  vnodes :: "ptr \<Rightarrow> vnode option"
  vfss :: "ptr \<Rightarrow> vfs_fs option"
  handles :: "ptr \<Rightarrow> fat12_handle option"
  inodes :: "ptr \<Rightarrow> inode option"

record fat_env =
  e_fs_type :: ptr
  e_vnode_ops :: ptr
  e_slash :: ptr
  e_dir_entries :: ptr
  e_fat_name :: ptr

type_synonym 'z fs_reader =
  "ptr \<Rightarrow> u32 \<Rightarrow> ptr \<Rightarrow> 'z fsst_scheme \<Rightarrow> (u32 \<times> 'z fsst_scheme) option"

definition SIZEOF_VNODE :: u32 where "SIZEOF_VNODE = 52"
definition SIZEOF_VFS :: u32 where "SIZEOF_VFS = 16"
definition SIZEOF_HANDLE :: u32 where "SIZEOF_HANDLE = 32"
definition SIZEOF_INODE :: u32 where "SIZEOF_INODE = 40"
definition SIZEOF_BPB :: u32 where "SIZEOF_BPB = 36"
definition SIZEOF_DIR_ENTRY :: u32 where "SIZEOF_DIR_ENTRY = 32"

definition FAT12_VID :: u8 where "FAT12_VID = 0x08"
definition FAT12_DIR :: u8 where "FAT12_DIR = 0x10"
definition FAT12_CLUSTER_MASK :: u16 where "FAT12_CLUSTER_MASK = 0xFFF"
definition FAT12_EOC_MIN :: u16 where "FAT12_EOC_MIN = 0xFF8"
definition FAT12_DELETED :: u8 where "FAT12_DELETED = 0xE5"
definition FAT12_ENDDIR :: u8 where "FAT12_ENDDIR = 0x00"

text \<open>The fields of the packed structures, at their offsets.\<close>

definition bpb_bytes_per_sector :: "mem \<Rightarrow> ptr \<Rightarrow> u16 option" where
  "bpb_bytes_per_sector m p = ld16 m (p + 11)"
definition bpb_sectors_per_cluster :: "mem \<Rightarrow> ptr \<Rightarrow> u8 option" where
  "bpb_sectors_per_cluster m p = m (p + 13)"
definition bpb_rsrvd_cnt :: "mem \<Rightarrow> ptr \<Rightarrow> u16 option" where
  "bpb_rsrvd_cnt m p = ld16 m (p + 14)"
definition bpb_num_fats :: "mem \<Rightarrow> ptr \<Rightarrow> u8 option" where
  "bpb_num_fats m p = m (p + 16)"
definition bpb_max_root_dir_entries :: "mem \<Rightarrow> ptr \<Rightarrow> u16 option" where
  "bpb_max_root_dir_entries m p = ld16 m (p + 17)"
definition bpb_sectors_per_fat :: "mem \<Rightarrow> ptr \<Rightarrow> u16 option" where
  "bpb_sectors_per_fat m p = ld16 m (p + 22)"
definition bpb_hidden_sectors :: "mem \<Rightarrow> ptr \<Rightarrow> u32 option" where
  "bpb_hidden_sectors m p = ld32 m (p + 28)"

definition de_attributes :: "u8 list \<Rightarrow> u8" where "de_attributes e = e ! 11"
definition de_first_cluster_low :: "u8 list \<Rightarrow> u16" where
  "de_first_cluster_low e = le16 (e ! 26) (e ! 27)"
definition de_file_size :: "u8 list \<Rightarrow> u32" where
  "de_file_size e = le32 (e ! 28) (e ! 29) (e ! 30) (e ! 31)"

text \<open>\<open>free\<close>: the block is returned, and what lived there is gone.\<close>

definition fs_free :: "ptr \<Rightarrow> 'z fsst_scheme \<Rightarrow> 'z fsst_scheme" where
  "fs_free p s = (free p s)\<lparr>vnodes := (vnodes s)(p := None), vfss := (vfss s)(p := None),
     handles := (handles s)(p := None), inodes := (inodes s)(p := None)\<rparr>"

section \<open>Helpers\<close>

definition fat12_get_fentry :: "mem \<Rightarrow> fat12_handle \<Rightarrow> u16 \<Rightarrow> u16 option" where
  "fat12_get_fentry m fs cluster = do {
     let fat_offset = ((ucast cluster * 3) div 2 :: u32);
     entry \<leftarrow> ld16 m (fat_table fs + fat_offset);
     let entry = (if cluster AND 0x1 \<noteq> 0 then drop_bit 4 entry else entry AND 0x0FFF);
     Some (entry AND FAT12_CLUSTER_MASK)
   }"

text \<open>Copying while \<open>i\<close> is below \<open>n\<close> and the source character is not a stop character: the result is
  the final \<open>i\<close> and \<open>j\<close>.\<close>

function copy_while ::
  "(u8 \<Rightarrow> bool) \<Rightarrow> nat \<Rightarrow> ptr \<Rightarrow> ptr \<Rightarrow> nat \<Rightarrow> nat \<Rightarrow> mem \<Rightarrow> (nat \<times> nat \<times> mem) option" where
  "copy_while go n src dst i j m =
     (if i < n then do {
        c \<leftarrow> m (src + of_nat i);
        if go c then do {
          m \<leftarrow> st8 m (dst + of_nat j) c;
          copy_while go n src dst (i + 1) (j + 1) m
        } else Some (i, j, m)
      } else Some (i, j, m))"
  by pat_completeness auto
termination
  by (relation "measure (\<lambda>(go, n, src, dst, i, j, m). n - i)") auto

declare copy_while.simps [simp del]

definition fat12_8_3to_normal :: "mem \<Rightarrow> ptr \<Rightarrow> ptr \<Rightarrow> mem option" where
  "fat12_8_3to_normal m fat_name output = do {
     (i, j, m) \<leftarrow> copy_while (\<lambda>c. c \<noteq> 32) 8 fat_name output 0 0 m;
     e \<leftarrow> m (fat_name + 8);
     (j, m) \<leftarrow> (if e \<noteq> 32 then do {
         m \<leftarrow> st8 m (output + of_nat j) 46;
         (i, j, m) \<leftarrow> copy_while (\<lambda>c. c \<noteq> 32) 11 fat_name output 8 (j + 1) m;
         Some (j, m)
       } else Some (j, m));
     st8 m (output + of_nat j) 0
   }"

text \<open>The other direction runs over both strings with the roles of \<open>i\<close> and \<open>j\<close> exchanged: \<open>i\<close>
  counts in the destination.\<close>

function fill_while ::
  "(u8 \<Rightarrow> bool) \<Rightarrow> nat \<Rightarrow> ptr \<Rightarrow> ptr \<Rightarrow> nat \<Rightarrow> nat \<Rightarrow> mem \<Rightarrow> (nat \<times> nat \<times> mem) option" where
  "fill_while go n src dst i j m =
     (if i < n then do {
        c \<leftarrow> m (src + of_nat j);
        if go c then do {
          m \<leftarrow> st8 m (dst + of_nat i) c;
          fill_while go n src dst (i + 1) (j + 1) m
        } else Some (i, j, m)
      } else Some (i, j, m))"
  by pat_completeness auto
termination
  by (relation "measure (\<lambda>(go, n, src, dst, i, j, m). n - i)") auto

declare fill_while.simps [simp del]

definition fat12_normal_to_8_3 :: "mem \<Rightarrow> ptr \<Rightarrow> ptr \<Rightarrow> mem option" where
  "fat12_normal_to_8_3 m name fat_name = do {
     (_, m) \<leftarrow> memset m fat_name 32 11;
     (i, j, m) \<leftarrow> fill_while (\<lambda>c. c \<noteq> 0 \<and> c \<noteq> 46) 8 name fat_name 0 0 m;
     c \<leftarrow> m (name + of_nat j);
     let j = (if c = 46 then j + 1 else j);
     (i, j, m) \<leftarrow> fill_while (\<lambda>c. c \<noteq> 0) 11 name fat_name 8 j m;
     Some m
   }"

definition fat12_cluster_to_lba :: "mem \<Rightarrow> fat12_handle \<Rightarrow> u16 \<Rightarrow> u32 option" where
  "fat12_cluster_to_lba m fs cluster =
     (if cluster < 2 then Some 0
      else do {
        spc \<leftarrow> bpb_sectors_per_cluster m (bpb fs);
        Some (data_area_start fs + (ucast cluster - 2) * ucast spc)
      })"

section \<open>Lookup in the root directory\<close>

text \<open>The body of the scan for one entry: stop with a result, or go on.\<close>

datatype 'a scan = Stop 'a | Go

definition fat12_make_node ::
  "allocator \<Rightarrow> fat_env \<Rightarrow> vnode \<Rightarrow> ptr \<Rightarrow> u32 \<Rightarrow> u32 \<Rightarrow> u8 list \<Rightarrow> 'z fsst_scheme \<Rightarrow>
   (ptr \<times> 'z fsst_scheme) option" where
  "fat12_make_node alloc ev dir name sector i entry s =
     (let (new_node, s) = malloc alloc SIZEOF_VNODE s in
      if new_node = NULL then Some (NULL, s)
      else do {
        (_, m) \<leftarrow> strncpy (kmem s) new_node name 28;
        let s = s\<lparr>kmem := m\<rparr>;
        let node = \<lparr>vfs_mountedhere = NULL, vfs_ptr = vfs_ptr dir,
              vtype = (if de_attributes entry AND FAT12_DIR \<noteq> 0 then V_DIRECTORY else V_FILE),
              vops = e_vnode_ops ev, vflags = 0, vdata = NULL\<rparr>;
        let s = s\<lparr>vnodes := (vnodes s)(new_node \<mapsto> node)\<rparr>;
        let (new_inode, s) = malloc alloc SIZEOF_INODE s;
        if new_inode = NULL then Some (NULL, fs_free new_node s)
        else
          let s = s\<lparr>inodes := (inodes s)(new_inode \<mapsto>
                \<lparr>dir_entry = entry, dir_sector = sector, dir_offset = i\<rparr>)\<rparr>;
              s = s\<lparr>vnodes := (vnodes s)(new_node \<mapsto> node\<lparr>vdata := new_inode\<rparr>)\<rparr>
          in Some (new_node, s)
      })"

function fat12_scan_sector ::
  "allocator \<Rightarrow> fat_env \<Rightarrow> vnode \<Rightarrow> ptr \<Rightarrow> u32 \<Rightarrow> u32 \<Rightarrow> 'z fsst_scheme \<Rightarrow>
   (ptr scan \<times> 'z fsst_scheme) option" where
  "fat12_scan_sector alloc ev dir name sector i s =
     (if i < 16 then do {
        let entry = e_dir_entries ev + i * SIZEOF_DIR_ENTRY;
        first \<leftarrow> kmem s entry;
        if first = FAT12_ENDDIR then Some (Stop NULL, s)
        else do {
          attributes \<leftarrow> kmem s (entry + 11);
          if first = FAT12_DELETED \<or> attributes AND FAT12_VID \<noteq> 0
          then fat12_scan_sector alloc ev dir name sector (i + 1) s
          else do {
            r \<leftarrow> memcmp (kmem s) entry (e_fat_name ev) 11;
            if r = 0 then do {
              bytes \<leftarrow> fetch (kmem s) entry 32;
              (node, s) \<leftarrow> fat12_make_node alloc ev dir name sector i bytes s;
              Some (Stop node, s)
            }
            else fat12_scan_sector alloc ev dir name sector (i + 1) s
          }
        }
      } else Some (Go, s))"
  by pat_completeness auto
termination
  by (relation "measure (\<lambda>(alloc, ev, dir, name, sector, i, s). 16 - unat i)")
    (auto intro: word_loop_dec [where n = "16 :: u32", simplified])

declare fat12_scan_sector.simps [simp del]

function fat12_scan_root ::
  "'z fs_reader \<Rightarrow> allocator \<Rightarrow> fat_env \<Rightarrow> vnode \<Rightarrow> fat12_handle \<Rightarrow> ptr \<Rightarrow> u32 \<Rightarrow> 'z fsst_scheme \<Rightarrow>
   (ptr \<times> 'z fsst_scheme) option" where
  "fat12_scan_root rd alloc ev dir fs name k s =
     (if k < root_dir_sectors fs then do {
        let sector = root_dir_start fs + k;
        (_, s) \<leftarrow> rd (block_dev fs) sector (e_dir_entries ev) s;
        (r, s) \<leftarrow> fat12_scan_sector alloc ev dir name sector 0 s;
        (case r of
           Stop node \<Rightarrow> Some (node, s)
         | Go \<Rightarrow> fat12_scan_root rd alloc ev dir fs name (k + 1) s)
      } else Some (NULL, s))"
  by pat_completeness auto
termination
  by (relation "measure (\<lambda>(rd, alloc, ev, dir, fs, name, k, s). unat (root_dir_sectors fs) - unat k)")
    (auto intro: word_loop_dec)

declare fat12_scan_root.simps [simp del]

text \<open>The sectors are read into an array of directory entries on the stack, and \<open>fat_name\<close> is
  another; both are addresses of the frame.\<close>

definition fat12_lookup ::
  "'z fs_reader \<Rightarrow> allocator \<Rightarrow> fat_env \<Rightarrow> ptr \<Rightarrow> ptr \<Rightarrow> 'z fsst_scheme \<Rightarrow>
   (ptr \<times> 'z fsst_scheme) option" where
  "fat12_lookup rd alloc ev dir_node name s = do {
     dir \<leftarrow> vnodes s dir_node;
     r \<leftarrow> strcmp (kmem s) dir_node (e_slash ev);
     if r \<noteq> 0 then Some (NULL, s)
     else do {
       v \<leftarrow> vfss s (vfs_ptr dir);
       if fs_data v = NULL then Some (NULL, s)
       else do {
         fs \<leftarrow> handles s (fs_data v);
         m \<leftarrow> fat12_normal_to_8_3 (kmem s) name (e_fat_name ev);
         fat12_scan_root rd alloc ev dir fs name 0 (s\<lparr>kmem := m\<rparr>)
       }
     }
   }"

section \<open>Mounting\<close>

lemma load_loop_dec:
  "i < ucast (n :: u16) \<Longrightarrow> 0x10000 - unat (i + 1) < 0x10000 - unat (i :: u32)"
proof -
  assume i: "i < ucast n"
  have n: "unat n < 0x10000" using unsigned_less [of n, where ?'a = nat] by simp
  then have "unat (ucast n :: u32) = unat n" by (simp add: unsigned_ucast_eq take_bit_nat_eq_self)
  then have "unat i < 0x10000" using i n by (simp add: word_less_nat_alt)
  then show ?thesis by (simp add: unat_Suc_less [OF i])
qed

function fat12_load_fat ::
  "'z fs_reader \<Rightarrow> ptr \<Rightarrow> fat12_handle \<Rightarrow> u32 \<Rightarrow> 'z fsst_scheme \<Rightarrow> 'z fsst_scheme option" where
  "fat12_load_fat rd dv fs i s = do {
     spf \<leftarrow> bpb_sectors_per_fat (kmem s) (bpb fs);
     if i < ucast spf then do {
       bps \<leftarrow> bpb_bytes_per_sector (kmem s) (bpb fs);
       (_, s) \<leftarrow> rd dv (fat_start fs + i) (fat_table fs + i * ucast bps) s;
       fat12_load_fat rd dv fs (i + 1) s
     } else Some s
   }"
  by pat_completeness auto
termination
  by (relation "measure (\<lambda>(rd, dv, fs, i, s). 0x10000 - unat i)") (auto intro: load_loop_dec)

declare fat12_load_fat.simps [simp del]

text \<open>The values derived from the boot sector; dividing by a sector size of 0 faults.\<close>

definition fat12_layout :: "mem \<Rightarrow> ptr \<Rightarrow> ptr \<Rightarrow> fat12_handle option" where
  "fat12_layout m bootsector dv = do {
     hidden \<leftarrow> bpb_hidden_sectors m bootsector;
     rsrvd \<leftarrow> bpb_rsrvd_cnt m bootsector;
     nfats \<leftarrow> bpb_num_fats m bootsector;
     spf \<leftarrow> bpb_sectors_per_fat m bootsector;
     maxroot \<leftarrow> bpb_max_root_dir_entries m bootsector;
     bps \<leftarrow> bpb_bytes_per_sector m bootsector;
     if bps = 0 then None
     else
       let lba_begin = (ucast hidden :: u8);
           fat = ucast lba_begin + ucast rsrvd;
           root = fat + ucast nfats * ucast spf;
           nroot = ucast maxroot * SIZEOF_DIR_ENTRY div ucast bps
       in Some \<lparr>bpb = bootsector, ebr = bootsector + SIZEOF_BPB, fat_start = fat,
                root_dir_start = root, root_dir_sectors = nroot, data_area_start = root + nroot,
                fat_table = NULL, block_dev = dv\<rparr>
   }"

text \<open>The mounted instance and its root vnode. Neither of the last two allocations is checked: a
  failure is a write through \<open>NULL\<close>.\<close>

definition fat12_make_root ::
  "allocator \<Rightarrow> fat_env \<Rightarrow> ptr \<Rightarrow> fat12_handle \<Rightarrow> ptr \<Rightarrow> 'z fsst_scheme \<Rightarrow> (ptr \<times> 'z fsst_scheme) option" where
  "fat12_make_root alloc ev hp fs fsys s =
     (let (root, s) = malloc alloc SIZEOF_VNODE s in
      if root = NULL then None
      else do {
        let s = s\<lparr>vfss := (vfss s)(fsys \<mapsto>
              \<lparr>fs_type_of = e_fs_type ev, vcovered = NULL, vroot = root, fs_data = hp\<rparr>)\<rparr>;
        (_, m) \<leftarrow> strncpy (kmem s) root (e_slash ev) 28;
        let s = s\<lparr>kmem := m\<rparr>;
        let (root_inode, s) = malloc alloc SIZEOF_INODE s;
        if root_inode = NULL then None
        else
          let s = s\<lparr>inodes := (inodes s)(root_inode \<mapsto>
                \<lparr>dir_entry = replicate 32 0, dir_sector = root_dir_start fs, dir_offset = 0\<rparr>)\<rparr>;
              s = s\<lparr>vnodes := (vnodes s)(root \<mapsto>
                \<lparr>vfs_mountedhere = NULL, vfs_ptr = fsys, vtype = V_DIRECTORY,
                 vops = e_vnode_ops ev, vflags = 0, vdata = root_inode\<rparr>)\<rparr>
          in Some (fsys, s)
      })"

definition fat12_mount ::
  "'z fs_reader \<Rightarrow> allocator \<Rightarrow> fat_env \<Rightarrow> ptr \<Rightarrow> 'z fsst_scheme \<Rightarrow> (ptr \<times> 'z fsst_scheme) option" where
  "fat12_mount rd alloc ev device s =
     (let (hp, s) = malloc alloc SIZEOF_HANDLE s in
      if hp = NULL then Some (NULL, s)
      else
        let (bootsector, s) = malloc alloc 512 s in
        if bootsector = NULL then Some (NULL, fs_free hp s)
        else do {
          dv \<leftarrow> blkdev_get_by_name device s;
          if dv = NULL then Some (NULL, fs_free hp (fs_free bootsector s))
          else do {
            (_, s) \<leftarrow> rd dv 0 bootsector s;
            fs \<leftarrow> fat12_layout (kmem s) bootsector dv;
            spf \<leftarrow> bpb_sectors_per_fat (kmem s) bootsector;
            bps \<leftarrow> bpb_bytes_per_sector (kmem s) bootsector;
            if unat spf * unat bps \<ge> 2 ^ 31 then None
            else
              let (table, s) = malloc alloc (ucast spf * ucast bps) s;
                  fs = fs\<lparr>fat_table := table\<rparr>
              in
              if table = NULL then Some (NULL, fs_free hp (fs_free bootsector s))
              else do {
                s \<leftarrow> fat12_load_fat rd dv fs 0 s;
                let (fsys, s) = malloc alloc SIZEOF_VFS s;
                if fsys = NULL
                then Some (NULL, fs_free hp (fs_free bootsector (fs_free table s)))
                else fat12_make_root alloc ev hp fs fsys
                       (s\<lparr>handles := (handles s)(hp \<mapsto> fs)\<rparr>)
              }
          }
        })"

definition fat12_unmount :: "ptr \<Rightarrow> 'z fsst_scheme \<Rightarrow> (u32 \<times> 'z fsst_scheme) option" where
  "fat12_unmount fsys s = do {
     v \<leftarrow> vfss s fsys;
     if fs_data v = NULL then Some (-1, s)
     else do {
       fs \<leftarrow> handles s (fs_data v);
       let s = (if fat_table fs \<noteq> NULL then fs_free (fat_table fs) s else s);
       let s = (if bpb fs \<noteq> NULL then fs_free (bpb fs) s else s);
       let s = fs_free (fs_data v) s;
       root \<leftarrow> vnodes s (vroot v);
       let s = fs_free (vdata root) s;
       let s = fs_free (vroot v) s;
       Some (0, fs_free fsys s)
     }
   }"

section \<open>Opening and reading\<close>

definition fat12_open ::
  "'z fs_reader \<Rightarrow> allocator \<Rightarrow> fat_env \<Rightarrow> ptr \<Rightarrow> ptr \<Rightarrow> u32 \<Rightarrow> 'z fsst_scheme \<Rightarrow>
   (ptr \<times> 'z fsst_scheme) option" where
  "fat12_open rd alloc ev node path flags s =
     (if node = NULL \<or> path = NULL then Some (NULL, s)
      else do {
        len \<leftarrow> strlen (kmem s) path;
        if len = 0 then Some (NULL, s)
        else do {
          n \<leftarrow> vnodes s node;
          v \<leftarrow> vfss s (vfs_ptr n);
          fat12_lookup rd alloc ev (vroot v) path s
        }
      })"

function fat12_read_loop ::
  "'z fs_reader \<Rightarrow> fat12_handle \<Rightarrow> u32 \<Rightarrow> u32 \<Rightarrow> u32 \<Rightarrow> ptr \<Rightarrow> ptr \<Rightarrow> u16 \<Rightarrow> u16 \<Rightarrow> u16 \<Rightarrow> u32 \<Rightarrow>
   'z fsst_scheme \<Rightarrow> 'z fsst_scheme option" where
  "fat12_read_loop rd fs bytes_per_cluster offset_in_cluster offs_size buf read_buf
     clusters_to_read cluster_count curr_cluster bytes_read s =
     (if cluster_count < clusters_to_read then do {
        fentry \<leftarrow> fat12_get_fentry (kmem s) fs curr_cluster;
        lba \<leftarrow> fat12_cluster_to_lba (kmem s) fs curr_cluster;
        (_, s) \<leftarrow> rd (block_dev fs) lba read_buf s;
        let copy_start = (if cluster_count = 0 then offset_in_cluster else 0);
        let copy_end = (if unat cluster_count = unat clusters_to_read - 1
                        then offs_size mod bytes_per_cluster else bytes_per_cluster);
        let copy_end = (if copy_end = 0 then bytes_per_cluster else copy_end);
        (_, m) \<leftarrow> memcpy (kmem s) (buf + bytes_read) (read_buf + copy_start)
                     (copy_end - copy_start);
        let s = s\<lparr>kmem := m\<rparr>;
        let bytes_read = bytes_read + (copy_end - copy_start);
        if curr_cluster \<ge> FAT12_EOC_MIN then Some s
        else fat12_read_loop rd fs bytes_per_cluster offset_in_cluster offs_size buf read_buf
               clusters_to_read (cluster_count + 1) fentry bytes_read s
      } else Some s)"
  by pat_completeness auto
termination
  by (relation "measure (\<lambda>(rd, fs, bpc, oic, os, buf, rb, ctr, cc, cur, br, s). unat ctr - unat cc)")
    (auto intro: word_loop_dec)

declare fat12_read_loop.simps [simp del]

definition fat12_read ::
  "'z fs_reader \<Rightarrow> allocator \<Rightarrow> ptr \<Rightarrow> u32 \<Rightarrow> u32 \<Rightarrow> ptr \<Rightarrow> 'z fsst_scheme \<Rightarrow>
   (u32 \<times> 'z fsst_scheme) option" where
  "fat12_read rd alloc node offs size_arg buf s =
     (if node = NULL then Some (-1, s)
      else do {
        n \<leftarrow> vnodes s node;
        if vdata n = NULL \<or> buf = NULL \<or> size_arg = 0 then Some (-1, s)
        else do {
          v \<leftarrow> vfss s (vfs_ptr n);
          if fs_data v = NULL then Some (-1, s)
          else do {
            ind \<leftarrow> inodes s (vdata n);
            let e = dir_entry ind;
            if de_attributes e AND FAT12_DIR \<noteq> 0 then Some (-1, s)
            else if offs \<ge> de_file_size e then Some (0, s)
            else do {
              let sz = (if offs + size_arg > de_file_size e then de_file_size e - offs else size_arg);
              fs \<leftarrow> handles s (fs_data v);
              spc \<leftarrow> bpb_sectors_per_cluster (kmem s) (bpb fs);
              bps \<leftarrow> bpb_bytes_per_sector (kmem s) (bpb fs);
              let bytes_per_cluster = ucast spc * ucast bps;
              if bytes_per_cluster = 0 then None
              else do {
                let cluster_offset = offs div bytes_per_cluster;
                let start_cluster = ucast (ucast (de_first_cluster_low e) + cluster_offset);
                let offset_in_cluster = offs mod bytes_per_cluster;
                let clusters_to_read = ucast ((offset_in_cluster + sz) div bytes_per_cluster +
                      (if (offset_in_cluster + sz) mod bytes_per_cluster \<noteq> 0 then 1 else 0));
                let (read_buf, s) = malloc alloc bytes_per_cluster s;
                if read_buf = NULL then Some (-1, s)
                else do {
                  s \<leftarrow> fat12_read_loop rd fs bytes_per_cluster offset_in_cluster (offs + sz) buf
                         read_buf clusters_to_read 0 start_cluster 0 s;
                  Some (sz, fs_free read_buf s)
                }
              }
            }
          }
        }
      })"

definition fat12_close :: "ptr \<Rightarrow> 'z fsst_scheme \<Rightarrow> u32 \<times> 'z fsst_scheme" where
  "fat12_close node s = (-1, s)"

definition fat12_write :: "ptr \<Rightarrow> u32 \<Rightarrow> u32 \<Rightarrow> ptr \<Rightarrow> 'z fsst_scheme \<Rightarrow> u32 \<times> 'z fsst_scheme" where
  "fat12_write node offs size_arg buf s = (-1, s)"

definition fat12_readdir :: "ptr \<Rightarrow> ptr \<Rightarrow> ptr \<Rightarrow> 'z fsst_scheme \<Rightarrow> u32 \<times> 'z fsst_scheme" where
  "fat12_readdir node dirents count s = (-1, s)"

end
