(* ===== verification/Fat12Spec.thy ===== *)
theory Fat12Spec
  imports Fat12
begin

text \<open>
  What the pieces of the FAT12 driver compute: the packed table of 12-bit entries, the 8.3 names,
  and the numbering of clusters, each against an independent description of the format.
\<close>

unbundle bit_operations_syntax

section \<open>The packed table\<close>

text \<open>Two 12-bit entries in three bytes.\<close>

fun pack12 :: "u16 list \<Rightarrow> u8 list" where
  "pack12 [] = []"
| "pack12 [a] = [ucast a, ucast (drop_bit 8 a)]"
| "pack12 (a # b # es) =
     ucast a # (ucast (drop_bit 8 a) OR ucast (push_bit 4 b)) # ucast (drop_bit 4 b) # pack12 es"

definition is_entry12 :: "u16 \<Rightarrow> bool" where
  "is_entry12 e \<longleftrightarrow> take_bit 12 e = e"

lemma is_entry12_bit: "is_entry12 e \<Longrightarrow> bit e n \<Longrightarrow> n < 12"
  unfolding is_entry12_def by (metis bit_take_bit_iff)

lemma length_pack12: "length (pack12 es) = (3 * length es + 1) div 2"
  by (induction es rule: pack12.induct) auto

lemma pack12_even:
  assumes "list_all is_entry12 es" and "2 * k < length es"
  shows "3 * k + 1 < length (pack12 es)"
    and "le16 (pack12 es ! (3 * k)) (pack12 es ! (3 * k + 1)) AND 0x0FFF = es ! (2 * k)"
proof -
  have "3 * k + 1 < length (pack12 es) \<and>
      le16 (pack12 es ! (3 * k)) (pack12 es ! (3 * k + 1)) AND mask 12 = es ! (2 * k)"
    using assms
  proof (induction es arbitrary: k rule: pack12.induct)
    case (2 a)
    then have "k = 0" by simp
    have "le16 (ucast a) (ucast (drop_bit 8 a)) AND mask 12 = a"
      using 2(1) by (intro bit_word_eqI) (auto simp: le16_def bit_simps dest: is_entry12_bit)
    then show ?case using \<open>k = 0\<close> by simp
  next
    case (3 a b es)
    show ?case
    proof (cases k)
      case 0
      have "le16 (ucast a) (ucast (drop_bit 8 a) OR ucast (push_bit 4 b)) AND mask 12 = a"
        using 3(2) by (intro bit_word_eqI) (auto simp: le16_def bit_simps dest: is_entry12_bit)
      then show ?thesis using 0 by simp
    next
      case (Suc j)
      have "3 * k = Suc (Suc (Suc (3 * j)))" using Suc by simp
      then show ?thesis using 3(1) [of j] 3(2,3) Suc by simp
    qed
  qed simp
  then show "3 * k + 1 < length (pack12 es)"
    "le16 (pack12 es ! (3 * k)) (pack12 es ! (3 * k + 1)) AND 0x0FFF = es ! (2 * k)"
    by (simp_all add: mask_eq_exp_minus_1)
qed

lemma pack12_odd:
  assumes "list_all is_entry12 es" and "2 * k + 1 < length es"
  shows "3 * k + 2 < length (pack12 es)"
    and "drop_bit 4 (le16 (pack12 es ! (3 * k + 1)) (pack12 es ! (3 * k + 2))) = es ! (2 * k + 1)"
proof -
  have "3 * k + 2 < length (pack12 es) \<and>
      drop_bit 4 (le16 (pack12 es ! (3 * k + 1)) (pack12 es ! (3 * k + 2))) = es ! (2 * k + 1)"
    using assms
  proof (induction es arbitrary: k rule: pack12.induct)
    case (3 a b es)
    show ?case
    proof (cases k)
      case 0
      have "drop_bit 4 (le16 (ucast (drop_bit 8 a) OR ucast (push_bit 4 b)) (ucast (drop_bit 4 b))) = b"
        using 3(2) by (intro bit_word_eqI) (auto simp: le16_def bit_simps dest: is_entry12_bit)
      then show ?thesis using 0 by simp
    next
      case (Suc j)
      have "3 * k = Suc (Suc (Suc (3 * j)))" using Suc by simp
      then show ?thesis using 3(1) [of j] 3(2,3) Suc by simp
    qed
  qed simp_all
  then show "3 * k + 2 < length (pack12 es)"
    "drop_bit 4 (le16 (pack12 es ! (3 * k + 1)) (pack12 es ! (3 * k + 2))) = es ! (2 * k + 1)"
    by simp_all
qed

text \<open>The table of a handle holds the entries \<open>es\<close>.\<close>

definition fat_holds :: "mem \<Rightarrow> fat12_handle \<Rightarrow> u16 list \<Rightarrow> bool" where
  "fat_holds m fs es \<longleftrightarrow>
     fetch m (fat_table fs) (length (pack12 es)) = Some (pack12 es) \<and> list_all is_entry12 es"

lemma ld16_fetch:
  assumes "fetch m p n = Some bs" and "Suc i < n"
  shows "ld16 m (p + of_nat i) = Some (le16 (bs ! i) (bs ! Suc i))"
proof (rule ld16_le16)
  show "m (p + of_nat i) = Some (bs ! i)" using assms by (simp add: fetch_iff)
  have "m (p + of_nat (Suc i)) = Some (bs ! Suc i)" using assms unfolding fetch_iff by blast
  then show "m (p + of_nat i + 1) = Some (bs ! Suc i)" by (simp add: add.commute add.left_commute)
qed

lemma get_fentry_entry:
  assumes "fat_holds m fs es" and "unat c < length es"
  shows "fat12_get_fentry m fs c = Some (es ! unat c)"
proof -
  have f: "fetch m (fat_table fs) (length (pack12 es)) = Some (pack12 es)" and e: "list_all is_entry12 es"
    using assms(1) by (simp_all add: fat_holds_def)
  have c: "unat c < 65536" using unsigned_less [of c, where ?'a = nat] by simp
  have "unat (ucast c * 3 :: u32) = unat c * 3"
    using c by (simp add: unat_word_ariths unsigned_ucast_eq take_bit_nat_eq_self)
  then have "unat (ucast c * 3 div 2 :: u32) = unat c * 3 div 2" by (simp add: unat_div_distrib)
  then have off: "(ucast c * 3 div 2 :: u32) = of_nat (unat c * 3 div 2)"
    by (metis of_nat_unat ucast_id)
  have m12: "es ! unat c AND 0xFFF = es ! unat c"
    using e assms(2) by (simp add: list_all_length is_entry12_def take_bit_eq_mask mask_eq_exp_minus_1)
  have odd: "c AND 1 \<noteq> 0 \<longleftrightarrow> odd (unat c)"
    by (simp add: and_one_eq word_unat_eq_iff unat_mod_distrib) presburger
  show ?thesis
  proof (cases "odd (unat c)")
    case False
    then obtain k where k: "unat c = 2 * k" by (auto elim: evenE)
    note p = pack12_even [OF e, of k] assms(2)
    have "ld16 m (fat_table fs + (ucast c * 3 div 2)) =
        Some (le16 (pack12 es ! (3 * k)) (pack12 es ! (3 * k + 1)))"
      using ld16_fetch [OF f, of "3 * k"] p k by (simp add: off)
    then show ?thesis
      using odd False p k m12 by (simp add: fat12_get_fentry_def Let_def FAT12_CLUSTER_MASK_def)
  next
    case True
    then obtain k where k: "unat c = 2 * k + 1" by (auto elim: oddE)
    note p = pack12_odd [OF e, of k] assms(2)
    have "unat c * 3 div 2 = 3 * k + 1" using k by simp
    then have "ld16 m (fat_table fs + (ucast c * 3 div 2)) =
        Some (le16 (pack12 es ! (3 * k + 1)) (pack12 es ! (3 * k + 2)))"
      using ld16_fetch [OF f, of "3 * k + 1"] p k by (simp only: off) simp
    then show ?thesis
      using odd True p k m12 by (simp add: fat12_get_fentry_def Let_def FAT12_CLUSTER_MASK_def)
  qed
qed

text \<open>C17: \<open>_fat12_get_fentry\<close> is the inverse of the packing of the table: for any list of 12-bit
  entries packed two to three bytes in memory, entry \<open>c\<close> is what it returns, for even and odd \<open>c\<close>,
  the last entry of a table of odd length included.\<close>

theorem fat12_get_fentry_unpacks:
  assumes "fetch m (fat_table fs) (length (pack12 es)) = Some (pack12 es)"
    and "list_all is_entry12 es" and "unat c < length es"
  shows "fat12_get_fentry m fs c = Some (es ! unat c)"
  using assms by (intro get_fentry_entry) (simp_all add: fat_holds_def)

theorem fat12_get_fentry_unpacks_witness:
  "fat12_get_fentry (put Map.empty 0x5000 (pack12 [0xFF0, 0xFFF, 0xABC, 0x123]))
     \<lparr>bpb = 0x6000, ebr = 0x6024, fat_start = 1, root_dir_start = 19, root_dir_sectors = 14,
       data_area_start = 33, fat_table = 0x5000, block_dev = 0x9000\<rparr> 3 = Some 0x123"
proof -
  let ?es = "[0xFF0, 0xFFF, 0xABC, 0x123] :: u16 list"
  have "fetch (put Map.empty 0x5000 (pack12 ?es)) 0x5000 (length (pack12 ?es)) = Some (pack12 ?es)"
    by (rule fetch_put_same) simp
  then show ?thesis
    using fat12_get_fentry_unpacks [of "put Map.empty 0x5000 (pack12 ?es)"
        "\<lparr>bpb = 0x6000, ebr = 0x6024, fat_start = 1, root_dir_start = 19, root_dir_sectors = 14,
          data_area_start = 33, fat_table = 0x5000, block_dev = 0x9000\<rparr>" ?es 3]
    by (simp add: is_entry12_def del: pack12.simps)
qed

end
