(* ===== verification/Fat12Names.thy ===== *)
theory Fat12Names
  imports Fat12
begin

text \<open>
  The 8.3 names of directory entries: what the two conversions compute on byte strings, that they
  are inverse on the names the format allows, and what happens to a base name of more than eight
  characters.
\<close>

section \<open>The copying loops\<close>

text \<open>Both loops copy a run of characters that pass the test, up to the first that does not or to
  the bound on their counter.\<close>

lemma put_step:
  "length cs < 2 ^ 32 \<Longrightarrow> put (m(p \<mapsto> c)) (p + 1) cs = put m p (c # cs)"
proof
  fix a
  assume len: "length cs < 2 ^ 32"
  show "put (m(p \<mapsto> c)) (p + 1) cs a = put m p (c # cs) a"
  proof (cases "a = p")
    case True
    have "unat (- 1 :: u32) = 2 ^ 32 - 1"
      by (simp add: unsigned_minus_1_eq_mask mask_eq_exp_minus_1)
    then show ?thesis using True len by (simp add: put_def)
  next
    case False
    have "unat (a - p) \<noteq> 0" using False by (simp add: unat_eq_0)
    then have "unat (a - p) = Suc (unat (a - (p + 1)))"
      using unat_minus_one [of "a - p"] False by (simp add: diff_diff_eq)
    then show ?thesis using False by (simp add: put_def)
  qed
qed

lemma copy_step:
  assumes ap: "apart d (Suc n) q (Suc r)" and n: "Suc n < 2 ^ 31" "n \<le> r" and md: "mapped m d (Suc n)"
  shows "k \<le> r \<Longrightarrow> fetch (m(d \<mapsto> c)) (q + 1) k = fetch m (q + 1) k"
    and "n < r \<Longrightarrow> (m(d \<mapsto> c)) (q + 1 + of_nat n) = m (q + 1 + of_nat n)"
    and "mapped (m(d \<mapsto> c)) (d + 1) n" and "apart (d + 1) n (q + 1) r"
    and "length cs = n \<Longrightarrow> put (m(d \<mapsto> c)) (d + 1) cs = put m d (c # cs)"
    and "st8 m d c = Some (m(d \<mapsto> c))"
proof -
  have one: "m(d \<mapsto> c) = put m d [c]" using put_snoc [of "[]" m d c] by simp
  have ap1: "apart d 1 (q + 1) r" using apart_sub [OF ap, of 0 1 1 r] by simp
  show "fetch (m(d \<mapsto> c)) (q + 1) k = fetch m (q + 1) k" if "k \<le> r"
    unfolding one by (rule fetch_put_apart) (use apart_mono [OF ap1 _ that, of 1] in simp)
  show "(m(d \<mapsto> c)) (q + 1 + of_nat n) = m (q + 1 + of_nat n)" if "n < r"
    unfolding one by (rule put_miss [OF _ that]) (use ap1 in simp)
  show "mapped (m(d \<mapsto> c)) (d + 1) n" unfolding one by (rule mapped_put) (use md in simp)
  show "apart (d + 1) n (q + 1) r" using apart_sub [OF ap, of 1 n 1 r] by simp
  show "put (m(d \<mapsto> c)) (d + 1) cs = put m d (c # cs)" if "length cs = n"
    using that n by (intro put_step) simp
  show "st8 m d c = Some (m(d \<mapsto> c))" using md by (simp add: st8_def)
qed

lemma fill_while_run:
  "fetch m (src + of_nat j) (length cs) = Some cs \<Longrightarrow> \<forall>c \<in> set cs. go c \<Longrightarrow> i + length cs \<le> n \<Longrightarrow>
   i + length cs < n \<longrightarrow> (\<exists>c. m (src + of_nat (j + length cs)) = Some c \<and> \<not> go c) \<Longrightarrow>
   mapped m (dst + of_nat i) (length cs) \<Longrightarrow>
   apart (dst + of_nat i) (length cs) (src + of_nat j) (Suc (length cs)) \<Longrightarrow> length cs < 2 ^ 31 \<Longrightarrow>
   fill_while go n src dst i j m = Some (i + length cs, j + length cs, put m (dst + of_nat i) cs)"
proof (induction cs arbitrary: i j m)
  case Nil
  then show ?case by (subst fill_while.simps) auto
next
  case (Cons c cs)
  have src: "src + of_nat (Suc j) = src + of_nat j + 1" and dst: "dst + of_nat (Suc i) = dst + of_nat i + 1"
    by (simp_all add: add.assoc add.commute)
  have at: "src + of_nat (Suc (j + length cs)) = src + of_nat j + 1 + of_nat (length cs)"
    by (simp add: add.assoc add.commute add.left_commute)
  note step = copy_step [where d = "dst + of_nat i" and q = "src + of_nat j" and n = "length cs" and m = m
      and r = "Suc (length cs)"]
  have "fill_while go n src dst (Suc i) (Suc j) (m(dst + of_nat i \<mapsto> c))
      = Some (Suc i + length cs, Suc j + length cs,
          put (m(dst + of_nat i \<mapsto> c)) (dst + of_nat (Suc i)) cs)"
    by (rule Cons.IH)
      (use Cons.prems step(1-4) in \<open>auto simp: src dst at simp del: fun_upd_apply of_nat_add of_nat_Suc
         split: Option.bind_splits\<close>)
  then show ?case
    using Cons.prems step(5,6) by (subst fill_while.simps) (auto simp: src dst simp del: of_nat_add of_nat_Suc split: Option.bind_splits)
qed

lemma copy_while_run:
  "fetch m (src + of_nat i) (length cs) = Some cs \<Longrightarrow> \<forall>c \<in> set cs. go c \<Longrightarrow> i + length cs \<le> n \<Longrightarrow>
   i + length cs < n \<longrightarrow> (\<exists>c. m (src + of_nat (i + length cs)) = Some c \<and> \<not> go c) \<Longrightarrow>
   mapped m (dst + of_nat j) (length cs) \<Longrightarrow>
   apart (dst + of_nat j) (length cs) (src + of_nat i) (n - i) \<Longrightarrow> length cs < 2 ^ 31 \<Longrightarrow>
   copy_while go n src dst i j m = Some (i + length cs, j + length cs, put m (dst + of_nat j) cs)"
proof (induction cs arbitrary: i j m)
  case Nil
  then show ?case by (subst copy_while.simps) auto
next
  case (Cons c cs)
  have src: "src + of_nat (Suc i) = src + of_nat i + 1" and dst: "dst + of_nat (Suc j) = dst + of_nat j + 1"
    by (simp_all add: add.assoc add.commute)
  have at: "src + of_nat (Suc (i + length cs)) = src + of_nat i + 1 + of_nat (length cs)"
    by (simp add: add.assoc add.commute add.left_commute)
  note step = copy_step [where d = "dst + of_nat j" and q = "src + of_nat i" and n = "length cs" and m = m
      and r = "n - Suc i"]
  have r: "n - i = Suc (n - Suc i)" "length cs \<le> n - Suc i" using Cons.prems(3) by auto
  have more: "i + length (c # cs) < n \<longleftrightarrow> length cs < n - Suc i" by auto
  have "copy_while go n src dst (Suc i) (Suc j) (m(dst + of_nat j \<mapsto> c))
      = Some (Suc i + length cs, Suc j + length cs,
          put (m(dst + of_nat j \<mapsto> c)) (dst + of_nat (Suc j)) cs)"
    by (rule Cons.IH)
      (use Cons.prems step(1-4) r more in \<open>auto simp: src dst at simp del: fun_upd_apply of_nat_add of_nat_Suc
         split: Option.bind_splits\<close>)
  then show ?case
    using Cons.prems step(5,6) r by (subst copy_while.simps) (auto simp: src dst simp del: of_nat_add of_nat_Suc split: Option.bind_splits)
qed

section \<open>Names as byte strings\<close>

definition pad :: "nat \<Rightarrow> u8 list \<Rightarrow> u8 list" where
  "pad n s = s @ replicate (n - length s) 32"

definition base_part :: "u8 list \<Rightarrow> u8 list" where
  "base_part s = take 8 (takeWhile (\<lambda>c. c \<noteq> 46) s)"

definition after_base :: "u8 list \<Rightarrow> u8 list" where
  "after_base s = (case drop (length (base_part s)) s of [] \<Rightarrow> [] | c # r \<Rightarrow> if c = 46 then r else c # r)"

definition to_8_3 :: "u8 list \<Rightarrow> u8 list" where
  "to_8_3 s = pad 8 (base_part s) @ pad 3 (take 3 (after_base s))"

definition from_8_3 :: "u8 list \<Rightarrow> u8 list" where
  "from_8_3 e =
     takeWhile (\<lambda>c. c \<noteq> 32) (take 8 e)
     @ (if e ! 8 \<noteq> 32 then 46 # takeWhile (\<lambda>c. c \<noteq> 32) (drop 8 e) else [])"

lemma length_base_part: "length (base_part s) \<le> 8"
  by (simp add: base_part_def)

lemma length_to_8_3 [simp]: "length (to_8_3 s) = 11"
  using length_base_part [of s] by (simp add: to_8_3_def pad_def)

lemma base_part_take: "base_part s = take (length (base_part s)) s" "length (base_part s) \<le> length s"
proof -
  let ?k = "length (takeWhile (\<lambda>c. c \<noteq> 46) s)"
  have k: "?k \<le> length s" by (rule length_takeWhile_le)
  have "takeWhile (\<lambda>c. c \<noteq> 46) s = take ?k s" by (rule takeWhile_eq_take)
  then have b: "base_part s = take (min 8 ?k) s" unfolding base_part_def by (metis take_take)
  then have "length (base_part s) = min 8 ?k" using k by simp
  then show "base_part s = take (length (base_part s)) s" "length (base_part s) \<le> length s"
    using b k by simp_all
qed

lemma after_base_split:
  "\<exists>k. after_base s = drop (length (base_part s) + k) s \<and> length (base_part s) + k \<le> length s \<and>
     k = (if drop (length (base_part s)) s \<noteq> [] \<and> s ! length (base_part s) = 46 then 1 else 0)"
proof (cases "drop (length (base_part s)) s")
  case Nil
  then show ?thesis using base_part_take(2) [of s] by (simp add: after_base_def)
next
  case (Cons c r)
  then have "length (base_part s) < length s" by (metis drop_eq_Nil list.distinct(1) not_le)
  moreover have "s ! length (base_part s) = c" "drop (Suc (length (base_part s))) s = r"
    using Cons calculation by (metis nth_via_drop, metis drop_Suc list.sel(3) tl_drop)
  ultimately show ?thesis using Cons by (simp add: after_base_def)
qed

lemma put_put_inside:
  assumes "i + length bs \<le> length as" and "length as \<le> 2 ^ 32"
  shows "put (put m p as) (p + of_nat i) bs = put m p (take i as @ bs @ drop (i + length bs) as)"
proof
  fix a
  let ?k = "unat (a - p)"
  have off: "unat (a - (p + of_nat i)) = ?k - i" if "i \<le> ?k"
  proof -
    have "a - (p + of_nat i) = (a - p) - of_nat i" by simp
    moreover have "unat (of_nat i :: u32) = i"
      using that unat_lt_2p32 [of "a - p"] by (intro unat_of_nat32) simp
    ultimately show ?thesis using that by (simp only: unat_sub word_le_nat_alt)
  qed
  have low: "\<not> unat (a - (p + of_nat i)) < length bs" if "?k < i"
  proof
    assume lt: "unat (a - (p + of_nat i)) < length bs"
    have "p + of_nat i + of_nat (unat (a - (p + of_nat i))) = a" by simp
    then have "p + of_nat (i + unat (a - (p + of_nat i))) = p + of_nat ?k"
      by (simp add: add.assoc)
    then have "i + unat (a - (p + of_nat i)) = ?k"
      by (rule offset_inj) (use lt that assms unat_lt_2p32 [of "a - p"] in simp_all)
    then show False using that by simp
  qed
  show "put (put m p as) (p + of_nat i) bs a = put m p (take i as @ bs @ drop (i + length bs) as) a"
  proof (cases "?k < i")
    case True
    then show ?thesis using low assms by (simp add: put_def nth_append)
  next
    case False
    then show ?thesis using off assms by (auto simp: put_def nth_append)
  qed
qed

lemma put_append:
  assumes "length (as @ bs) < 2 ^ 32" and "length as = n"
  shows "put (put m p as) (p + of_nat n) bs = put m p (as @ bs)"
  using assms
proof (induction bs rule: rev_induct)
  case (snoc b bs)
  have "put (put m p as) (p + of_nat n) (bs @ [b])
      = (put (put m p as) (p + of_nat n) bs)(p + of_nat n + of_nat (length bs) \<mapsto> b)"
    using snoc.prems by (simp add: put_snoc)
  also have "\<dots> = (put m p (as @ bs))(p + of_nat (length (as @ bs)) \<mapsto> b)"
    using snoc by (simp add: add.assoc)
  also have "\<dots> = put m p ((as @ bs) @ [b])"
    by (rule put_snoc) (use snoc.prems in simp)
  finally show ?case by simp
qed simp

lemma cstr_fetch_part:
  "cstr m p s \<Longrightarrow> i + k \<le> length s \<Longrightarrow> fetch m (p + of_nat i) k = Some (take k (drop i s))"
  using fetch_sub [OF cstr_fetch, of m p s i k] by simp

lemma cstr_char: "cstr m p s \<Longrightarrow> i < length s \<Longrightarrow> m (p + of_nat i) = Some (s ! i) \<and> s ! i \<noteq> 0"
  using cstr_nth(1) cstr_nonzero nth_mem by blast

lemma base_part_stops:
  "length (base_part s) < 8 \<Longrightarrow> length (base_part s) < length s \<Longrightarrow> s ! length (base_part s) = 46"
proof -
  let ?w = "takeWhile (\<lambda>c. c \<noteq> 46) s"
  assume "length (base_part s) < 8" and lt: "length (base_part s) < length s"
  then have "base_part s = ?w" by (simp add: base_part_def)
  then show ?thesis using nth_length_takeWhile [of "\<lambda>c. c \<noteq> 46" s] lt by simp
qed

lemma base_part_chars: "c \<in> set (base_part s) \<Longrightarrow> c \<noteq> 46 \<and> c \<in> set s"
  unfolding base_part_def using set_takeWhileD [of c "\<lambda>c. c \<noteq> 46" s] by (blast dest: in_set_takeD)

lemma take_length_take: "take (length (take k xs)) xs = take k xs"
  by (cases "length xs \<le> k") simp_all

lemma normal_to_8_3_put:
  assumes s: "cstr m name s" and d: "mapped m fat_name 11"
    and ap: "apart fat_name 11 name (Suc (length s))"
  shows "fat12_normal_to_8_3 m name fat_name = Some (put m fat_name (to_8_3 s))"
proof -
  let ?b = "base_part s" and ?e = "take 3 (after_base s)"
  let ?n = "length (base_part s)"
  define m1 where "m1 = put m fat_name (replicate 11 32)"
  define m2 where "m2 = put m fat_name (?b @ replicate (11 - ?n) 32)"
  have n8: "?n \<le> 8" by (rule length_base_part)
  have ns: "?n \<le> length s" by (rule base_part_take(2))
  have ms: "memset m fat_name 32 11 = Some (fat_name, m1)"
    using memset_put [of m fat_name 11 32] d by (simp add: m1_def)
  have s1: "cstr m1 name s"
    unfolding m1_def using ap s by (subst cstr_put_apart) simp_all
  have s2: "cstr m2 name s"
    unfolding m2_def using ap n8 s by (subst cstr_put_apart) simp_all
  have map1: "mapped m1 fat_name 11" and map2: "mapped m2 fat_name 11"
    unfolding m1_def m2_def by (rule mapped_put [OF d])+
  have "fill_while (\<lambda>c. c \<noteq> 0 \<and> c \<noteq> 46) 8 name fat_name 0 0 m1
      = Some (0 + ?n, 0 + ?n, put m1 (fat_name + of_nat 0) ?b)"
  proof (rule fill_while_run)
    show "fetch m1 (name + of_nat 0) ?n = Some ?b"
      using cstr_fetch_part [OF s1, of 0 ?n] ns base_part_take(1) [of s] by simp
    show "\<forall>c \<in> set ?b. c \<noteq> 0 \<and> c \<noteq> 46" using base_part_chars cstr_nonzero [OF s] by blast
    show "0 + ?n < 8 \<longrightarrow> (\<exists>c. m1 (name + of_nat (0 + ?n)) = Some c \<and> \<not> (c \<noteq> 0 \<and> c \<noteq> 46))"
      using base_part_stops [of s] cstr_char [OF s1, of ?n] cstr_nth(2) [OF s1] ns
      by (cases "?n = length s") auto
    show "mapped m1 (fat_name + of_nat 0) ?n" using mapped_mono [OF map1, of ?n] n8 by simp
    show "apart (fat_name + of_nat 0) ?n (name + of_nat 0) (Suc ?n)"
      using apart_mono [OF ap, of ?n "Suc ?n"] n8 ns by simp
  qed (use n8 in simp_all)
  moreover have "put m1 fat_name ?b = m2"
    using put_put_inside [of 0 ?b "replicate 11 32" m fat_name] n8 by (simp add: m1_def m2_def)
  ultimately have one: "fill_while (\<lambda>c. c \<noteq> 0 \<and> c \<noteq> 46) 8 name fat_name 0 0 m1 = Some (?n, ?n, m2)"
    by simp
  define k where "k = (if ?n < length s \<and> s ! ?n = 46 then 1 else 0 :: nat)"
  have ab: "after_base s = drop (?n + k) s" "?n + k \<le> length s"
    using after_base_split [of s] by (auto simp: k_def not_le split: if_splits)
  obtain c where c: "m2 (name + of_nat ?n) = Some c" "(if c = 46 then ?n + 1 else ?n) = ?n + k"
    using cstr_char [OF s2, of ?n] cstr_nth(2) [OF s2] ns
    by (cases "?n = length s") (auto simp: k_def)
  have le: "length ?e \<le> 3" "?n + k + length ?e \<le> length s" using ab by auto
  have "fill_while (\<lambda>c. c \<noteq> 0) 11 name fat_name 8 (?n + k) m2
      = Some (8 + length ?e, ?n + k + length ?e, put m2 (fat_name + of_nat 8) ?e)"
  proof (rule fill_while_run)
    show "fetch m2 (name + of_nat (?n + k)) (length ?e) = Some ?e"
      using cstr_fetch_part [OF s2, of "?n + k" "length ?e"] le ab take_length_take [of 3 "after_base s"]
      by simp
    show "\<forall>c \<in> set ?e. c \<noteq> 0" using cstr_nonzero [OF s] ab by (auto dest: in_set_takeD in_set_dropD)
    show "8 + length ?e < 11 \<longrightarrow> (\<exists>c. m2 (name + of_nat (?n + k + length ?e)) = Some c \<and> \<not> c \<noteq> 0)"
      using cstr_nth(2) [OF s2] ab by (auto simp: min_def not_le split: if_splits simp del: of_nat_add)
    show "mapped m2 (fat_name + of_nat 8) (length ?e)" using mapped_sub [OF map2, of 8 "length ?e"] le by simp
    show "apart (fat_name + of_nat 8) (length ?e) (name + of_nat (?n + k)) (Suc (length ?e))"
      using apart_sub [OF ap, of 8 "length ?e" "?n + k" "Suc (length ?e)"] le by simp
  qed (use le in simp_all)
  moreover have "put m2 (fat_name + of_nat 8) ?e = put m fat_name (to_8_3 s)"
    using put_put_inside [of 8 ?e "?b @ replicate (11 - ?n) 32" m fat_name] n8 le
    by (simp add: m2_def to_8_3_def pad_def min_def)
  ultimately show ?thesis
    using ms one c by (simp add: fat12_normal_to_8_3_def Let_def)
qed

lemma to_normal_put:
  assumes f: "fetch m fat_name 11 = Some e" and d: "mapped m out 13"
    and ap: "apart out 13 fat_name 11"
  shows "fat12_8_3to_normal m fat_name out = Some (put m out (from_8_3 e @ [0]))"
proof -
  let ?b = "takeWhile (\<lambda>c. c \<noteq> 32) (take 8 e)"
  let ?n = "length ?b"
  have len: "length e = 11" by (rule fetch_length [OF f])
  have n8: "?n \<le> 8" by (metis length_take length_takeWhile_le min.bounded_iff)
  have at: "m (fat_name + of_nat i) = Some (e ! i)" if "i < 11" for i
    using f that by (simp add: fetch_iff)
  have "copy_while (\<lambda>c. c \<noteq> 32) 8 fat_name out 0 0 m = Some (0 + ?n, 0 + ?n, put m (out + of_nat 0) ?b)"
  proof (rule copy_while_run)
    have "fetch m fat_name ?n = Some (take ?n e)" using fetch_take [OF f, of ?n] n8 by simp
    moreover have "take ?n e = ?b" by (metis takeWhile_eq_take take_take min_absorb1 n8)
    ultimately show "fetch m (fat_name + of_nat 0) ?n = Some ?b" by simp
    show "\<forall>c \<in> set ?b. c \<noteq> 32" by (auto dest: set_takeWhileD)
    show "0 + ?n < 8 \<longrightarrow> (\<exists>c. m (fat_name + of_nat (0 + ?n)) = Some c \<and> \<not> c \<noteq> 32)"
      using at [of ?n] len nth_length_takeWhile [of "\<lambda>c. c \<noteq> 32" "take 8 e"] by simp
    show "mapped m (out + of_nat 0) ?n" using mapped_mono [OF d, of ?n] n8 by simp
    show "apart (out + of_nat 0) ?n (fat_name + of_nat 0) (8 - 0)"
      using apart_mono [OF ap, of ?n 8] n8 by simp
  qed (use n8 in simp_all)
  then have one: "copy_while (\<lambda>c. c \<noteq> 32) 8 fat_name out 0 0 m = Some (?n, ?n, put m out ?b)" by simp
  let ?m1 = "put m out ?b"
  have f1: "fetch ?m1 fat_name 11 = Some e"
    using fetch_put_apart [OF apart_mono [OF ap, of ?n 11]] f n8 by simp
  have at1: "?m1 (fat_name + of_nat i) = Some (e ! i)" if "i < 11" for i
    using f1 that by (simp add: fetch_iff)
  have map1: "?m1 (out + of_nat ?n) \<noteq> None" "m (out + of_nat ?n) \<noteq> None"
    using mapped_put [OF d, where p = "out" and bs = ?b] d n8 by (simp_all add: mapped_iff)
  have at_out: "m (out + of_nat i) \<noteq> None" if "i < 13" for i
    using d that unfolding mapped_iff by blast
  have e8: "?m1 (fat_name + 8) = Some (e ! 8)" using at1 [of 8] by simp
  show ?thesis
  proof (cases "e ! 8 = 32")
    case True
    then have "from_8_3 e = ?b" by (simp add: from_8_3_def)
    then show ?thesis
      using one e8 True st8_put_snoc [of ?b m out 0] n8 map1
      by (simp add: fat12_8_3to_normal_def)
  next
    case False
    let ?x = "takeWhile (\<lambda>c. c \<noteq> 32) (drop 8 e)"
    let ?m2 = "put m out (?b @ [46])"
    have x3: "length ?x \<le> 3" using length_takeWhile_le [of "\<lambda>c. c \<noteq> 32" "drop 8 e"] len by simp
    have dot: "st8 ?m1 (out + of_nat ?n) 46 = Some ?m2"
      using st8_put_snoc [of ?b m out 46] n8 map1 by simp
    have f2: "fetch ?m2 fat_name 11 = Some e"
      using fetch_put_apart [of out "?b @ [46]" fat_name 11 m] apart_mono [OF ap, of "Suc ?n" 11] f n8
      by simp
    have "copy_while (\<lambda>c. c \<noteq> 32) 11 fat_name out 8 (?n + 1) ?m2
        = Some (8 + length ?x, ?n + 1 + length ?x, put ?m2 (out + of_nat (?n + 1)) ?x)"
    proof (rule copy_while_run)
      have "?x = take (length ?x) (drop 8 e)" by (rule takeWhile_eq_take)
      then show "fetch ?m2 (fat_name + of_nat 8) (length ?x) = Some ?x"
        using fetch_sub [OF f2, of 8 "length ?x"] x3 by simp
      show "\<forall>c \<in> set ?x. c \<noteq> 32" by (auto dest: set_takeWhileD)
      show "8 + length ?x < 11 \<longrightarrow> (\<exists>c. ?m2 (fat_name + of_nat (8 + length ?x)) = Some c \<and> \<not> c \<noteq> 32)"
        using f2 len nth_length_takeWhile [of "\<lambda>c. c \<noteq> 32" "drop 8 e"]
        by (simp add: fetch_iff del: of_nat_add)
      show "mapped ?m2 (out + of_nat (?n + 1)) (length ?x)"
        using mapped_sub [OF mapped_put [OF d, where p = "out" and bs = "?b @ [46]"], of "?n + 1" "length ?x"] n8 x3
        by simp
      show "apart (out + of_nat (?n + 1)) (length ?x) (fat_name + of_nat 8) (11 - 8)"
        using apart_sub [OF ap, of "?n + 1" "length ?x" 8 3] n8 x3 by simp
    qed (use n8 x3 in simp_all)
    moreover have "put ?m2 (out + of_nat (?n + 1)) ?x = put m out ((?b @ [46]) @ ?x)"
      by (rule put_append) (use n8 x3 in simp_all)
    moreover have "from_8_3 e = (?b @ [46]) @ ?x" using False by (simp add: from_8_3_def)
    moreover have "st8 (put m out ((?b @ [46]) @ ?x)) (out + of_nat (length ((?b @ [46]) @ ?x))) 0
        = Some (put m out (((?b @ [46]) @ ?x) @ [0]))"
      by (rule st8_put_snoc) (use n8 x3 in simp, rule at_out, use n8 x3 in simp)
    ultimately show ?thesis
      using one e8 False dot by (simp add: fat12_8_3to_normal_def)
  qed
qed

section \<open>The conversions\<close>

text \<open>A name the format allows: a base of at most eight characters, and after a dot an extension of
  one to three.\<close>

definition is_8_3 :: "u8 list \<Rightarrow> bool" where
  "is_8_3 s \<longleftrightarrow> 32 \<notin> set s \<and> length (takeWhile (\<lambda>c. c \<noteq> 46) s) \<le> 8 \<and>
     (case dropWhile (\<lambda>c. c \<noteq> 46) s of [] \<Rightarrow> True | _ # e \<Rightarrow> e \<noteq> [] \<and> length e \<le> 3)"

lemma takeWhile_pad: "32 \<notin> set s \<Longrightarrow> takeWhile (\<lambda>c. c \<noteq> 32) (pad n s) = s"
  unfolding pad_def by (subst takeWhile_append2) (auto simp: takeWhile_eq_Nil_iff)

lemma from_to_8_3:
  assumes "is_8_3 s"
  shows "from_8_3 (to_8_3 s) = s"
proof -
  let ?w = "takeWhile (\<lambda>c. c \<noteq> 46) s" and ?d = "dropWhile (\<lambda>c. c \<noteq> 46) s"
  have s: "s = ?w @ ?d" by simp
  have w: "length ?w \<le> 8"
    using assms by (simp add: is_8_3_def)
  have b: "base_part s = ?w" using w by (simp add: base_part_def)
  have no: "32 \<notin> set ?w" using assms by (auto simp: is_8_3_def dest: set_takeWhileD)
  have l8: "length (pad 8 ?w) = 8" using w by (simp add: pad_def)
  have t8: "take 8 (to_8_3 s) = pad 8 ?w" and d8: "drop 8 (to_8_3 s) = pad 3 (take 3 (after_base s))"
    using l8 b by (simp_all add: to_8_3_def)
  have n8: "to_8_3 s ! 8 = pad 3 (take 3 (after_base s)) ! 0"
    using l8 b by (simp add: to_8_3_def nth_append)
  have dr: "drop (length ?w) s = ?d" by (metis append_eq_conv_conj s)
  show ?thesis
  proof (cases ?d)
    case Nil
    then have "after_base s = []" unfolding after_base_def b dr by (simp only: Nil list.case)
    then show ?thesis
      using Nil s t8 d8 n8 takeWhile_pad [OF no] by (simp add: from_8_3_def pad_def)
  next
    case (Cons c e)
    have c: "c = 46" using Cons hd_dropWhile [of "\<lambda>c. c \<noteq> 46" s] by auto
    have e: "e \<noteq> []" "length e \<le> 3" using assms Cons by (simp_all add: is_8_3_def)
    have "after_base s = e" unfolding after_base_def b dr by (simp add: Cons c)
    then have ab: "take 3 (after_base s) = e" using e by simp
    have ne: "32 \<notin> set e"
      using assms Cons by (metis is_8_3_def list.set_intros(2) set_dropWhileD)
    then have "pad 3 e ! 0 \<noteq> 32" using e by (cases e) (auto simp: pad_def)
    then show ?thesis
      using s Cons c t8 d8 n8 ab takeWhile_pad [OF no] takeWhile_pad [OF ne] by (simp add: from_8_3_def)
  qed
qed

text \<open>C29: a file name of the 8.3 form converted to the padded form of the directory and back is the
  name: both conversions run without fault on a buffer of eleven and one of thirteen bytes, and the
  second buffer then holds the string the first was given.\<close>

theorem fat12_name_roundtrip:
  assumes "cstr m name s" and "is_8_3 s"
    and "mapped m fat_name 11" and "mapped m out 13"
    and "apart fat_name 11 name (Suc (length s))" and "apart out 13 fat_name 11"
  shows "\<exists>m1 m2. fat12_normal_to_8_3 m name fat_name = Some m1 \<and>
    fat12_8_3to_normal m1 fat_name out = Some m2 \<and> cstr m2 out s"
proof -
  let ?m1 = "put m fat_name (to_8_3 s)"
  have "fetch ?m1 fat_name 11 = Some (to_8_3 s)" using fetch_put_same [of "to_8_3 s" m fat_name] by simp
  then have "fat12_8_3to_normal ?m1 fat_name out = Some (put ?m1 out (from_8_3 (to_8_3 s) @ [0]))"
    by (rule to_normal_put [OF _ mapped_put [OF assms(4)] assms(6)])
  moreover have "cstr (put ?m1 out (s @ [0])) out s"
    by (rule cstr_put [OF cstr_length [OF assms(1)]]) (use cstr_nonzero [OF assms(1)] in blast)
  ultimately show ?thesis
    using normal_to_8_3_put [OF assms(1,3,5)] from_to_8_3 [OF assms(2)] by simp
qed


definition names_mem :: "u8 list \<Rightarrow> mem" where
  "names_mem s = put (\<lambda>a. if a < 0x10000 then Some 0 else None) 0x1000 (s @ [0])"

lemma names_mem_mapped: "unat p + n \<le> 0x10000 \<Longrightarrow> mapped (names_mem s) p n"
proof -
  assume le: "unat p + n \<le> 0x10000"
  have "p + of_nat i < 0x10000" if "i < n" for i
  proof -
    have "unat (of_nat i :: u32) = i" using le that by (simp add: unat_of_nat32)
    then have "unat (p + of_nat i) = unat p + i" using le that by (simp add: unat_word_ariths)
    then show ?thesis using le that by (simp add: word_less_nat_alt)
  qed
  then show ?thesis unfolding names_mem_def by (intro mapped_put) (simp add: mapped_iff)
qed

theorem fat12_name_roundtrip_witness:
  "\<exists>m1 m2. fat12_normal_to_8_3 (names_mem [72, 73, 46, 84, 88]) 0x1000 0x2000 = Some m1 \<and>
    fat12_8_3to_normal m1 0x2000 0x3000 = Some m2 \<and> cstr m2 0x3000 [72, 73, 46, 84, 88]"
proof -
  let ?s = "[72, 73, 46, 84, 88] :: u8 list"
  have "cstr (names_mem ?s) 0x1000 ?s" unfolding names_mem_def by (rule cstr_put) simp_all
  from fat12_name_roundtrip [OF this, of "0x2000" "0x3000"] show ?thesis
    by (simp add: names_mem_mapped apart_def is_8_3_def)
qed


end
