(* ===== verification/Fat12Read.thy ===== *)
theory Fat12Read
  imports Fat12Spec
begin

text \<open>
  Reading a file. The content of a file is the concatenation of the sectors of its cluster chain,
  cut to the size in its directory entry. Inside the locale of a block source, \<open>fat12_read\<close> on a
  volume of one sector of 512 bytes per cluster is shown to return the slice of the content that
  was asked for, as long as the chain is contiguous up to the cluster the read starts in.
\<close>

unbundle bit_operations_syntax

section \<open>Files on the volume\<close>

definition sector_of :: "fat12_handle \<Rightarrow> u16 \<Rightarrow> nat" where
  "sector_of fs c = unat (data_area_start fs) + (unat c - 2)"

definition cluster_ok :: "nat \<Rightarrow> u16 list \<Rightarrow> fat12_handle \<Rightarrow> u16 \<Rightarrow> bool" where
  "cluster_ok blocks es fs c \<longleftrightarrow>
     2 \<le> c \<and> c < FAT12_EOC_MIN \<and> unat c < length es \<and> sector_of fs c < blocks
     \<and> sector_of fs c < 2 ^ 32"

fun chained :: "u16 list \<Rightarrow> u16 list \<Rightarrow> bool" where
  "chained es (c # d # cs) \<longleftrightarrow> es ! unat c = d \<and> chained es (d # cs)"
| "chained es _ \<longleftrightarrow> True"

text \<open>What a read that starts at offset \<open>off\<close> of the first cluster and ends at offset \<open>e\<close> of the last
  takes of each.\<close>

fun pieces :: "(u16 \<Rightarrow> u8 list) \<Rightarrow> nat \<Rightarrow> nat \<Rightarrow> u16 list \<Rightarrow> u8 list" where
  "pieces f off e [] = []"
| "pieces f off e [c] = take (e - off) (drop off (f c))"
| "pieces f off e (c # d # cs) = drop off (f c) @ pieces f 0 e (d # cs)"

lemma pieces_slice:
  assumes "\<forall>c \<in> set cs. length (f c) = 512" and "cs \<noteq> []" and "off < 512" and "e \<le> 512"
    and "length cs = 1 \<longrightarrow> off \<le> e"
  shows "pieces f off e cs = take (512 * (length cs - 1) + e - off) (drop off (concat (map f cs)))"
  using assms
proof (induction f off e cs rule: pieces.induct)
  case (3 f off e c d cs)
  have len: "length (f c) = 512" using 3 by simp
  have "pieces f 0 e (d # cs) = take (512 * length cs + e) (concat (map f (d # cs)))"
    using 3 by simp
  moreover have "take (512 * Suc (length cs) + e - off) (drop off (f c @ concat (map f (d # cs))))
      = drop off (f c) @ take (512 * length cs + e) (concat (map f (d # cs)))"
    using len 3(4) by simp
  ultimately show ?case by simp
qed simp_all

lemma length_pieces:
  assumes "\<forall>c \<in> set cs. length (f c) = 512" and "cs \<noteq> []" and "off < 512" and "e \<le> 512"
    and "length cs = 1 \<longrightarrow> off \<le> e"
  shows "length (pieces f off e cs) = 512 * (length cs - 1) + e - off"
proof -
  have "length (concat (map f cs)) = 512 * length cs"
    using assms(1) by (induction cs) auto
  then show ?thesis
    unfolding pieces_slice [OF assms] length_take length_drop
    using assms(2-5) by (cases "length cs") auto
qed

lemma cluster_to_lba_sector:
  assumes "fetch m (bpb fs + 13) 1 = Some [1]" and "cluster_ok blocks es fs c"
  shows "\<exists>lba. fat12_cluster_to_lba m fs c = Some lba \<and> unat lba = sector_of fs c"
proof -
  have c: "2 \<le> unat c" "unat c < 65536" "\<not> c < 2"
    using assms(2) unsigned_less [of c, where ?'a = nat]
    by (auto simp: cluster_ok_def word_le_nat_alt not_less)
  have uc: "unat (ucast c :: u32) = unat c"
    using c by (simp add: unsigned_ucast_eq take_bit_nat_eq_self)
  have le: "(2 :: u32) \<le> ucast c" using c uc by (simp add: word_le_nat_alt)
  have sub: "unat (ucast c - 2 :: u32) = unat c - 2" using le uc by (simp add: unat_sub)
  have "unat (data_area_start fs) + (unat c - 2) < 2 ^ 32"
    using assms(2) by (simp add: cluster_ok_def sector_of_def)
  then have "unat (data_area_start fs + (ucast c - 2)) = sector_of fs c"
    by (simp add: sector_of_def unat_word_ariths sub)
  moreover have "m (bpb fs + 13) = Some 1" using assms(1) by (auto split: Option.bind_splits)
  ultimately show ?thesis using c(3) by (simp add: fat12_cluster_to_lba_def bpb_sectors_per_cluster_def)
qed

lemma io_step_fs_fields:
  assumes "io_step s t"
  shows "vnodes t = vnodes s" "vfss t = vfss s" "handles t = handles s" "inodes t = inodes s"
    "fsst.more t = fsst.more s"
  by (subst assms [unfolded io_step_def]; simp)+

section \<open>One cluster\<close>

text \<open>The areas a read writes, and what must be clear of them.\<close>

definition clear_of :: "ptr \<Rightarrow> ptr \<Rightarrow> nat \<Rightarrow> ptr \<Rightarrow> ptr \<Rightarrow> nat \<Rightarrow> bool" where
  "clear_of rb buf n sc q k \<longleftrightarrow> apart rb 512 q k \<and> apart buf n q k \<and> apart sc 512 q k"

definition read_areas :: "fat12_handle \<Rightarrow> u16 list \<Rightarrow> ptr \<Rightarrow> ptr \<Rightarrow> nat \<Rightarrow> ptr \<Rightarrow> bool" where
  "read_areas fs es rb buf n sc \<longleftrightarrow>
     rb \<noteq> NULL \<and> n \<le> 2 ^ 32 \<and> apart rb 512 buf n \<and> apart rb 512 sc 512 \<and> apart sc 512 buf n
     \<and> clear_of rb buf n sc (fat_table fs) (length (pack12 es))
     \<and> clear_of rb buf n sc (bpb fs + 13) 1"

definition read_state :: "mem \<Rightarrow> fat12_handle \<Rightarrow> u16 list \<Rightarrow> ptr \<Rightarrow> ptr \<Rightarrow> nat \<Rightarrow> bool" where
  "read_state m fs es rb buf n \<longleftrightarrow>
     fat_holds m fs es \<and> fetch m (bpb fs + 13) 1 = Some [1] \<and> mapped m buf n \<and> mapped m rb 512"

locale fat_source = block_source read inv img scratch blocks
  for read :: "ptr \<Rightarrow> u32 \<Rightarrow> ptr \<Rightarrow> 'y fsst_scheme \<Rightarrow> (u32 \<times> 'y fsst_scheme) option"
    and inv img scratch blocks

context fat_source
begin

lemma read_cluster:
  assumes i: "inv d s" and ok: "cluster_ok blocks es fs c"
    and areas: "read_areas fs es rb buf n scratch" and st: "read_state (kmem s) fs es rb buf n"
    and pre: "fetch (kmem s) buf (length pre) = Some pre"
    and rng: "off \<le> e" "e \<le> 512" "length pre + (e - off) \<le> n"
  obtains lba s1 s2 where "fat12_cluster_to_lba (kmem s) fs c = Some lba"
    "read d lba rb s = Some (0, s1)"
    "memcpy (kmem s1) (buf + of_nat (length pre)) (rb + of_nat off) (of_nat (e - off)) =
       Some (buf + of_nat (length pre), kmem s2)"
    "s2 = s1\<lparr>kmem := kmem s2\<rparr>" "inv d s2" "io_step s s2" "read_state (kmem s2) fs es rb buf n"
    "fetch (kmem s2) buf (length pre + (e - off)) =
       Some (pre @ take (e - off) (drop off (img (sector_of fs c))))"
    "\<And>q k. clear_of rb buf n scratch q k \<Longrightarrow> fetch (kmem s2) q k = fetch (kmem s) q k"
    "\<And>q k. mapped (kmem s) q k \<Longrightarrow> mapped (kmem s2) q k"
proof -
  let ?p = "take (e - off) (drop off (img (sector_of fs c)))"
  have bpbf: "fetch (kmem s) (bpb fs + 13) 1 = Some [1]" and fat: "fat_holds (kmem s) fs es"
    and mbuf: "mapped (kmem s) buf n" and mrb: "mapped (kmem s) rb 512"
    using st by (simp_all add: read_state_def)
  have rb: "rb \<noteq> NULL" "n \<le> 2 ^ 32" "apart rb 512 buf n" "apart rb 512 scratch 512"
    "apart scratch 512 buf n"
    using areas by (simp_all add: read_areas_def)
  obtain lba where lba: "fat12_cluster_to_lba (kmem s) fs c = Some lba" "unat lba = sector_of fs c"
    using cluster_to_lba_sector [OF bpbf ok] by blast
  have inr: "unat lba < blocks" using ok lba(2) by (simp add: cluster_ok_def)
  obtain s1 where s1: "read d lba rb s = Some (0, s1)" "io_step s s1" "inv d s1"
    "fetch (kmem s1) rb 512 = Some (img (unat lba))"
    and s1f: "\<forall>q n. apart rb 512 q n \<longrightarrow> apart scratch 512 q n \<longrightarrow> fetch (kmem s1) q n = fetch (kmem s) q n"
    and s1m: "\<forall>q n. mapped (kmem s) q n \<longrightarrow> mapped (kmem s1) q n"
    using read_fetch [OF i inr rb(1) mrb rb(4)] by blast
  note s1f = s1f [rule_format] and s1m = s1m [rule_format]
  have len: "length (img (sector_of fs c)) = 512" by (rule img_length [OF i])
  have lp: "length ?p = e - off" using len rng by simp
  have ulen: "unat (of_nat (e - off) :: u32) = e - off" using rng by (simp add: unat_of_nat32 del: of_nat_diff)
  have "mapped (kmem s1) (buf + of_nat (length pre)) (e - off)"
    using mapped_sub [OF s1m [OF mbuf] rng(3)] by simp
  moreover have "fetch (kmem s1) (rb + of_nat off) (e - off) = Some ?p"
    using fetch_sub [OF s1(4), of off "e - off"] rng lba(2) by simp
  moreover have "apart (buf + of_nat (length pre)) (e - off) (rb + of_nat off) (e - off)"
    using apart_sub [OF apart_sym [THEN iffD1, OF rb(3)] rng(3), of off "e - off"] rng by simp
  ultimately have cp: "memcpy (kmem s1) (buf + of_nat (length pre)) (rb + of_nat off) (of_nat (e - off))
      = Some (buf + of_nat (length pre), put (kmem s1) (buf + of_nat (length pre)) ?p)"
    by (intro memcpy_put) (simp_all only: ulen)
  define s2 where "s2 = s1\<lparr>kmem := put (kmem s1) (buf + of_nat (length pre)) ?p\<rparr>"
  have k2: "kmem s2 = put (kmem s1) (buf + of_nat (length pre)) ?p" by (simp add: s2_def)
  have pre1: "fetch (kmem s1) buf (length pre) = Some pre"
    using s1f [of buf "length pre"] pre rb rng apart_mono [of _ _ buf n] by simp
  have ap: "apart (buf + of_nat (length pre)) (length ?p) buf (length pre)"
    using apart_next [of "length pre" "length ?p" buf] rng rb lp by simp
  have whole: "fetch (kmem s2) buf (length pre + (e - off)) = Some (pre @ ?p)"
  proof (rule fetch_append)
    show "fetch (kmem s2) buf (length pre) = Some pre"
      using fetch_put_apart [OF ap] pre1 by (simp add: k2)
    show "fetch (kmem s2) (buf + of_nat (length pre)) (e - off) = Some ?p"
      using fetch_put_same [of ?p "kmem s1" "buf + of_nat (length pre)"] lp rng by (simp add: k2)
  qed
  have frame: "fetch (kmem s2) q k = fetch (kmem s) q k" if "clear_of rb buf n scratch q k" for q k
  proof -
    have "apart (buf + of_nat (length pre)) (length ?p) q k"
      using apart_sub [of buf n q k "length pre" "length ?p" 0 k] that rng lp
      by (simp add: clear_of_def)
    then show ?thesis using s1f [of q k] that by (simp add: k2 fetch_put_apart clear_of_def)
  qed
  have "read_state (kmem s2) fs es rb buf n"
    using st areas frame mapped_put [OF s1m [OF mbuf]] mapped_put [OF s1m [OF mrb]]
    by (simp add: read_state_def read_areas_def fat_holds_def k2 del: fetch.simps One_nat_def)
  moreover have "inv d s2" by (rule inv_same [OF s1(3)]) (simp add: same_dev_def s2_def)
  moreover have "io_step s s2"
    by (rule io_stepI) (simp_all add: s2_def io_step_fields [OF s1(2)])
  moreover have "s2 = s1\<lparr>kmem := kmem s2\<rparr>" by (simp add: s2_def)
  moreover have "mapped (kmem s2) q k" if "mapped (kmem s) q k" for q k
    unfolding k2 by (rule mapped_put [OF s1m [OF that]])
  ultimately show ?thesis
    using that [of lba s1 s2] lba(1) s1(1) cp whole frame by (simp add: k2)
qed

lemma read_loop:
  assumes areas: "read_areas fs es rb buf n scratch" and e: "e \<le> 512"
    and os: "(if os mod 512 = 0 then 512 else os mod 512) = of_nat e" and dv: "block_dev fs = d"
  shows "cs \<noteq> [] \<Longrightarrow> \<forall>c \<in> set cs. cluster_ok blocks es fs c \<Longrightarrow> chained es cs \<Longrightarrow>
    unat ctr = k + length cs \<Longrightarrow> off < 512 \<Longrightarrow> length cs = 1 \<longrightarrow> off \<le> e \<Longrightarrow>
    of_nat off = (if k = 0 then oic else 0) \<Longrightarrow> inv d s \<Longrightarrow>
    read_state (kmem s) fs es rb buf n \<Longrightarrow> fetch (kmem s) buf (length pre) = Some pre \<Longrightarrow>
    length pre + length (pieces (\<lambda>c. img (sector_of fs c)) off e cs) \<le> n \<Longrightarrow>
    \<exists>t. fat12_read_loop read fs 512 oic os buf rb ctr (of_nat k) (hd cs) (of_nat (length pre)) s = Some t \<and>
      inv d t \<and> io_step s t \<and>
      fetch (kmem t) buf (length pre + length (pieces (\<lambda>c. img (sector_of fs c)) off e cs)) =
        Some (pre @ pieces (\<lambda>c. img (sector_of fs c)) off e cs) \<and>
      (\<forall>q j. clear_of rb buf n scratch q j \<longrightarrow> fetch (kmem t) q j = fetch (kmem s) q j) \<and>
      (\<forall>q j. mapped (kmem s) q j \<longrightarrow> mapped (kmem t) q j)"
proof (induction cs arbitrary: k pre s off)
  case Nil
  then show ?case by simp
next
  case (Cons c rest)
  let ?f = "\<lambda>c. img (sector_of fs c)"
  define e' where "e' = (if rest = [] then e else 512)"
  let ?p = "take (e' - off) (drop off (?f c))"
  have k16: "k + length (c # rest) < 65536"
    using Cons.prems(4) unsigned_less [of ctr, where ?'a = nat] by simp
  then have uk: "unat (of_nat k :: u16) = k" by (simp add: unat_of_nat take_bit_nat_eq_self)
  have lt: "of_nat k < ctr" using Cons.prems(4) uk by (simp add: word_less_nat_alt)
  have cok: "cluster_ok blocks es fs c" using Cons.prems(2) by simp
  have flen: "length (?f c) = 512" by (rule img_length [OF Cons.prems(8)])
  have oe: "off \<le> e'" "e' \<le> 512" using Cons.prems(5,6) e by (auto simp: e'_def)
  have plen: "length ?p = e' - off" using flen oe by simp
  have split: "pieces ?f off e (c # rest) = ?p @ pieces ?f 0 e rest"
    using flen by (cases rest) (simp_all add: e'_def)
  have fit: "length pre + (e' - off) \<le> n" using Cons.prems(11) plen unfolding split by simp
  have fat: "fat_holds (kmem s) fs es" using Cons.prems(9) by (simp add: read_state_def)
  have fe: "fat12_get_fentry (kmem s) fs c = Some (es ! unat c)"
    by (rule get_fentry_entry [OF fat]) (use cok in \<open>simp add: cluster_ok_def\<close>)
  obtain lba s1 s2 where st: "fat12_cluster_to_lba (kmem s) fs c = Some lba"
    "read d lba rb s = Some (0, s1)"
    "memcpy (kmem s1) (buf + of_nat (length pre)) (rb + of_nat off) (of_nat (e' - off)) =
       Some (buf + of_nat (length pre), kmem s2)"
    "s2 = s1\<lparr>kmem := kmem s2\<rparr>" "inv d s2" "io_step s s2" "read_state (kmem s2) fs es rb buf n"
    "fetch (kmem s2) buf (length pre + (e' - off)) = Some (pre @ ?p)"
    and fr: "\<And>q j. clear_of rb buf n scratch q j \<Longrightarrow> fetch (kmem s2) q j = fetch (kmem s) q j"
    and mp: "\<And>q j. mapped (kmem s) q j \<Longrightarrow> mapped (kmem s2) q j"
    using read_cluster [OF Cons.prems(8) cok areas Cons.prems(9,10) oe fit] by blast
  have cstart: "(if (of_nat k :: u16) = 0 then oic else 0) = of_nat off"
    using Cons.prems(7) uk by (cases "k = 0") (auto simp: word_unat_eq_iff)
  have last: "unat (of_nat k :: u16) = unat ctr - 1 \<longleftrightarrow> rest = []"
    using Cons.prems(4) uk by simp
  have eoc: "\<not> FAT12_EOC_MIN \<le> c" using cok by (simp add: cluster_ok_def not_le)
  have step: "fat12_read_loop read fs 512 oic os buf rb ctr (of_nat k) (hd (c # rest)) (of_nat (length pre)) s
      = fat12_read_loop read fs 512 oic os buf rb ctr (of_nat k + 1) (es ! unat c)
          (of_nat (length pre) + of_nat (e' - off)) s2"
  proof -
    have ce: "(if (if unat (of_nat k :: u16) = unat ctr - 1 then os mod 512 else 512) = 0 then 512
        else (if unat (of_nat k :: u16) = unat ctr - 1 then os mod 512 else 512)) - of_nat off
        = (of_nat (e' - off) :: u32)"
      unfolding last e'_def using os oe by (auto simp: of_nat_diff e'_def split: if_splits)
    show ?thesis
      by (subst fat12_read_loop.simps)
        (simp only: list.sel lt if_True fe Option.bind.bind_lunit st(1) dv st(2) prod.case Let_def
          cstart ce st(3) eoc if_False st(4) [symmetric])
  qed
  show ?case
  proof (cases rest)
    case Nil
    then have "\<not> of_nat k + 1 < ctr"
      using Cons.prems(4) uk lt unat_Suc_less [OF lt] by (simp add: word_less_nat_alt)
    then have "fat12_read_loop read fs 512 oic os buf rb ctr (of_nat k + 1) (es ! unat c)
          (of_nat (length pre) + of_nat (e' - off)) s2 = Some s2"
      by (subst fat12_read_loop.simps) simp
    then show ?thesis using st(5,6,8) fr mp step plen Nil unfolding split by simp
  next
    case (Cons c2 rest2)
    have hd: "es ! unat c = hd rest" using Cons.prems(3) Cons by simp
    have "\<exists>t. fat12_read_loop read fs 512 oic os buf rb ctr (of_nat (Suc k)) (hd rest)
          (of_nat (length (pre @ ?p))) s2 = Some t \<and> inv d t \<and> io_step s2 t \<and>
        fetch (kmem t) buf (length (pre @ ?p) + length (pieces ?f 0 e rest)) =
          Some ((pre @ ?p) @ pieces ?f 0 e rest) \<and>
        (\<forall>q j. clear_of rb buf n scratch q j \<longrightarrow> fetch (kmem t) q j = fetch (kmem s2) q j) \<and>
        (\<forall>q j. mapped (kmem s2) q j \<longrightarrow> mapped (kmem t) q j)"
    proof (rule Cons.IH)
      show "rest \<noteq> []" using Cons by simp
    qed (use Cons.prems Cons st plen in \<open>simp_all add: split\<close>)
    then show ?thesis
      using st(6) fr mp step plen hd io_step_trans [OF st(6)] unfolding split
      by (auto simp: add.assoc add.commute [of 1])
  qed
qed

end

section \<open>Slices of a file\<close>

text \<open>A file node: what \<open>fat12_open\<close> makes of a directory entry \<open>e\<close> on the volume of handle \<open>fs\<close>.\<close>

definition file_at :: "'z fsst_scheme \<Rightarrow> ptr \<Rightarrow> fat12_handle \<Rightarrow> u8 list \<Rightarrow> bool" where
  "file_at s node fs e \<longleftrightarrow>
     node \<noteq> NULL \<and>
     (case vnodes s node of None \<Rightarrow> False | Some n \<Rightarrow> vdata n \<noteq> NULL \<and>
        (case (vfss s (vfs_ptr n), inodes s (vdata n)) of
           (Some v, Some ind) \<Rightarrow>
             fs_data v \<noteq> NULL \<and> handles s (fs_data v) = Some fs \<and> dir_entry ind = e
         | _ \<Rightarrow> False)) \<and>
     de_attributes e AND FAT12_DIR = 0"

text \<open>The clusters of the file: a chain of the table from the first cluster of the entry, of valid
  clusters, long enough for the size.\<close>

definition file_chain :: "nat \<Rightarrow> u16 list \<Rightarrow> fat12_handle \<Rightarrow> u8 list \<Rightarrow> u16 list \<Rightarrow> bool" where
  "file_chain blocks es fs e cs \<longleftrightarrow>
     cs \<noteq> [] \<and> hd cs = de_first_cluster_low e \<and> distinct cs \<and> chained es cs
     \<and> (\<forall>c \<in> set cs. cluster_ok blocks es fs c) \<and> unat (de_file_size e) \<le> 512 * length cs"

definition file_content :: "(nat \<Rightarrow> u8 list) \<Rightarrow> fat12_handle \<Rightarrow> u8 list \<Rightarrow> u16 list \<Rightarrow> u8 list" where
  "file_content img fs e cs =
     take (unat (de_file_size e)) (concat (map (\<lambda>c. img (sector_of fs c)) cs))"

text \<open>The clusters up to the one the read starts in are consecutive.\<close>

definition contiguous_to :: "nat \<Rightarrow> u16 list \<Rightarrow> bool" where
  "contiguous_to k cs \<longleftrightarrow> (\<forall>j \<le> k. j < length cs \<longrightarrow> unat (cs ! j) = unat (hd cs) + j)"

lemma chained_drop: "chained es cs \<Longrightarrow> chained es (drop k cs)"
proof (induction es cs arbitrary: k rule: chained.induct)
  case (1 es c d cs)
  then show ?case by (cases k) auto
qed (auto simp: drop_Cons')

lemma chained_take: "chained es cs \<Longrightarrow> chained es (take k cs)"
proof (induction es cs arbitrary: k rule: chained.induct)
  case (1 es c d cs)
  show ?case
  proof (cases k)
    case (Suc j)
    then show ?thesis using 1(1) [of j] 1(2) by (cases j) auto
  qed simp
qed (auto simp: take_Cons')

lemma cluster_ok_length:
  assumes "distinct cs" and "\<forall>c \<in> set cs. cluster_ok blocks es fs c"
  shows "length cs \<le> 0xFF8"
proof -
  have "unat ` set cs \<subseteq> {..<0xFF8}"
    using assms(2) by (auto simp: cluster_ok_def FAT12_EOC_MIN_def word_less_nat_alt)
  then have "card (unat ` set cs) \<le> card {..<0xFF8 :: nat}" by (intro card_mono) auto
  moreover have "card (unat ` set cs) = length cs"
    using assms(1) by (simp add: card_image inj_on_def word_unat_eq_iff distinct_card)
  ultimately show ?thesis by simp
qed

text \<open>How a byte range falls on clusters.\<close>

lemma range_clusters:
  fixes offs sz :: nat
  assumes "0 < sz" and "offs + sz \<le> 512 * L"
  defines "S \<equiv> offs mod 512 + sz"
  defines "n \<equiv> S div 512 + (if S mod 512 \<noteq> 0 then 1 else 0)"
  defines "e \<equiv> (if S mod 512 = 0 then 512 else S mod 512)"
  shows "1 \<le> n" and "512 * (n - 1) + e = S" and "e \<le> 512" and "n = 1 \<longrightarrow> offs mod 512 \<le> e"
    and "offs div 512 + n \<le> L"
proof -
  have S: "S div 512 * 512 + S mod 512 = S" by (rule div_mult_mod_eq)
  have O: "offs div 512 * 512 + offs mod 512 = offs" by (rule div_mult_mod_eq)
  have pos: "0 < S" using assms(1) by (simp add: S_def)
  show n1: "1 \<le> n" using S pos by (auto simp: n_def)
  show eq: "512 * (n - 1) + e = S"
    using S pos by (cases "S mod 512 = 0"; cases "S div 512") (auto simp: n_def e_def)
  show e: "e \<le> 512" by (simp add: e_def less_imp_le)
  show "n = 1 \<longrightarrow> offs mod 512 \<le> e" using eq by (auto simp: S_def)
  have "512 * (n - 1) < S" using eq by (simp add: e_def split: if_splits)
  then have "512 * (offs div 512) + 512 * (n - 1) < 512 * L"
    using O assms(2) unfolding S_def by linarith
  then have "offs div 512 + (n - 1) < L" by linarith
  then show "offs div 512 + n \<le> L" using n1 by linarith
qed

lemma concat_blocks_drop:
  "\<forall>c \<in> set cs. length (f c) = 512 \<Longrightarrow> k \<le> length cs \<Longrightarrow>
     concat (map f (drop k cs)) = drop (512 * k) (concat (map f cs))"
  by (induction cs arbitrary: k) (auto simp: drop_Cons' diff_mult_distrib2 split: if_splits)

lemma concat_blocks_take:
  "\<forall>c \<in> set cs. length (f c) = 512 \<Longrightarrow>
     concat (map f (take k cs)) = take (512 * k) (concat (map f cs))"
  by (induction cs arbitrary: k) (auto simp: take_Cons' diff_mult_distrib2)

lemma file_slice:
  assumes len: "\<forall>c \<in> set cs. length (f c) = 512" and pos: "0 < sz"
    and fit: "offs + sz \<le> fsz" "fsz \<le> 512 * length cs"
  defines "S \<equiv> offs mod 512 + sz"
  defines "n \<equiv> S div 512 + (if S mod 512 \<noteq> 0 then 1 else 0)"
  defines "e \<equiv> (if S mod 512 = 0 then 512 else S mod 512)"
  shows "pieces f (offs mod 512) e (take n (drop (offs div 512) cs)) =
    take sz (drop offs (take fsz (concat (map f cs))))"
proof -
  have le: "offs + sz \<le> 512 * length cs" using fit by linarith
  note r = range_clusters [OF pos le, folded S_def, folded n_def e_def]
  let ?cs = "take n (drop (offs div 512) cs)"
  have l: "length ?cs = n" using r(5) by simp
  have in_set: "\<forall>c \<in> set ?cs. length (f c) = 512" using len by (auto dest: in_set_takeD in_set_dropD)
  have O: "512 * (offs div 512) + offs mod 512 = offs" by simp
  have "pieces f (offs mod 512) e ?cs
      = take (512 * (n - 1) + e - offs mod 512) (drop (offs mod 512) (concat (map f ?cs)))"
    using pieces_slice [OF in_set, of "offs mod 512" e] r l by (cases "?cs = []") auto
  also have "512 * (n - 1) + e - offs mod 512 = sz" using r(2) by (simp add: S_def)
  also have "concat (map f ?cs) = take (512 * n) (drop (512 * (offs div 512)) (concat (map f cs)))"
    using concat_blocks_take [of "drop (offs div 512) cs" f n] concat_blocks_drop [OF len] r(5) len
    by (auto dest: in_set_dropD)
  also have "take sz (drop (offs mod 512) (take (512 * n) (drop (512 * (offs div 512)) (concat (map f cs)))))
      = take sz (drop offs (take fsz (concat (map f cs))))"
  proof -
    have "sz \<le> 512 * n - offs mod 512" using r(2) r(3) r(1) by (simp add: S_def)
    moreover have "sz \<le> fsz - offs" using fit by simp
    ultimately show ?thesis
      by (simp add: drop_take take_take min_absorb1 O)
  qed
  finally show ?thesis .
qed

section \<open>Reading a range of a file\<close>

lemma file_chain_length: "file_chain blocks es fs e cs \<Longrightarrow> length cs \<le> 0xFF8"
  unfolding file_chain_def by (blast intro: cluster_ok_length)

text \<open>The number of bytes a request is cut to.\<close>

definition avail :: "nat \<Rightarrow> nat \<Rightarrow> nat \<Rightarrow> nat" where
  "avail fsz offs n = min n (fsz - offs)"

lemma clusters_word:
  fixes x y :: u32
  assumes "unat x mod 512 + unat y = S" "S < 2 ^ 32" "S div 512 + (if S mod 512 \<noteq> 0 then 1 else 0) < 65536"
  shows "unat (ucast ((x mod 512 + y) div 512 + (if (x mod 512 + y) mod 512 \<noteq> 0 then 1 else 0)) :: u16)
    = S div 512 + (if S mod 512 \<noteq> 0 then 1 else 0)"
proof -
  have S: "unat (x mod 512 + y) = S"
    using assms(1,2) by (simp add: unat_word_ariths unat_mod_distrib)
  have m: "(x mod 512 + y) mod 512 \<noteq> 0 \<longleftrightarrow> S mod 512 \<noteq> 0"
    using S by (simp add: word_unat_eq_iff unat_mod_distrib)
  have "unat ((x mod 512 + y) div 512 + (if (x mod 512 + y) mod 512 \<noteq> 0 then 1 else 0))
      = S div 512 + (if S mod 512 \<noteq> 0 then 1 else 0)"
    unfolding m using assms(3) S by (simp add: unat_word_ariths unat_div_distrib)
  then show ?thesis using assms(3) by (simp add: unsigned_ucast_eq take_bit_nat_eq_self del: One_nat_def)
qed

text \<open>The clusters a range touches, and how much of the last one.\<close>

definition span_count :: "nat \<Rightarrow> nat \<Rightarrow> nat" where
  "span_count offs sz =
     (offs mod 512 + sz) div 512 + (if (offs mod 512 + sz) mod 512 \<noteq> 0 then 1 else 0)"

definition span_end :: "nat \<Rightarrow> nat \<Rightarrow> nat" where
  "span_end offs sz =
     (if (offs mod 512 + sz) mod 512 = 0 then 512 else (offs mod 512 + sz) mod 512)"

lemma span_clusters:
  assumes "0 < sz"
  shows "1 \<le> span_count offs sz" and "span_end offs sz \<le> 512"
    and "512 * (span_count offs sz - 1) + span_end offs sz = offs mod 512 + sz"
    and "span_count offs sz = 1 \<longrightarrow> offs mod 512 \<le> span_end offs sz"
    and "offs + sz \<le> 512 * L \<Longrightarrow> offs div 512 + span_count offs sz \<le> L"
proof -
  have le: "offs + sz \<le> 512 * (offs + sz)" by simp
  note r = range_clusters [OF assms le, folded span_count_def span_end_def]
  show "1 \<le> span_count offs sz" "span_end offs sz \<le> 512"
    "512 * (span_count offs sz - 1) + span_end offs sz = offs mod 512 + sz"
    "span_count offs sz = 1 \<longrightarrow> offs mod 512 \<le> span_end offs sz"
    using r(1-4) by simp_all
  show "offs + sz \<le> 512 * L \<Longrightarrow> offs div 512 + span_count offs sz \<le> L"
    using range_clusters(5) [OF assms, of offs L] by (simp add: span_count_def)
qed

lemma trunc_add: "(ucast (ucast (a :: u16) + (b :: u32)) :: u16) = a + ucast b"
  by (simp add: word_unat_eq_iff unsigned_ucast_eq unat_word_ariths take_bit_eq_mod
      mod_mod_cancel mod_add_right_eq mod_add_left_eq)

text \<open>What a read does to the state: the sector buffer \<open>rb\<close> is allocated and freed, and in between
  the device works and memory is written. When \<open>rb\<close> is not the address of an object in use, all
  objects are kept.\<close>

definition read_step :: "ptr \<Rightarrow> 'z fsst_scheme \<Rightarrow> 'z fsst_scheme \<Rightarrow> bool" where
  "read_step rb s t \<longleftrightarrow> (\<exists>u. io_step (s\<lparr>hlog := Malloc 512 rb # hlog s\<rparr>) u \<and> t = fs_free rb u \<and>
     (\<forall>q j. mapped (kmem s) q j \<longrightarrow> mapped (kmem u) q j))"

definition unused :: "ptr \<Rightarrow> 'z fsst_scheme \<Rightarrow> bool" where
  "unused rb s \<longleftrightarrow> vnodes s rb = None \<and> vfss s rb = None \<and> handles s rb = None \<and> inodes s rb = None"

lemma read_step_keeps:
  assumes "read_step rb s t" and "unused rb s"
  shows "vnodes t = vnodes s" and "vfss t = vfss s" and "handles t = handles s" and "inodes t = inodes s"
    and "fsst.more t = fsst.more s" and "mapped (kmem s) q j \<Longrightarrow> mapped (kmem t) q j"
    and "hlog t = Freed rb # Malloc 512 rb # hlog s"
proof -
  obtain u where u: "io_step (s\<lparr>hlog := Malloc 512 rb # hlog s\<rparr>) u" "t = fs_free rb u"
    "\<forall>q j. mapped (kmem s) q j \<longrightarrow> mapped (kmem u) q j"
    using assms(1) unfolding read_step_def by (elim exE conjE) (rule that)
  have more: "fsst.more u = fsst.more s" by (subst u(1) [unfolded io_step_def]) simp
  note k = io_step_fs_fields [OF u(1)] io_step_fields(1) [OF u(1)]
  show "vnodes t = vnodes s" "vfss t = vfss s" "handles t = handles s" "inodes t = inodes s"
    using assms(2) by (simp_all add: u(2) fs_free_def free_def k unused_def fun_upd_idem)
  show "fsst.more t = fsst.more s" "mapped (kmem s) q j \<Longrightarrow> mapped (kmem t) q j"
    "hlog t = Freed rb # Malloc 512 rb # hlog s"
    using u(3) by (simp_all add: u(2) fs_free_def free_def more k)
qed

context fat_source
begin

lemma read_run:
  assumes f: "file_at s node fs e" and bps: "bpb_bytes_per_sector (kmem s) (bpb fs) = Some 512"
    and req: "sz0 \<noteq> 0" "buf \<noteq> NULL" "offs < de_file_size e" "unat offs + unat sz0 < 2 ^ 32"
    and sz: "sz = avail (unat (de_file_size e)) (unat offs) (unat sz0)"
    and run: "length run = span_count (unat offs) sz" "length run < 65536" "chained es run"
      "\<forall>c \<in> set run. cluster_ok blocks es fs c"
      "hd run = de_first_cluster_low e + ucast (offs div 512)"
    and rb: "rb = alloc (hlog s) 512"
    and areas: "read_areas fs es rb buf sz scratch" and st: "read_state (kmem s) fs es rb buf sz"
    and i: "inv (block_dev fs) s"
  shows "\<exists>t. fat12_read read alloc node offs sz0 buf s = Some (of_nat sz, t) \<and>
    fetch (kmem t) buf sz =
      Some (pieces (\<lambda>c. img (sector_of fs c)) (unat offs mod 512) (span_end (unat offs) sz) run) \<and>
    inv (block_dev fs) t \<and> hlog t = Freed rb # Malloc 512 rb # hlog s \<and>
    (\<forall>q j. clear_of rb buf sz scratch q j \<longrightarrow> fetch (kmem t) q j = fetch (kmem s) q j) \<and>
    read_step rb s t"
proof -
  define fsz where "fsz = unat (de_file_size e)"
  let ?f = "\<lambda>c. img (sector_of fs c)" and ?e = "span_end (unat offs) sz"
  let ?size = "if offs + sz0 > de_file_size e then de_file_size e - offs else sz0"
  let ?ctr = "ucast ((offs mod 512 + of_nat sz) div 512
        + (if (offs mod 512 + of_nat sz) mod 512 \<noteq> 0 then 1 else 0)) :: u16"
  have rb0: "rb \<noteq> NULL" using areas by (simp add: read_areas_def)
  have lt: "unat offs < fsz" using req(3) by (simp add: fsz_def word_less_nat_alt)
  have pos: "0 < sz" using lt req(1) by (simp add: sz avail_def fsz_def unat_eq_0 [symmetric] del: unat_eq_0)
  note r = span_clusters [OF pos, of "unat offs"]
  have fit: "unat offs + sz \<le> fsz" using lt by (simp add: sz avail_def fsz_def)
  have fsz32: "fsz < 2 ^ 32" unfolding fsz_def by (rule unat_lt_2p32)
  have usz: "unat (of_nat sz :: u32) = sz" using fit fsz32 by (intro unat_of_nat32) linarith
  have size: "?size = of_nat sz"
    using req(4) lt by (auto simp: sz avail_def fsz_def word_less_nat_alt unat_word_ariths not_less
        word_unat_eq_iff unat_of_nat unat_sub word_le_nat_alt min_def split: if_splits)
  have "unat offs mod 512 + sz < 2 ^ 32"
    using fit fsz32 mod_less_eq_dividend [of "unat offs" 512] by linarith
  then have ctr: "unat ?ctr = length run"
    unfolding run(1) span_count_def
    by (intro clusters_word) (use run(1,2) usz in \<open>simp_all add: span_count_def\<close>)
  have ne: "run \<noteq> []" using run(1) r(1) by auto
  have start: "(ucast ((ucast (de_first_cluster_low e) :: u32) + offs div 512) :: u16) = hd run"
    unfolding run(5) by (rule trunc_add)
  have flen: "length (?f c) = 512" for c by (rule img_length [OF i])
  have lp: "length (pieces ?f (unat offs mod 512) ?e run) = sz"
    using length_pieces [of run ?f "unat offs mod 512" ?e] flen ne r(1-4) run(1) by simp
  let ?s1 = "s\<lparr>hlog := Malloc 512 rb # hlog s\<rparr>"
  have i1: "inv (block_dev fs) ?s1" by (rule inv_same [OF i]) (simp add: same_dev_def)
  have os: "(if (offs + of_nat sz) mod 512 = 0 then 512 else (offs + of_nat sz) mod 512) = of_nat ?e"
  proof -
    have "unat (offs + of_nat sz) = unat offs + sz" using fit fsz32 usz by (simp add: unat_word_ariths)
    then have u: "unat ((offs + of_nat sz) mod 512) = (unat offs mod 512 + sz) mod 512"
      by (simp add: unat_mod_distrib mod_add_left_eq)
    then have "(offs + of_nat sz) mod 512 = of_nat ((unat offs mod 512 + sz) mod 512)"
      unfolding u [symmetric] by simp
    moreover have "(offs + of_nat sz) mod 512 = 0 \<longleftrightarrow> (unat offs mod 512 + sz) mod 512 = 0"
      using u by (simp add: word_unat_eq_iff)
    ultimately show ?thesis by (simp add: span_end_def)
  qed
  obtain t where t: "fat12_read_loop read fs 512 (offs mod 512) (offs + of_nat sz) buf rb ?ctr
        0 (hd run) 0 ?s1 = Some t"
    "inv (block_dev fs) t" "io_step ?s1 t" "fetch (kmem t) buf sz = Some (pieces ?f (unat offs mod 512) ?e run)"
    "\<forall>q j. clear_of rb buf sz scratch q j \<longrightarrow> fetch (kmem t) q j = fetch (kmem s) q j"
    "\<forall>q j. mapped (kmem ?s1) q j \<longrightarrow> mapped (kmem t) q j"
    using read_loop [OF areas r(2) os refl, of run ?ctr 0 "unat offs mod 512" "offs mod 512" ?s1 "[]"]
      run ne ctr r i1 st lp
    by (auto simp: word_unat_eq_iff unat_mod_distrib unat_of_nat)
  have spc: "bpb_sectors_per_cluster (kmem s) (bpb fs) = Some 1"
    using st by (auto simp: read_state_def bpb_sectors_per_cluster_def split: Option.bind_splits)
  obtain nd v ind where objs: "vnodes s node = Some nd" "vdata nd \<noteq> NULL" "node \<noteq> NULL"
    "vfss s (vfs_ptr nd) = Some v" "inodes s (vdata nd) = Some ind" "fs_data v \<noteq> NULL"
    "handles s (fs_data v) = Some fs" "dir_entry ind = e" "de_attributes e AND FAT12_DIR = 0"
    using f by (auto simp: file_at_def split: option.splits)
  have "fat12_read read alloc node offs sz0 buf s = Some (of_nat sz, fs_free rb t)"
    using objs req(1,2) spc bps t(1) req(3) [folded not_le]
    by (simp add: fat12_read_def Let_def size start malloc_def rb [symmetric] rb0
        split del: if_split cong del: if_weak_cong)
  moreover have "inv (block_dev fs) (fs_free rb t)"
    by (rule inv_same [OF t(2)]) (simp add: same_dev_def fs_free_def free_def)
  moreover have "hlog t = Malloc 512 rb # hlog s" by (simp add: io_step_fields [OF t(3)])
  moreover have "read_step rb s (fs_free rb t)"
    unfolding read_step_def by (rule exI [of _ t]) (use t(3,6) in simp)
  ultimately show ?thesis
    using t(4,5) by (simp add: fs_free_def free_def)
qed

lemma read_file:
  assumes f: "file_at s node fs e" and bps: "bpb_bytes_per_sector (kmem s) (bpb fs) = Some 512"
    and chain: "file_chain blocks es fs e cs" and contig: "contiguous_to (unat offs div 512) cs"
    and req: "sz0 \<noteq> 0" "buf \<noteq> NULL" "offs < de_file_size e" "unat offs + unat sz0 < 2 ^ 32"
    and sz: "sz = avail (unat (de_file_size e)) (unat offs) (unat sz0)"
    and rb: "rb = alloc (hlog s) 512"
    and areas: "read_areas fs es rb buf sz scratch" and st: "read_state (kmem s) fs es rb buf sz"
    and i: "inv (block_dev fs) s"
  shows "\<exists>t. fat12_read read alloc node offs sz0 buf s = Some (of_nat sz, t) \<and>
    fetch (kmem t) buf sz = Some (take sz (drop (unat offs) (file_content img fs e cs))) \<and>
    inv (block_dev fs) t \<and> hlog t = Freed rb # Malloc 512 rb # hlog s \<and>
    (\<forall>q j. clear_of rb buf sz scratch q j \<longrightarrow> fetch (kmem t) q j = fetch (kmem s) q j) \<and>
    read_step rb s t"
proof -
  let ?n = "span_count (unat offs) sz" and ?k = "unat offs div 512"
  let ?run = "take ?n (drop ?k cs)"
  have lt: "unat offs < unat (de_file_size e)" using req(3) by (simp add: word_less_nat_alt)
  have pos: "0 < sz"
    using lt req(1) by (simp add: sz avail_def unat_eq_0 [symmetric] del: unat_eq_0)
  have fit: "unat offs + sz \<le> unat (de_file_size e)" using lt by (simp add: sz avail_def)
  have L: "unat (de_file_size e) \<le> 512 * length cs" using chain by (simp add: file_chain_def)
  note r = span_clusters [OF pos, of "unat offs"]
  have le: "?k + ?n \<le> length cs" by (rule r(5)) (use fit L in linarith)
  have k0: "?k < length cs" using r(1) le by linarith
  have "hd ?run = cs ! ?k" using r(1) k0 by (simp add: hd_drop_conv_nth)
  moreover have "unat (cs ! ?k) = unat (de_first_cluster_low e) + ?k"
    using contig k0 chain by (simp add: contiguous_to_def file_chain_def)
  moreover have "unat (cs ! ?k) < 65536"
    using unsigned_less [of "cs ! ?k", where ?'a = nat] by simp
  ultimately have start: "hd ?run = de_first_cluster_low e + ucast (offs div 512)"
    by (simp add: word_unat_eq_iff unsigned_ucast_eq take_bit_nat_eq_self unat_word_ariths
          unat_div_distrib)
  have ok: "\<forall>c \<in> set ?run. cluster_ok blocks es fs c" "chained es ?run"
    using chain chained_take chained_drop set_take_subset [of ?n "drop ?k cs"]
      set_drop_subset [of ?k cs]
    by (auto simp: file_chain_def subset_iff)
  have len: "length ?run = ?n" "length ?run < 65536"
    using le file_chain_length [OF chain] by simp_all
  have flen: "length (img n) = 512" for n by (rule img_length [OF i])
  have content: "pieces (\<lambda>c. img (sector_of fs c)) (unat offs mod 512) (span_end (unat offs) sz) ?run
      = take sz (drop (unat offs) (file_content img fs e cs))"
    unfolding file_content_def span_count_def span_end_def
    by (rule file_slice) (use flen pos fit L in simp_all)
  show ?thesis
    using read_run [where run = ?run and alloc = alloc, OF f bps req sz len ok(2,1) start rb areas st i]
    unfolding content .
qed

text \<open>A range inside one cluster comes from the sector of cluster \<open>first + offs div 512\<close>, whatever
  chain the table records for the file.\<close>

lemma read_one:
  assumes f: "file_at s node fs e" and bps: "bpb_bytes_per_sector (kmem s) (bpb fs) = Some 512"
    and req: "sz0 \<noteq> 0" "buf \<noteq> NULL" "unat offs + unat sz0 \<le> unat (de_file_size e)"
      "unat offs mod 512 + unat sz0 \<le> 512"
    and c: "c = de_first_cluster_low e + ucast (offs div 512)" "cluster_ok blocks es fs c"
    and rb: "rb = alloc (hlog s) 512"
    and areas: "read_areas fs es rb buf (unat sz0) scratch"
    and st: "read_state (kmem s) fs es rb buf (unat sz0)"
    and i: "inv (block_dev fs) s"
  shows "\<exists>t. fat12_read read alloc node offs sz0 buf s = Some (sz0, t) \<and>
    fetch (kmem t) buf (unat sz0) =
      Some (take (unat sz0) (drop (unat offs mod 512) (img (sector_of fs c))))"
proof -
  have pos: "0 < unat sz0" using req(1) by (simp add: unat_gt_0)
  have fit: "offs < de_file_size e" "unat offs + unat sz0 < 2 ^ 32"
    using req(3) pos unat_lt_2p32 [of "de_file_size e"] by (simp_all add: word_less_nat_alt)
  have sz: "unat sz0 = avail (unat (de_file_size e)) (unat offs) (unat sz0)"
    using req(3) by (simp add: avail_def)
  note r = span_clusters [OF pos, of "unat offs"]
  have "512 * (span_count (unat offs) (unat sz0) - 1) < 512"
    using r(3) req(4) by (auto simp: span_end_def split: if_splits)
  then have one: "span_count (unat offs) (unat sz0) = 1" using r(1) by simp
  have "pieces (\<lambda>c. img (sector_of fs c)) (unat offs mod 512) (span_end (unat offs) (unat sz0)) [c]
      = take (unat sz0) (drop (unat offs mod 512) (img (sector_of fs c)))"
    using r(3) one by simp
  moreover note read_run [where run = "[c]" and buf = buf and alloc = alloc and rb = rb and es = es,
      OF f bps req(1,2) fit sz]
  ultimately show ?thesis using one c rb areas st i by fastforce
qed

end

end
