(* ===== verification/FatVolume.thy ===== *)
theory FatVolume
  imports Fat12Read
begin

text \<open>
  The file system on the floppy disk: the interpretation of the contract of \<open>Fat12Read\<close> on
  \<open>blkread\<close> over the driver of \<open>Fdc\<close>, and what follows for \<open>fat12_read\<close> as it is linked
  in the kernel, from the call down to the controller's registers.
\<close>

unbundle bit_operations_syntax

interpretation fdfat: fat_source
  "blkread (call_blk_read h ln)" "fd_inv h ln img" img FLOPPY_DMA_BUFFER 2880 for h ln img
  by unfold_locales

section \<open>Requests that are refused\<close>

text \<open>Every request \<open>fat12_read\<close> cannot serve is answered without touching the disk, the
  heap or memory: \<open>-1\<close> for a missing node, inode, buffer or file system, an empty request and a
  directory, \<open>0\<close> at or beyond the end of the file.\<close>

lemma fat12_read_refuses:
  assumes "vnodes s node = Some n" and "vfss s (vfs_ptr n) = Some v"
    and "inodes s (vdata n) = Some ind" and "e = dir_entry ind"
    and "bad \<longleftrightarrow> node = NULL \<or> vdata n = NULL \<or> buf = NULL \<or> sz = 0 \<or> fs_data v = NULL
          \<or> de_attributes e AND FAT12_DIR \<noteq> 0"
    and "bad \<or> de_file_size e \<le> offs"
  shows "fat12_read rd alloc node offs sz buf s = Some (if bad then -1 else 0, s)"
  using assms by (auto simp: fat12_read_def Let_def)

section \<open>Reading the floppy\<close>


text \<open>C37: the chain is not followed to the cluster a read starts in: a range inside one cluster is read
  from the cluster with the number \<open>first + offs div 512\<close>, whatever the table says comes after the
  first. The witness has a file of two clusters that are not neighbours, where the bytes returned are
  not those of the file.\<close>

theorem fat12_read_skips_chain:
  assumes "fd_inv h ln img (block_dev fs) s" and "file_at s node fs e"
    and "c = de_first_cluster_low e + ucast (offs div 512)" and "cluster_ok 2880 es fs c"
    and "bpb_bytes_per_sector (kmem s) (bpb fs) = Some 512"
    and "want \<noteq> 0" and "buf \<noteq> NULL" and "unat offs + unat want \<le> unat (de_file_size e)"
    and "unat offs mod 512 + unat want \<le> 512" and "rb = alloc (hlog s) 512"
    and "read_areas fs es rb buf (unat want) FLOPPY_DMA_BUFFER"
    and "read_state (kmem s) fs es rb buf (unat want)"
  shows "\<exists>t. fat12_read (blkread (call_blk_read h ln)) alloc node offs want buf s = Some (want, t)
    \<and> fetch (kmem t) buf (unat want) =
        Some (take (unat want) (drop (unat offs mod 512) (img (sector_of fs c))))"
  by (rule fdfat.read_one [where alloc = alloc, OF assms(2,5,6-9,3,4,10-12,1)])

section \<open>A volume to run it on\<close>

definition demo_handle :: fat12_handle where
  "demo_handle = \<lparr>bpb = 0x6000, ebr = 0x6024, fat_start = 1, root_dir_start = 19,
     root_dir_sectors = 14, data_area_start = 33, fat_table = 0x5000, block_dev = 0x9000\<rparr>"

definition demo_entry :: "u8 list" where
  "demo_entry = replicate 26 0 @ [2, 0, 0x4C, 4, 0, 0]"

definition demo_state :: "u16 list \<Rightarrow> fsst" where
  "demo_state es = fdcst.extend
     (floppy_mach\<lparr>kmem := put (put (kmem floppy_mach) 0x600B [0, 2, 1]) 0x5000 (pack12 es),
        bdev_heap := [0x9000 \<mapsto> fd0_device demo_link],
        bops_heap := [0xC0110000 \<mapsto> \<lparr>op_read = 0xC0101000, op_write = 0xC0101100\<rparr>]\<rparr>)
     \<lparr>vnodes = [0x100 \<mapsto> \<lparr>vfs_mountedhere = NULL, vfs_ptr = 0x200, vtype = V_FILE, vops = 0x300,
                 vflags = 0, vdata = 0x400\<rparr>],
      vfss = [0x200 \<mapsto> \<lparr>fs_type_of = 0x500, vcovered = NULL, vroot = 0x600, fs_data = 0x700\<rparr>],
      handles = [0x700 \<mapsto> demo_handle],
      inodes = [0x400 \<mapsto> \<lparr>dir_entry = demo_entry, dir_sector = 19, dir_offset = 0\<rparr>]\<rparr>"

lemmas demo_defs = demo_state_def fdcst.defs floppy_mach_def blk.defs mach.defs demo_handle_def

lemma demo_inv: "fd_inv (sim_floppy demo_disk) demo_link demo_disk (block_dev demo_handle) (demo_state es)"
proof -
  have "settled (demo_state es)"
    using floppy_mach_settled
    by (simp add: settled_def irqs_installed_def timer_installed_def demo_defs)
  then show ?thesis
    by (simp add: fd_inv_def sim_floppy_ok sim_floppy_ticking fdc_ready_def demo_defs demo_link_def
        demo_disk_def)
qed

lemma demo_entry_fields:
  "de_attributes demo_entry = 0" "de_first_cluster_low demo_entry = 2" "de_file_size demo_entry = 1100"
  by code_simp+

lemma demo_file: "file_at (demo_state es) 0x100 demo_handle demo_entry"
  by (simp add: file_at_def demo_defs demo_entry_fields)

lemma demo_kmem:
  "kmem (demo_state es) = put (put (kmem floppy_mach) 0x600B [0, 2, 1]) 0x5000 (pack12 es)"
  by (simp add: demo_defs)

lemma demo_bpb:
  assumes "length (pack12 es) < 0x100"
  shows "bpb_bytes_per_sector (kmem (demo_state es)) (bpb demo_handle) = Some 512"
    and "fetch (kmem (demo_state es)) (bpb demo_handle + 13) 1 = Some [1]"
proof -
  have "fetch (put (kmem floppy_mach) 0x600B [0, 2, 1]) 0x600B 3 = Some [0, 2, 1]"
    using fetch_put_same [of "[0, 2, 1]" "kmem floppy_mach" "0x600B"] by (simp add: numeral_3_eq_3)
  then have "fetch (kmem (demo_state es)) 0x600B 3 = Some [0, 2, 1]"
    using assms by (simp add: demo_kmem fetch_put_apart apart_def)
  then have "kmem (demo_state es) 0x600B = Some 0" "kmem (demo_state es) 0x600C = Some 2"
    "kmem (demo_state es) 0x600D = Some 1"
    by (auto simp: numeral_3_eq_3 split: Option.bind_splits)
  then show "bpb_bytes_per_sector (kmem (demo_state es)) (bpb demo_handle) = Some 512"
    "fetch (kmem (demo_state es)) (bpb demo_handle + 13) 1 = Some [1]"
    by (simp_all add: demo_handle_def bpb_bytes_per_sector_def ld16_def)
qed

lemma demo_read_state:
  assumes "length (pack12 es) < 0x100" and "list_all is_entry12 es" and "n < 0x1000"
  shows "read_state (kmem (demo_state es)) demo_handle es 0xA000 0x8000 n"
    and "read_areas demo_handle es 0xA000 0x8000 n FLOPPY_DMA_BUFFER"
proof -
  have un: "unat (of_nat n :: u32) = n" using assms(3) by (simp add: unat_of_nat32)
  have lt: "(0x8000 :: u32) < 0x100000 - of_nat n"
    using assms(3) un by (simp add: word_less_nat_alt unat_sub word_le_nat_alt)
  have "mapped (kmem (demo_state es)) 0x8000 n"
    unfolding demo_kmem by (intro mapped_put floppy_mach_mapped) (use assms(3) lt in simp_all)
  moreover have "mapped (kmem (demo_state es)) 0xA000 512"
    unfolding demo_kmem by (intro mapped_put floppy_mach_mapped) simp_all
  moreover have "fat_holds (kmem (demo_state es)) demo_handle es"
    using assms fetch_put_same [of "pack12 es"] by (simp add: fat_holds_def demo_kmem demo_handle_def)
  ultimately show "read_state (kmem (demo_state es)) demo_handle es 0xA000 0x8000 n"
    using demo_bpb(2) [OF assms(1)] by (simp add: read_state_def)
  show "read_areas demo_handle es 0xA000 0x8000 n FLOPPY_DMA_BUFFER"
    using assms
    by (simp add: read_areas_def clear_of_def apart_def demo_handle_def FLOPPY_DMA_BUFFER_def)
qed


theorem fat12_read_skips_chain_witness:
  "take 10 (drop 512 (file_content demo_disk demo_handle demo_entry [2, 4, 5])) = replicate 10 35 \<and>
   file_chain 2880 [0xFF0, 0xFFF, 4, 0xFFF, 5, 0xFFF] demo_handle demo_entry [2, 4, 5] \<and>
   (\<exists>t. fat12_read (blkread (call_blk_read (sim_floppy demo_disk) demo_link)) (pool [0xA000]) 0x100 512 10
      0x8000 (demo_state [0xFF0, 0xFFF, 4, 0xFFF, 5, 0xFFF]) = Some (10, t) \<and>
    fetch (kmem t) 0x8000 10 = Some (replicate 10 34))"
proof (intro conjI)
  let ?es = "[0xFF0, 0xFFF, 4, 0xFFF, 5, 0xFFF] :: u16 list"
  show "take 10 (drop 512 (file_content demo_disk demo_handle demo_entry [2, 4, 5])) = replicate 10 35"
    by (simp add: file_content_def demo_entry_fields sector_of_def demo_handle_def demo_disk_def)
  show "file_chain 2880 ?es demo_handle demo_entry [2, 4, 5]"
    by (simp add: file_chain_def cluster_ok_def sector_of_def demo_handle_def demo_entry_fields
        FAT12_EOC_MIN_def)
  have es: "length (pack12 ?es) < 0x100" "list_all is_entry12 ?es"
    by (simp_all add: is_entry12_def)
  have c: "3 = de_first_cluster_low demo_entry + ucast (512 div 512 :: u32)"
    by (simp add: demo_entry_fields)
  have ok: "cluster_ok 2880 ?es demo_handle 3"
    by (simp add: cluster_ok_def sector_of_def demo_handle_def FAT12_EOC_MIN_def)
  have rb: "0xA000 = pool [0xA000] (hlog (demo_state ?es)) 512"
    by (simp add: pool_def demo_defs boot_mach_def)
  have ends: "unat (512 :: u32) + unat (10 :: u32) \<le> unat (de_file_size demo_entry)"
    "unat (512 :: u32) mod 512 + unat (10 :: u32) \<le> 512"
    by (simp_all add: demo_entry_fields)
  have sec: "take (unat (10 :: u32)) (drop (unat (512 :: u32) mod 512) (demo_disk (sector_of demo_handle 3)))
      = replicate 10 34"
    by (simp add: sector_of_def demo_handle_def demo_disk_def)
  have u10: "unat (10 :: u32) = 10" by simp
  note r = fat12_read_skips_chain [where alloc = "pool [0xA000]" and rb = "0xA000" and want = 10
      and buf = "0x8000", OF demo_inv demo_file c ok demo_bpb(1) [OF es(1)] _ _ ends rb,
      unfolded sec]
  have "\<exists>t. fat12_read (blkread (call_blk_read (sim_floppy demo_disk) demo_link)) (pool [0xA000]) 0x100 512 10
      0x8000 (demo_state ?es) = Some (10, t) \<and> fetch (kmem t) 0x8000 (unat (10 :: u32)) = Some (replicate 10 34)"
    by (rule r) (use demo_read_state [OF es, of 10] in simp_all)
  then show "\<exists>t. fat12_read (blkread (call_blk_read (sim_floppy demo_disk) demo_link)) (pool [0xA000]) 0x100 512 10
      0x8000 (demo_state ?es) = Some (10, t) \<and> fetch (kmem t) 0x8000 10 = Some (replicate 10 34)"
    unfolding u10 .
qed

lemma fat12_read_refuses_witness:
  "fat12_read (blkread (call_blk_read (sim_floppy demo_disk) demo_link)) (pool [0xA000]) 0x100 1100 10
      0x8000 (demo_state []) = Some (0, demo_state [])"
  using fat12_read_refuses [where s = "demo_state []" and node = "0x100" and e = demo_entry and bad = False
      and offs = 1100 and buf = "0x8000" and sz = 10]
  by (simp add: demo_defs demo_entry_fields)

end
