(* ===== verification/Fat12Dir.thy ===== *)
theory Fat12Dir
  imports FatVolume Fat12Names
begin

text \<open>
  Looking a name up in the root directory. The directory is the list of the 32-byte entries of its
  sectors, \<open>dir_find\<close> says which of them a name denotes, and \<open>fat12_open\<close> on the floppy disk is shown to
  make a node of just that entry, or to find nothing when there is none.
\<close>

unbundle bit_operations_syntax

section \<open>Directories\<close>

text \<open>The entry that a padded name denotes: the first one in use with this name before the end mark.\<close>

definition entry_named :: "u8 list \<Rightarrow> u8 list \<Rightarrow> bool" where
  "entry_named nm e \<longleftrightarrow> e ! 0 \<noteq> FAT12_DELETED \<and> e ! 11 AND FAT12_VID = 0 \<and> take 11 e = nm"

fun dir_find :: "u8 list \<Rightarrow> u8 list list \<Rightarrow> nat option" where
  "dir_find nm [] = None"
| "dir_find nm (e # es) =
     (if e ! 0 = FAT12_ENDDIR then None
      else if entry_named nm e then Some 0
      else map_option Suc (dir_find nm es))"

definition ends :: "u8 list list \<Rightarrow> bool" where
  "ends es \<longleftrightarrow> (\<exists>e \<in> set es. e ! 0 = FAT12_ENDDIR)"

definition entries_of :: "u8 list \<Rightarrow> u8 list list" where
  "entries_of sec = map (\<lambda>i. take 32 (drop (32 * i) sec)) [0..<16]"

definition root_entries :: "(nat \<Rightarrow> u8 list) \<Rightarrow> nat \<Rightarrow> nat \<Rightarrow> u8 list list" where
  "root_entries img start n = concat (map (\<lambda>k. entries_of (img (start + k))) [0..<n])"

lemma root_entries_Suc: "root_entries img a (Suc n) = entries_of (img a) @ root_entries img (Suc a) n"
  by (simp add: root_entries_def map_upt_Suc del: upt_Suc)

lemma length_entries_of [simp]: "length (entries_of sec) = 16"
  by (simp add: entries_of_def)

lemma nth_entries_of: "i < 16 \<Longrightarrow> entries_of sec ! i = take 32 (drop (32 * i) sec)"
  by (simp add: entries_of_def)

lemma ends_simps [simp]: "\<not> ends []" "ends (e # es) \<longleftrightarrow> e ! 0 = FAT12_ENDDIR \<or> ends es"
  by (auto simp: ends_def)

lemma dir_find_append:
  "dir_find nm (xs @ ys) = (case dir_find nm xs of
     Some p \<Rightarrow> Some p
   | None \<Rightarrow> if ends xs then None else map_option ((+) (length xs)) (dir_find nm ys))"
  by (induction xs; cases "dir_find nm ys") (auto split: option.splits)

lemma dir_find_less: "dir_find nm es = Some p \<Longrightarrow> p < length es"
  by (induction es arbitrary: p) (auto split: if_splits)

section \<open>One sector of the directory\<close>

lemma scan_sector:
  assumes sec: "fetch (kmem s) (e_dir_entries ev) 512 = Some sec" and nm: "fetch (kmem s) (e_fat_name ev) 11 = Some nm"
    and k: "k \<le> 16"
  shows "fat12_scan_sector alloc ev dir name sector (of_nat k) s =
    (case dir_find nm (drop k (entries_of sec)) of
       Some p \<Rightarrow> do {
         (node, s) \<leftarrow> fat12_make_node alloc ev dir name sector (of_nat (k + p)) (entries_of sec ! (k + p)) s;
         Some (Stop node, s)
       }
     | None \<Rightarrow> Some (if ends (drop k (entries_of sec)) then Stop NULL else Go, s))"
  using k
proof (induction "16 - k" arbitrary: k)
  case 0
  then show ?case by (subst fat12_scan_sector.simps) simp
next
  case (Suc n)
  then have k: "k < 16" by simp
  let ?e = "take 32 (drop (32 * k) sec)" and ?p = "e_dir_entries ev + of_nat k * SIZEOF_DIR_ENTRY"
  have uk: "unat (of_nat k :: u32) = k" using k by (simp add: unat_of_nat32)
  then have lt: "(of_nat k :: u32) < 16" using k by (simp add: word_less_nat_alt)
  have ent: "fetch (kmem s) ?p 32 = Some ?e"
    using fetch_sub [OF sec, of "32 * k" 32] k by (simp add: SIZEOF_DIR_ENTRY_def mult.commute)
  then have at: "kmem s (?p + of_nat i) = Some (?e ! i)" if "i < 32" for i
    using that unfolding fetch_iff by blast
  have "fetch (kmem s) ?p 11 = Some (take 11 ?e)" using fetch_take [OF ent, of 11] by simp
  then have cmp: "memcmp (kmem s) ?p (e_fat_name ev) 11 = Some (cmp_bytes (take 11 ?e) nm)"
    using nm by (intro memcmp_fetch) simp_all
  have "length (take 11 ?e) = length nm" using fetch_length [OF ent] fetch_length [OF nm] by simp
  then obtain r where r: "memcmp (kmem s) ?p (e_fat_name ev) 11 = Some r" "r = 0 \<longleftrightarrow> take 11 ?e = nm"
    using cmp cmp_bytes_same_length by blast
  have drop: "drop k (entries_of sec) = ?e # drop (Suc k) (entries_of sec)"
    using Cons_nth_drop_Suc [of k "entries_of sec"] k by (simp add: nth_entries_of)
  have nxt: "(of_nat k :: u32) + 1 = of_nat (Suc k)" by simp
  note IH = Suc.hyps(1) [of "Suc k"]
  have step: "fat12_scan_sector alloc ev dir name sector (of_nat k) s =
    (if ?e ! 0 = FAT12_ENDDIR then Some (Stop NULL, s)
     else if entry_named nm ?e then do {
         (node, s) \<leftarrow> fat12_make_node alloc ev dir name sector (of_nat k) ?e s;
         Some (Stop node, s)
       }
     else fat12_scan_sector alloc ev dir name sector (of_nat (Suc k)) s)"
    using at [of 0] at [of 11] r ent lt
    by (subst fat12_scan_sector.simps) (simp add: Let_def nxt entry_named_def del: fetch.simps of_nat_Suc)
  show ?case
    using step IH Suc.hyps(2) k drop nth_entries_of [OF k, of sec]
    by (auto simp del: of_nat_Suc of_nat_add split: option.splits)
qed

section \<open>The whole directory\<close>

lemma next_sector: "\<forall>a :: nat. (16 + a) div 16 = Suc (a div 16)"
  by presburger

lemma bind_stop:
  "(x \<bind> (\<lambda>y. (case y of (node, s) \<Rightarrow> Some (Stop node, s)) \<bind>
     (\<lambda>(r, u). case r of Stop node \<Rightarrow> Some (node, u) | Go \<Rightarrow> f u))) = x"
  by (cases x) auto

context fat_source
begin

lemma scan_root:
  assumes "inv (block_dev fs) s" and "k \<le> n" and "root_dir_sectors fs = of_nat n"
    and "unat (root_dir_start fs) + n \<le> blocks" and "unat (root_dir_start fs) + n < 2 ^ 32"
    and "e_dir_entries ev \<noteq> NULL" and "mapped (kmem s) (e_dir_entries ev) 512"
    and "apart (e_dir_entries ev) 512 scratch 512"
    and "apart (e_dir_entries ev) 512 (e_fat_name ev) 11" and "apart scratch 512 (e_fat_name ev) 11"
    and "fetch (kmem s) (e_fat_name ev) 11 = Some nm"
    and "es = root_entries img (unat (root_dir_start fs) + k) (n - k)"
  shows "\<exists>u. io_step s u \<and> inv (block_dev fs) u \<and>
    (\<forall>q j. apart (e_dir_entries ev) 512 q j \<longrightarrow> apart scratch 512 q j \<longrightarrow> fetch (kmem u) q j = fetch (kmem s) q j) \<and>
    (\<forall>q j. mapped (kmem s) q j \<longrightarrow> mapped (kmem u) q j) \<and>
    fat12_scan_root read alloc ev dir fs name (of_nat k) s =
      (case dir_find nm es of
         None \<Rightarrow> Some (NULL, u)
       | Some p \<Rightarrow> fat12_make_node alloc ev dir name (root_dir_start fs + of_nat (k + p div 16)) (of_nat (p mod 16))
           (es ! p) u)"
  using assms
proof (induction "n - k" arbitrary: k s es)
  case 0
  then have "dir_find nm es = None" by (simp add: root_entries_def)
  then show ?case
    using 0 by (intro exI [of _ s]) (simp add: fat12_scan_root.simps)
next
  case (Suc m)
  let ?F = "\<lambda>s u. (\<forall>q j. apart (e_dir_entries ev) 512 q j \<longrightarrow> apart scratch 512 q j \<longrightarrow> fetch (kmem u) q j = fetch (kmem s) q j)"
  have k: "k < n" using Suc.hyps(2) by simp
  let ?sec = "img (unat (root_dir_start fs) + k)"
  let ?rest = "root_entries img (unat (root_dir_start fs) + Suc k) (n - Suc k)"
  have n32: "n < 2 ^ 32" using Suc.prems(5) by linarith
  have lt: "(of_nat k :: u32) < root_dir_sectors fs"
    using k n32 Suc.prems(3) by (simp add: word_less_nat_alt unat_of_nat32)
  have us: "unat (root_dir_start fs + of_nat k) = unat (root_dir_start fs) + k"
    using k Suc.prems(5) by (simp add: unat_word_ariths unat_of_nat32)
  have inr: "unat (root_dir_start fs + of_nat k) < blocks" using us k Suc.prems(4) by linarith
  obtain t where t: "read (block_dev fs) (root_dir_start fs + of_nat k) (e_dir_entries ev) s = Some (0, t)"
    "io_step s t" "inv (block_dev fs) t" "fetch (kmem t) (e_dir_entries ev) 512 = Some ?sec" "?F s t"
    "\<forall>q j. mapped (kmem s) q j \<longrightarrow> mapped (kmem t) q j"
    using read_fetch [OF Suc.prems(1) inr Suc.prems(6-8)] unfolding us by blast
  have nm: "fetch (kmem t) (e_fat_name ev) 11 = Some nm" using t(5) Suc.prems(9-11) by simp
  have es: "es = entries_of ?sec @ ?rest"
    using k root_entries_Suc [of img "unat (root_dir_start fs) + k" "n - Suc k"]
    by (simp add: Suc.prems(12) Suc_diff_Suc)
  have sec: "fat12_scan_sector alloc ev dir name (root_dir_start fs + of_nat k) 0 t =
    (case dir_find nm (entries_of ?sec) of
       Some p \<Rightarrow> do {
         (node, s) \<leftarrow> fat12_make_node alloc ev dir name (root_dir_start fs + of_nat k) (of_nat p) (entries_of ?sec ! p) t;
         Some (Stop node, s)
       }
     | None \<Rightarrow> Some (if ends (entries_of ?sec) then Stop NULL else Go, t))"
    using scan_sector [OF t(4) nm, of 0] by (simp cong: option.case_cong)
  have root: "fat12_scan_root read alloc ev dir fs name (of_nat k) s = do {
      (r, u) \<leftarrow> fat12_scan_sector alloc ev dir name (root_dir_start fs + of_nat k) 0 t;
      (case r of Stop node \<Rightarrow> Some (node, u) | Go \<Rightarrow> fat12_scan_root read alloc ev dir fs name (of_nat (Suc k)) u) }"
    using lt t(1) by (subst fat12_scan_root.simps) (simp add: add.commute [of 1] cong: scan.case_cong)
  show ?case
  proof (cases "dir_find nm (entries_of ?sec)")
    case (Some p)
    then have "p < 16" using dir_find_less by fastforce
    then show ?thesis
      using Some root sec es t by (intro exI [of _ t]) (auto simp: dir_find_append nth_append bind_stop)
  next
    case None
    show ?thesis
    proof (cases "ends (entries_of ?sec)")
      case True
      then show ?thesis using None root sec es t by (intro exI [of _ t]) (simp add: dir_find_append)
    next
      case False
      have m: "m = n - Suc k" "Suc k \<le> n" using Suc.hyps(2) k by simp_all
      have mt: "mapped (kmem t) (e_dir_entries ev) 512" using t(6) Suc.prems(7) by simp
      obtain u where u: "io_step t u" "inv (block_dev fs) u" "?F t u"
        "\<forall>q j. mapped (kmem t) q j \<longrightarrow> mapped (kmem u) q j"
        "fat12_scan_root read alloc ev dir fs name (of_nat (Suc k)) t =
          (case dir_find nm ?rest of
             None \<Rightarrow> Some (NULL, u)
           | Some p \<Rightarrow> fat12_make_node alloc ev dir name (root_dir_start fs + of_nat (Suc k + p div 16)) (of_nat (p mod 16))
               (?rest ! p) u)"
        using Suc.hyps(1) [OF m(1) t(3) m(2) Suc.prems(3-6) mt Suc.prems(8-10) nm refl] by blast
      have "fat12_scan_root read alloc ev dir fs name (of_nat k) s =
          (case dir_find nm es of
             None \<Rightarrow> Some (NULL, u)
           | Some p \<Rightarrow> fat12_make_node alloc ev dir name (root_dir_start fs + of_nat (k + p div 16)) (of_nat (p mod 16))
               (es ! p) u)"
        using None False root sec es u(5) next_sector
        by (cases "dir_find nm ?rest") (simp_all add: dir_find_append nth_append)
      then show ?thesis using t u io_step_trans [OF t(2) u(1)] by (intro exI [of _ u]) auto
    qed
  qed
qed

end

section \<open>Opening\<close>

lemma make_node:
  assumes "node = alloc (hlog s) SIZEOF_VNODE" "node \<noteq> NULL" and "ind = alloc (Malloc SIZEOF_VNODE node # hlog s) SIZEOF_INODE"
    "ind \<noteq> NULL"
    and "cstr (kmem s) name str" "mapped (kmem s) node 28" "apart node 28 name (Suc (length str))"
  shows "fat12_make_node alloc ev dir name sector i e s = Some (node, s\<lparr>kmem := put (kmem s) node (pad_to 28 str),
    hlog := Malloc SIZEOF_INODE ind # Malloc SIZEOF_VNODE node # hlog s,
    vnodes := (vnodes s)(node \<mapsto> \<lparr>vfs_mountedhere = NULL, vfs_ptr = vfs_ptr dir,
      vtype = (if de_attributes e AND FAT12_DIR \<noteq> 0 then V_DIRECTORY else V_FILE), vops = e_vnode_ops ev,
      vflags = 0, vdata = ind\<rparr>),
    inodes := (inodes s)(ind \<mapsto> \<lparr>dir_entry = e, dir_sector = sector, dir_offset = i\<rparr>)\<rparr>)"
proof -
  have u: "unat (28 :: u32) = 28" by simp
  have "strncpy (kmem s) node name 28 = Some (node, put (kmem s) node (pad_to 28 str))"
    using strncpy_put [of "kmem s" name str node 28] assms(5-7) unfolding u by blast
  then show ?thesis
    using assms(1-4) by (simp add: fat12_make_node_def malloc_def Let_def)
qed

text \<open>\<open>node\<close> is a node of the volume of handle \<open>fs\<close>, whose root is mounted.\<close>

definition on_volume :: "fat_env \<Rightarrow> fat12_handle \<Rightarrow> ptr \<Rightarrow> 'z fsst_scheme \<Rightarrow> bool" where
  "on_volume ev fs node s \<longleftrightarrow> node \<noteq> NULL \<and> cstr (kmem s) (e_slash ev) [47] \<and>
     (\<exists>n v dir w. vnodes s node = Some n \<and> vfss s (vfs_ptr n) = Some v \<and> vnodes s (vroot v) = Some dir
        \<and> cstr (kmem s) (vroot v) [47] \<and> vfss s (vfs_ptr dir) = Some w \<and> fs_data w \<noteq> NULL
        \<and> handles s (fs_data w) = Some fs)"

text \<open>The arrays on the stack: the sector, the padded name, and the path in the caller's memory.\<close>

definition open_areas :: "fat_env \<Rightarrow> ptr \<Rightarrow> nat \<Rightarrow> mem \<Rightarrow> bool" where
  "open_areas ev path k m \<longleftrightarrow>
     e_dir_entries ev \<noteq> NULL \<and> mapped m (e_dir_entries ev) 512 \<and> mapped m (e_fat_name ev) 11
     \<and> apart (e_dir_entries ev) 512 FLOPPY_DMA_BUFFER 512 \<and> apart (e_dir_entries ev) 512 (e_fat_name ev) 11
     \<and> apart FLOPPY_DMA_BUFFER 512 (e_fat_name ev) 11 \<and> apart (e_fat_name ev) 11 path k
     \<and> apart (e_dir_entries ev) 512 path k \<and> apart FLOPPY_DMA_BUFFER 512 path k"

definition opened ::
  "fat_env \<Rightarrow> fat12_handle \<Rightarrow> u8 list \<Rightarrow> u8 list list \<Rightarrow> ptr \<Rightarrow> nat \<Rightarrow> 'z fsst_scheme \<Rightarrow> bool" where
  "opened ev fs name es node p t \<longleftrightarrow> cstr (kmem t) node name \<and>
     (\<exists>n. vnodes t node = Some n \<and> vops n = e_vnode_ops ev \<and>
        (vtype n = V_DIRECTORY \<longleftrightarrow> de_attributes (es ! p) AND FAT12_DIR \<noteq> 0) \<and>
        inodes t (vdata n) = Some \<lparr>dir_entry = es ! p, dir_sector = root_dir_start fs + of_nat (p div 16),
          dir_offset = of_nat (p mod 16)\<rparr> \<and>
        (vtype n = V_DIRECTORY \<or> file_at t node fs (es ! p)))"

text \<open>What opening changes: the new node and its record, the two arrays and the buffer of the floppy driver.\<close>

definition open_frame :: "fat_env \<Rightarrow> ptr \<Rightarrow> ptr \<Rightarrow> 'z fsst_scheme \<Rightarrow> 'z fsst_scheme \<Rightarrow> bool" where
  "open_frame ev new ind s t \<longleftrightarrow>
     (\<forall>q k. apart new 28 q k \<longrightarrow> apart (e_fat_name ev) 11 q k \<longrightarrow> apart (e_dir_entries ev) 512 q k \<longrightarrow>
        apart FLOPPY_DMA_BUFFER 512 q k \<longrightarrow> fetch (kmem t) q k = fetch (kmem s) q k)
     \<and> (\<forall>q k. mapped (kmem s) q k \<longrightarrow> mapped (kmem t) q k)
     \<and> hlog t = Malloc SIZEOF_INODE ind # Malloc SIZEOF_VNODE new # hlog s \<and> fsst.more t = fsst.more s
     \<and> (\<forall>x. x \<noteq> new \<longrightarrow> vnodes t x = vnodes s x) \<and> (\<forall>x. x \<noteq> ind \<longrightarrow> inodes t x = inodes s x)
     \<and> vfss t = vfss s \<and> handles t = handles s"

lemma cstr_padded:
  assumes "length s < n" and "n < 2 ^ 32" and "0 \<notin> set s"
  shows "cstr (put m p (pad_to n s)) p s"
proof -
  have "fetch (put m p (pad_to n s)) p n = Some (pad_to n s)" using fetch_put_same [of "pad_to n s" m p] assms(2) by simp
  from fetch_take [OF this, of "Suc (length s)"]
  have "fetch (put m p (pad_to n s)) p (Suc (length s)) = Some (s @ [0])"
    using assms(1) by (simp add: pad_to_def replicate_append_same [symmetric] Suc_diff_Suc [symmetric] min_def del: fetch.simps)
  then show ?thesis using assms by (simp add: cstr_iff_fetch)
qed

lemma lookup_result:
  assumes inv: "fd_inv h ln img (block_dev fs) s"
    and vol: "vnodes s root = Some dir" "cstr (kmem s) root [47]" "cstr (kmem s) (e_slash ev) [47]"
      "vfss s (vfs_ptr dir) = Some w" "fs_data w \<noteq> NULL" "handles s (fs_data w) = Some fs"
    and size: "unat (root_dir_start fs) + unat (root_dir_sectors fs) \<le> 2880"
    and path: "cstr (kmem s) path name" "length name < 28"
    and areas: "open_areas ev path (Suc (length name)) (kmem s)"
    and new: "new = alloc (hlog s) SIZEOF_VNODE" "new \<noteq> NULL" "mapped (kmem s) new 28"
      "apart new 28 path (Suc (length name))"
    and ind: "alloc (Malloc SIZEOF_VNODE new # hlog s) SIZEOF_INODE \<noteq> NULL"
    and es: "es = root_entries img (unat (root_dir_start fs)) (unat (root_dir_sectors fs))"
  shows "\<exists>r t. fat12_lookup (blkread (call_blk_read h ln)) alloc ev root path s = Some (r, t) \<and>
    (case dir_find (to_8_3 name) es of
       None \<Rightarrow> r = NULL \<and> hlog t = hlog s
     | Some p \<Rightarrow> r = new \<and> opened ev fs name es new p t \<and> fd_inv h ln img (block_dev fs) t
         \<and> open_frame ev new (alloc (Malloc SIZEOF_VNODE new # hlog s) SIZEOF_INODE) s t)"
proof -
  let ?n = "to_8_3 name" and ?L = "Suc (length name)" and ?ind = "alloc (Malloc SIZEOF_VNODE new # hlog s) SIZEOF_INODE"
  have a: "e_dir_entries ev \<noteq> NULL" "mapped (kmem s) (e_dir_entries ev) 512" "mapped (kmem s) (e_fat_name ev) 11"
    "apart (e_dir_entries ev) 512 FLOPPY_DMA_BUFFER 512" "apart (e_dir_entries ev) 512 (e_fat_name ev) 11"
    "apart FLOPPY_DMA_BUFFER 512 (e_fat_name ev) 11" "apart (e_fat_name ev) 11 path ?L"
    "apart (e_dir_entries ev) 512 path ?L" "apart FLOPPY_DMA_BUFFER 512 path ?L"
    using areas by (simp_all add: open_areas_def)
  let ?s = "s\<lparr>kmem := put (kmem s) (e_fat_name ev) ?n\<rparr>"
  have conv: "fat12_normal_to_8_3 (kmem s) path (e_fat_name ev) = Some (kmem ?s)"
    using normal_to_8_3_put [OF path(1) a(3,7)] by simp
  have inv': "fd_inv h ln img (block_dev fs) ?s" by (rule fd.inv_same [OF inv]) (simp add: same_dev_def)
  have nm: "fetch (kmem ?s) (e_fat_name ev) 11 = Some ?n" using fetch_put_same [of ?n "kmem s"] by simp
  have ms: "mapped (kmem ?s) (e_dir_entries ev) 512" using mapped_put [OF a(2)] by simp
  have sz: "root_dir_sectors fs = of_nat (unat (root_dir_sectors fs))"
    "unat (root_dir_start fs) + unat (root_dir_sectors fs) < 2 ^ 32" using size by simp_all
  have es0: "es = root_entries img (unat (root_dir_start fs) + 0) (unat (root_dir_sectors fs) - 0)" by (simp add: es)
  obtain u where u: "io_step ?s u" "\<forall>q j. apart (e_dir_entries ev) 512 q j \<longrightarrow> apart FLOPPY_DMA_BUFFER 512 q j \<longrightarrow>
      fetch (kmem u) q j = fetch (kmem ?s) q j" "\<forall>q j. mapped (kmem ?s) q j \<longrightarrow> mapped (kmem u) q j"
    and iu: "fd_inv h ln img (block_dev fs) u" and scan: "fat12_scan_root (blkread (call_blk_read h ln)) alloc ev dir fs path (of_nat 0) ?s =
      (case dir_find ?n es of
         None \<Rightarrow> Some (NULL, u)
       | Some p \<Rightarrow> fat12_make_node alloc ev dir path (root_dir_start fs + of_nat (0 + p div 16)) (of_nat (p mod 16))
           (es ! p) u)"
    using fdfat.scan_root [OF inv' le0 sz(1) size sz(2) a(1) ms a(4-6) nm es0] by blast
  have "strcmp (kmem s) root (e_slash ev) = Some (cmp_bytes [47] [47])" by (rule strcmp_cmp_bytes [OF vol(2,3)])
  then have call: "fat12_lookup (blkread (call_blk_read h ln)) alloc ev root path s =
      fat12_scan_root (blkread (call_blk_read h ln)) alloc ev dir fs path (of_nat 0) ?s"
    using vol conv by (simp add: fat12_lookup_def)
  show ?thesis
  proof (cases "dir_find ?n es")
    case None
    then show ?thesis using call scan io_step_fields(1) [OF u(1)] by simp
  next
    case (Some p)
    have "fetch (kmem u) path ?L = fetch (kmem s) path ?L"
      using u(2) a(8,9) a(7) by (simp add: fetch_put_apart del: fetch.simps)
    then have cu: "cstr (kmem u) path name" using path(1) by (simp add: cstr_iff_fetch)
    have mu: "mapped (kmem u) new 28" using u(3) mapped_put [OF new(3)] by simp
    have hl: "hlog u = hlog s" using io_step_fields(1) [OF u(1)] by simp
    note fu = io_step_fs_fields [OF u(1)]
    have cn: "cstr (put (kmem u) new (pad_to 28 name)) new name"
      by (rule cstr_padded [OF path(2)]) (use cstr_nonzero [OF path(1)] in auto)
    let ?t = "u\<lparr>kmem := put (kmem u) new (pad_to 28 name),
          hlog := Malloc SIZEOF_INODE ?ind # Malloc SIZEOF_VNODE new # hlog u,
          vnodes := (vnodes u)(new \<mapsto> \<lparr>vfs_mountedhere = NULL, vfs_ptr = vfs_ptr dir,
            vtype = (if de_attributes (es ! p) AND FAT12_DIR \<noteq> 0 then V_DIRECTORY else V_FILE), vops = e_vnode_ops ev,
            vflags = 0, vdata = ?ind\<rparr>),
          inodes := (inodes u)(?ind \<mapsto> \<lparr>dir_entry = es ! p, dir_sector = root_dir_start fs + of_nat (p div 16),
            dir_offset = of_nat (p mod 16)\<rparr>)\<rparr>"
    have "fat12_make_node alloc ev dir path (root_dir_start fs + of_nat (p div 16)) (of_nat (p mod 16)) (es ! p) u =
        Some (new, ?t)"
      by (rule make_node [OF _ new(2) _ ind cu mu new(4)]) (simp_all add: new(1) hl)
    moreover have "opened ev fs name es new p ?t"
      using cn vol(4-6) fu new(2) ind by (simp add: opened_def file_at_def)
    moreover have "fd_inv h ln img (block_dev fs) ?t" by (rule fd.inv_same [OF iu]) (simp add: same_dev_def)
    moreover have "open_frame ev new ?ind s ?t"
      using u(2,3) fu hl by (auto simp: open_frame_def fetch_put_apart mapped_put simp del: fetch.simps)
    ultimately show ?thesis using call scan Some by simp
  qed
qed

lemma fat12_open_result:
  assumes "fd_inv h ln img (block_dev fs) s" and "on_volume ev fs node s"
    and "unat (root_dir_start fs) + unat (root_dir_sectors fs) \<le> 2880"
    and "path \<noteq> NULL" and "cstr (kmem s) path name" and "name \<noteq> []" and "length name < 28"
    and "open_areas ev path (Suc (length name)) (kmem s)"
    and "new = alloc (hlog s) SIZEOF_VNODE" and "new \<noteq> NULL" and "mapped (kmem s) new 28"
    and "apart new 28 path (Suc (length name))" and "alloc (Malloc SIZEOF_VNODE new # hlog s) SIZEOF_INODE \<noteq> NULL"
    and "es = root_entries img (unat (root_dir_start fs)) (unat (root_dir_sectors fs))"
  shows "\<exists>r t. fat12_open (blkread (call_blk_read h ln)) alloc ev node path flags s = Some (r, t) \<and>
    (case dir_find (to_8_3 name) es of
       None \<Rightarrow> r = NULL \<and> hlog t = hlog s
     | Some p \<Rightarrow> r = new \<and> opened ev fs name es new p t \<and> fd_inv h ln img (block_dev fs) t
         \<and> open_frame ev new (alloc (Malloc SIZEOF_VNODE new # hlog s) SIZEOF_INODE) s t)"
proof -
  obtain n v dir w where v: "vnodes s node = Some n" "vfss s (vfs_ptr n) = Some v" "vnodes s (vroot v) = Some dir"
    "cstr (kmem s) (vroot v) [47]" "vfss s (vfs_ptr dir) = Some w" "fs_data w \<noteq> NULL" "handles s (fs_data w) = Some fs"
    "cstr (kmem s) (e_slash ev) [47]" "node \<noteq> NULL"
    using assms(2) by (auto simp: on_volume_def)
  have "(of_nat (length name) :: u32) \<noteq> 0" using assms(6,7) by (simp add: word_unat_eq_iff unat_of_nat32)
  then have "fat12_open (blkread (call_blk_read h ln)) alloc ev node path flags s =
      fat12_lookup (blkread (call_blk_read h ln)) alloc ev (vroot v) path s"
    using v(1,2,9) assms(4) strlen_cstr [OF assms(5)] by (simp add: fat12_open_def)
  then show ?thesis
    using lookup_result [OF assms(1) v(3,4,8,5-7) assms(3,5,7-14)] by simp
qed

text \<open>C8: opening a file on the floppy disk. The entry a path denotes is the first entry of the root
  directory, up to the end mark, that is neither deleted nor a volume label and has the padded form of the
  path as its name. If there is one, \<open>fat12_open\<close> returns a new node that is named by the path,
  is a directory exactly if the entry is, and records the entry with its place; a node of a file is then one
  that can be read as that file. If there is none, the result is \<open>NULL\<close> and nothing is allocated.\<close>

theorem fat12_open_finds:
  assumes "fd_inv h ln img (block_dev fs) s" and "on_volume ev fs node s"
    and "unat (root_dir_start fs) + unat (root_dir_sectors fs) \<le> 2880"
    and "path \<noteq> NULL" and "cstr (kmem s) path name" and "name \<noteq> []" and "length name < 28"
    and "open_areas ev path (Suc (length name)) (kmem s)"
    and "new = alloc (hlog s) SIZEOF_VNODE" and "new \<noteq> NULL" and "mapped (kmem s) new 28"
    and "apart new 28 path (Suc (length name))" and "alloc (Malloc SIZEOF_VNODE new # hlog s) SIZEOF_INODE \<noteq> NULL"
    and "es = root_entries img (unat (root_dir_start fs)) (unat (root_dir_sectors fs))"
  shows "\<exists>r t. fat12_open (blkread (call_blk_read h ln)) alloc ev node path flags s = Some (r, t) \<and>
    (case dir_find (to_8_3 name) es of
       None \<Rightarrow> r = NULL \<and> hlog t = hlog s
     | Some p \<Rightarrow> r = new \<and> opened ev fs name es new p t)"
  using fat12_open_result [OF assms, where flags = flags] by (auto split: option.splits)

section \<open>A directory to run it on\<close>

definition demo_label :: "u8 list" where
  "demo_label = replicate 11 86 @ [8] @ replicate 20 0"

definition demo_file_entry :: "u8 list" where
  "demo_file_entry = [72, 73, 32, 32, 32, 32, 32, 32, 84, 88, 84, 0x20] @ replicate 14 0 @ [2, 0, 0x4C, 4, 0, 0]"

definition dir_disk :: "nat \<Rightarrow> u8 list" where
  "dir_disk n = (if n = 19 then demo_label @ demo_file_entry @ replicate 448 0 else replicate 512 (of_nat n))"

definition dir_env :: fat_env where
  "dir_env = \<lparr>e_fs_type = 0x500, e_vnode_ops = 0x300, e_slash = 0x7000, e_dir_entries = 0x8000, e_fat_name = 0x7400\<rparr>"

definition dir_state :: fsst where
  "dir_state = (demo_state [])\<lparr>
     kmem := put (put (put (kmem floppy_mach) 0x7000 [47, 0]) 0x600 [47, 0]) 0x7200 [72, 73, 46, 84, 88, 84, 0],
     vnodes := [0x600 \<mapsto> \<lparr>vfs_mountedhere = NULL, vfs_ptr = 0x200, vtype = V_DIRECTORY, vops = 0x300, vflags = 0,
       vdata = 0x400\<rparr>]\<rparr>"

lemmas dir_state_defs = dir_state_def demo_defs

lemma dir_disk_length: "length (dir_disk n) = 512"
  by (simp add: dir_disk_def demo_label_def demo_file_entry_def)

lemma dir_state_inv: "fd_inv (sim_floppy dir_disk) demo_link dir_disk (block_dev demo_handle) dir_state"
proof -
  have "settled dir_state"
    using floppy_mach_settled by (simp add: settled_def irqs_installed_def timer_installed_def dir_state_defs)
  then show ?thesis
    by (simp add: fd_inv_def sim_floppy_ok sim_floppy_ticking fdc_ready_def dir_state_defs demo_link_def dir_disk_length)
qed

lemma dir_state_kmem:
  "kmem dir_state = put (put (put (kmem floppy_mach) 0x7000 [47, 0]) 0x600 [47, 0]) 0x7200 [72, 73, 46, 84, 88, 84, 0]"
  by (simp add: dir_state_def)

lemma dir_state_mapped: "p < 0x100000 - of_nat n \<Longrightarrow> n < 0x100000 \<Longrightarrow> mapped (kmem dir_state) p n"
  unfolding dir_state_kmem by (intro mapped_put floppy_mach_mapped)

lemma dir_state_strings:
  "cstr (kmem dir_state) 0x7000 [47]" "cstr (kmem dir_state) 0x600 [47]" "cstr (kmem dir_state) 0x7200 [72, 73, 46, 84, 88, 84]"
  by (simp_all add: dir_state_kmem put_def)

lemma dir_find_demo: "dir_find (to_8_3 [72, 73, 46, 84, 88, 84]) (root_entries dir_disk 19 14) = Some 1"
  "root_entries dir_disk 19 14 ! 1 = demo_file_entry"
proof -
  let ?sec = "demo_label @ demo_file_entry @ replicate 448 (0 :: u8)"
  have l: "length demo_label = 32" "length demo_file_entry = 32" by (simp_all add: demo_label_def demo_file_entry_def)
  have "entries_of ?sec = take 32 (drop (32 * 0) ?sec) # take 32 (drop (32 * 1) ?sec) # map (\<lambda>i. take 32 (drop (32 * i) ?sec)) [2..<16]"
    unfolding entries_of_def by (simp add: upt_conv_Cons numeral_2_eq_2 [symmetric])
  then have e: "entries_of ?sec = demo_label # demo_file_entry # map (\<lambda>i. take 32 (drop (32 * i) ?sec)) [2..<16]"
    using l by simp
  have d: "dir_disk 19 = ?sec" by (simp add: dir_disk_def)
  have r: "root_entries dir_disk 19 14 = demo_label # demo_file_entry # map (\<lambda>i. take 32 (drop (32 * i) ?sec)) [2..<16]
      @ root_entries dir_disk 20 13"
    using root_entries_Suc [of dir_disk 19 13] by (simp add: d e)
  then show "root_entries dir_disk 19 14 ! 1 = demo_file_entry" by simp
  have "to_8_3 [72, 73, 46, 84, 88, 84] = take 11 demo_file_entry" by code_simp
  moreover have "\<not> entry_named (take 11 demo_file_entry) demo_label" "entry_named (take 11 demo_file_entry) demo_file_entry"
    "demo_label ! 0 \<noteq> FAT12_ENDDIR" "demo_file_entry ! 0 \<noteq> FAT12_ENDDIR"
    by code_simp+
  ultimately show "dir_find (to_8_3 [72, 73, 46, 84, 88, 84]) (root_entries dir_disk 19 14) = Some 1"
    unfolding r by simp
qed

theorem fat12_open_finds_witness:
  "\<exists>t. fat12_open (blkread (call_blk_read (sim_floppy dir_disk) demo_link)) (pool [0xA000, 0xB000]) dir_env 0x600
      0x7200 0 dir_state = Some (0xA000, t) \<and> file_at t 0xA000 demo_handle demo_file_entry"
proof -
  have "vnodes dir_state 0x600 = Some \<lparr>vfs_mountedhere = NULL, vfs_ptr = 0x200, vtype = V_DIRECTORY, vops = 0x300,
      vflags = 0, vdata = 0x400\<rparr>"
    "vfss dir_state 0x200 = Some \<lparr>fs_type_of = 0x500, vcovered = NULL, vroot = 0x600, fs_data = 0x700\<rparr>"
    "handles dir_state 0x700 = Some demo_handle"
    by (simp_all add: dir_state_defs)
  then have vol: "on_volume dir_env demo_handle 0x600 dir_state"
    using dir_state_strings by (simp add: on_volume_def dir_env_def)
  have sz: "unat (root_dir_start demo_handle) + unat (root_dir_sectors demo_handle) \<le> 2880"
    by (simp add: demo_handle_def)
  have areas: "open_areas dir_env 0x7200 (Suc (length [72 :: u8, 73, 46, 84, 88, 84])) (kmem dir_state)"
    using dir_state_mapped [where p = "0x8000" and n = 512] dir_state_mapped [where p = "0x7400" and n = 11]
    by (simp add: open_areas_def dir_env_def apart_def FLOPPY_DMA_BUFFER_def)
  have al: "0xA000 = pool [0xA000, 0xB000] (hlog dir_state) SIZEOF_VNODE"
    "pool [0xA000, 0xB000] (Malloc SIZEOF_VNODE 0xA000 # hlog dir_state) SIZEOF_INODE \<noteq> NULL"
    by (simp_all add: pool_def dir_state_defs boot_mach_def)
  have new: "mapped (kmem dir_state) 0xA000 28" by (rule dir_state_mapped) simp_all
  have ap: "apart 0xA000 28 0x7200 (Suc (length [72 :: u8, 73, 46, 84, 88, 84]))" by (simp add: apart_def)
  have es: "root_entries dir_disk 19 14 = root_entries dir_disk (unat (root_dir_start demo_handle)) (unat (root_dir_sectors demo_handle))"
    by (simp add: demo_handle_def)
  have at: "de_attributes demo_file_entry AND FAT12_DIR = 0" by code_simp
  show ?thesis
    using fat12_open_finds [OF dir_state_inv vol sz _ dir_state_strings(3) _ _ areas al(1) _ new ap al(2) es, where flags = 0]
    by (auto simp: dir_find_demo dir_find_demo(2) [simplified] opened_def at)
qed

end
