(* ===== verification/Fat12Mount.thy ===== *)
theory Fat12Mount
  imports Fat12Dir
begin

text \<open>
  Mounting a volume. \<open>fat12_mount\<close> on the floppy disk computes the layout of the volume from the fields of
  the boot sector, copies the file allocation table into memory and makes the root node, so that what
  it leaves is a volume on which files can be opened (\<open>Fat12Dir\<close>) and read (\<open>FileIO\<close>).
\<close>

unbundle bit_operations_syntax

section \<open>The boot sector\<close>

definition bs16 :: "u8 list \<Rightarrow> nat \<Rightarrow> u16" where
  "bs16 b i = le16 (b ! i) (b ! Suc i)"

definition bs32 :: "u8 list \<Rightarrow> nat \<Rightarrow> u32" where
  "bs32 b i = le32 (b ! i) (b ! (i + 1)) (b ! (i + 2)) (b ! (i + 3))"

text \<open>The layout of a volume with sectors of 512 bytes, from the fields of its boot sector \<open>b\<close>: hidden and
  reserved sectors, the copies of the table, the root directory, the data.\<close>

definition volume_layout :: "u8 list \<Rightarrow> ptr \<Rightarrow> ptr \<Rightarrow> ptr \<Rightarrow> fat12_handle" where
  "volume_layout b bsec table dv =
     (let fat = bs32 b 28 + ucast (bs16 b 14);
          root = fat + ucast (b ! 16) * ucast (bs16 b 22);
          sectors = ucast (bs16 b 17) div 16
      in \<lparr>bpb = bsec, ebr = bsec + SIZEOF_BPB, fat_start = fat, root_dir_start = root,
          root_dir_sectors = sectors, data_area_start = root + sectors, fat_table = table, block_dev = dv\<rparr>)"

lemma bpb_fields:
  assumes "fetch m p 512 = Some b"
  shows "bpb_hidden_sectors m p = Some (bs32 b 28)" "bpb_rsrvd_cnt m p = Some (bs16 b 14)"
    "bpb_num_fats m p = Some (b ! 16)" "bpb_sectors_per_fat m p = Some (bs16 b 22)"
    "bpb_max_root_dir_entries m p = Some (bs16 b 17)" "bpb_bytes_per_sector m p = Some (bs16 b 11)"
proof -
  have at: "m (p + of_nat i) = Some (b ! i)" if "i < 512" for i using assms that unfolding fetch_iff by blast
  have w: "ld16 m (p + of_nat i) = Some (bs16 b i)" if "i < 511" for i
    using at [of i] at [of "Suc i"] that by (simp add: bs16_def ld16_le16 add.assoc add.commute [of 1])
  show "bpb_hidden_sectors m p = Some (bs32 b 28)"
    using at [of 28] at [of 29] at [of 30] at [of 31]
    by (simp add: bpb_hidden_sectors_def ld32_def bs32_def add.assoc)
  show "bpb_num_fats m p = Some (b ! 16)" using at [of 16] by (simp add: bpb_num_fats_def)
  show "bpb_rsrvd_cnt m p = Some (bs16 b 14)" "bpb_sectors_per_fat m p = Some (bs16 b 22)"
    "bpb_max_root_dir_entries m p = Some (bs16 b 17)" "bpb_bytes_per_sector m p = Some (bs16 b 11)"
    using w [of 14] w [of 22] w [of 17] w [of 11]
    by (simp_all add: bpb_rsrvd_cnt_def bpb_sectors_per_fat_def bpb_max_root_dir_entries_def bpb_bytes_per_sector_def)
qed

lemma small_hidden:
  assumes "(x :: u32) < 256"
  shows "(ucast (ucast x :: u8) :: u32) = x"
proof -
  have "unat x < 256" using assms by (simp add: word_less_nat_alt)
  then show ?thesis by (simp add: word_unat_eq_iff unsigned_ucast_eq unsigned_take_bit_eq take_bit_nat_eq_self)
qed

lemma entries_sectors: "(ucast (x :: u16) :: u32) * 32 div 512 = ucast x div 16"
proof -
  have "unat x < 65536" using unsigned_less [of x, where ?'a = nat] by simp
  then have "unat ((ucast x :: u32) * 32) = unat x * 32"
    by (simp add: unat_word_ariths unsigned_ucast_eq take_bit_nat_eq_self)
  then show ?thesis
    using \<open>unat x < 65536\<close>
    by (simp add: word_unat_eq_iff unat_div_distrib unsigned_ucast_eq take_bit_nat_eq_self div_mult2_eq [of _ 32 16, simplified])
qed

lemma layout_of_boot:
  assumes "fetch m bsec 512 = Some b" and "bs16 b 11 = 512" and "bs32 b 28 < 256"
  shows "\<exists>fs. fat12_layout m bsec dv = Some fs \<and> fs\<lparr>fat_table := table\<rparr> = volume_layout b bsec table dv
    \<and> bpb fs = bsec"
  using assms
  by (simp add: fat12_layout_def bpb_fields [OF assms(1)] volume_layout_def small_hidden SIZEOF_DIR_ENTRY_def
      entries_sectors Let_def)

section \<open>The table\<close>

text \<open>The sectors \<open>a\<close> to \<open>a + n\<close> of a disk, one behind the other.\<close>

definition sectors :: "(nat \<Rightarrow> u8 list) \<Rightarrow> nat \<Rightarrow> nat \<Rightarrow> u8 list" where
  "sectors img a n = concat (map (\<lambda>i. img (a + i)) [0..<n])"

lemma sectors_Suc: "sectors img a (Suc n) = img a @ sectors img (Suc a) n"
  by (simp add: sectors_def map_upt_Suc del: upt_Suc)

lemma sectors_0 [simp]: "sectors img a 0 = []"
  by (simp add: sectors_def)

lemma ucast_nat16:
  assumes "unat (x :: u16) = n"
  shows "(ucast x :: u32) = of_nat n"
proof -
  have "n < 65536" using assms unsigned_less [of x, where ?'a = nat] by simp
  then show ?thesis using assms by (simp add: word_unat_eq_iff unsigned_ucast_eq take_bit_nat_eq_self unat_of_nat32)
qed

context fat_source
begin

lemma load_fat:
  assumes "inv dv s" and "k \<le> n" and "fetch (kmem s) (bpb fs) 512 = Some b" and "bs16 b 11 = 512"
    and "unat (bs16 b 22) = n" and "unat (fat_start fs) + n \<le> blocks" and "unat (fat_start fs) + n < 2 ^ 32"
    and "512 * n \<le> 2 ^ 32" and "unat (fat_table fs) + 512 * n \<le> 2 ^ 32" and "fat_table fs \<noteq> NULL"
    and "mapped (kmem s) (fat_table fs) (512 * n)" and "apart (fat_table fs) (512 * n) scratch 512"
    and "apart (fat_table fs) (512 * n) (bpb fs) 512" and "apart scratch 512 (bpb fs) 512"
  shows "\<exists>u. fat12_load_fat read dv fs (of_nat k) s = Some u \<and> io_step s u \<and> inv dv u \<and>
    fetch (kmem u) (fat_table fs + of_nat (512 * k)) (512 * (n - k)) = Some (sectors img (unat (fat_start fs) + k) (n - k)) \<and>
    (\<forall>q j. apart (fat_table fs + of_nat (512 * k)) (512 * (n - k)) q j \<longrightarrow> apart scratch 512 q j \<longrightarrow>
       fetch (kmem u) q j = fetch (kmem s) q j) \<and>
    (\<forall>q j. mapped (kmem s) q j \<longrightarrow> mapped (kmem u) q j)"
  using assms
proof (induction "n - k" arbitrary: k s)
  case 0
  have "(ucast (bs16 b 22) :: u32) = of_nat n" by (rule ucast_nat16 [OF 0(6)])
  then have "fat12_load_fat read dv fs (of_nat k) s = Some s"
    using 0(1,3) bpb_fields(4) [OF 0(4)] by (subst fat12_load_fat.simps) simp
  then show ?case using 0(1,2) by simp
next
  case (Suc m)
  let ?T = "fat_table fs" and ?a = "unat (fat_start fs)"
  have k: "k < n" "m = n - Suc k" "Suc k \<le> n" using Suc.hyps(2) by simp_all
  have n16: "n < 65536" using Suc.prems(5) unsigned_less [of "bs16 b 22", where ?'a = nat] by simp
  have uk: "unat (of_nat k :: u32) = k" using k n16 by (simp add: unat_of_nat32)
  have spf: "(ucast (bs16 b 22) :: u32) = of_nat n" by (rule ucast_nat16 [OF Suc.prems(5)])
  have lt: "(of_nat k :: u32) < of_nat n" using k n16 uk by (simp add: word_less_nat_alt unat_of_nat32)
  have us: "unat (fat_start fs + of_nat k) = ?a + k" using k uk Suc.prems(7) by (simp add: unat_word_ariths)
  have inr: "unat (fat_start fs + of_nat k) < blocks" using us k Suc.prems(6) by linarith
  let ?p = "?T + of_nat (512 * k)"
  have p0: "unat ?p = unat ?T + 512 * k"
    using k Suc.prems(8,9) by (simp add: unat_word_ariths unat_of_nat32 del: of_nat_mult)
  have pn: "?p \<noteq> NULL" using p0 Suc.prems(10) by (metis add_is_0 unat_eq_0)
  have sub: "512 * k + 512 \<le> 512 * n" using k by simp
  have mp: "mapped (kmem s) ?p 512" by (rule mapped_sub [OF Suc.prems(11) sub])
  have ap: "apart ?p 512 scratch 512" "apart ?p 512 (bpb fs) 512"
    using apart_sub [OF Suc.prems(12) sub, of 0 512] apart_sub [OF Suc.prems(13) sub, of 0 512] by simp_all
  obtain t where t: "read dv (fat_start fs + of_nat k) ?p s = Some (0, t)" "io_step s t" "inv dv t"
    "fetch (kmem t) ?p 512 = Some (img (?a + k))"
    "\<forall>q j. apart ?p 512 q j \<longrightarrow> apart scratch 512 q j \<longrightarrow> fetch (kmem t) q j = fetch (kmem s) q j"
    "\<forall>q j. mapped (kmem s) q j \<longrightarrow> mapped (kmem t) q j"
    using read_fetch [OF Suc.prems(1) inr pn mp ap(1)] unfolding us by blast
  have bt: "fetch (kmem t) (bpb fs) 512 = Some b" using t(5) ap(2) Suc.prems(3,14) by simp
  have mt: "mapped (kmem t) ?T (512 * n)" using t(6) Suc.prems(11) by simp
  let ?q = "?T + of_nat (512 * Suc k)"
  obtain u where u: "fat12_load_fat read dv fs (of_nat (Suc k)) t = Some u" "io_step t u" "inv dv u"
    "fetch (kmem u) ?q (512 * (n - Suc k)) = Some (sectors img (?a + Suc k) (n - Suc k))"
    "\<forall>q j. apart ?q (512 * (n - Suc k)) q j \<longrightarrow> apart scratch 512 q j \<longrightarrow> fetch (kmem u) q j = fetch (kmem t) q j"
    "\<forall>q j. mapped (kmem t) q j \<longrightarrow> mapped (kmem u) q j"
    using Suc.hyps(1) [OF k(2) t(3) k(3) bt Suc.prems(4-10) mt Suc.prems(12-14)] by blast
  have addr: "?T + of_nat k * 512 = ?p" "?p + of_nat 512 = ?q" by (simp_all add: algebra_simps)
  have nxt: "(of_nat k :: u32) + 1 = of_nat (Suc k)" by simp
  have "fat12_load_fat read dv fs (of_nat k) s = fat12_load_fat read dv fs (of_nat (Suc k)) t"
    using lt t(1) bpb_fields(4,6) [OF Suc.prems(3)] Suc.prems(4)
    by (subst fat12_load_fat.simps) (simp add: spf addr nxt del: of_nat_Suc of_nat_mult)
  moreover have "apart ?q (512 * (n - Suc k)) ?p 512"
    using apart_next [of 512 "512 * (n - Suc k)" ?p] sub Suc.prems(8) k unfolding addr by simp
  then have "fetch (kmem u) ?p 512 = Some (img (?a + k))"
    using u(5) t(4) ap(1) by (simp add: apart_sym [of scratch])
  then have "fetch (kmem u) ?p (512 + 512 * (n - Suc k)) = Some (img (?a + k) @ sectors img (?a + Suc k) (n - Suc k))"
    using u(4) unfolding addr(2) [symmetric] by (rule fetch_append)
  then have "fetch (kmem u) ?p (512 * (n - k)) = Some (sectors img (?a + k) (n - k))"
    using k sectors_Suc [of img "?a + k" "n - Suc k"] by (simp add: Suc_diff_Suc [symmetric])
  moreover have "fetch (kmem u) q j = fetch (kmem s) q j"
    if "apart ?p (512 * (n - k)) q j" "apart scratch 512 q j" for q j
  proof -
    have "apart ?p 512 q j" using apart_mono [OF that(1), of 512 j] k by simp
    moreover have "apart ?q (512 * (n - Suc k)) q j"
      using apart_sub [OF that(1), of 512 "512 * (n - Suc k)" 0 j] k unfolding addr by simp
    ultimately show ?thesis using u(5) t(5) that(2) by simp
  qed
  ultimately show ?case using u t io_step_trans [OF t(2) u(2)] by (intro exI [of _ u]) simp
qed

end

section \<open>Mounting\<close>

text \<open>The allocator grants these requests one after the other.\<close>

fun grants :: "allocator \<Rightarrow> heap_log \<Rightarrow> (u32 \<times> ptr) list \<Rightarrow> bool" where
  "grants alloc l [] \<longleftrightarrow> True"
| "grants alloc l ((n, p) # r) \<longleftrightarrow> alloc l n = p \<and> p \<noteq> NULL \<and> grants alloc (Malloc n p # l) r"

definition mount_areas :: "fat_env \<Rightarrow> nat \<Rightarrow> ptr \<Rightarrow> ptr \<Rightarrow> ptr \<Rightarrow> mem \<Rightarrow> bool" where
  "mount_areas ev n bsec table root m \<longleftrightarrow>
     mapped m bsec 512 \<and> mapped m table n \<and> mapped m root 28 \<and> unat table + n \<le> 2 ^ 32
     \<and> apart bsec 512 FLOPPY_DMA_BUFFER 512 \<and> apart table n FLOPPY_DMA_BUFFER 512 \<and> apart table n bsec 512
     \<and> apart FLOPPY_DMA_BUFFER 512 bsec 512 \<and> apart root 28 bsec 512 \<and> apart root 28 table n
     \<and> apart bsec 512 (e_slash ev) 2 \<and> apart table n (e_slash ev) 2 \<and> apart FLOPPY_DMA_BUFFER 512 (e_slash ev) 2
     \<and> apart root 28 (e_slash ev) 2"

lemma make_root:
  assumes "grants alloc (hlog s) [(SIZEOF_VNODE, root), (SIZEOF_INODE, ind)]"
    and "cstr (kmem s) (e_slash ev) [47]" "mapped (kmem s) root 28" "apart root 28 (e_slash ev) 2"
  shows "fat12_make_root alloc ev hp fs fsys s = Some (fsys, s\<lparr>kmem := put (kmem s) root (pad_to 28 [47]),
    hlog := Malloc SIZEOF_INODE ind # Malloc SIZEOF_VNODE root # hlog s,
    vfss := (vfss s)(fsys \<mapsto> \<lparr>fs_type_of = e_fs_type ev, vcovered = NULL, vroot = root, fs_data = hp\<rparr>),
    inodes := (inodes s)(ind \<mapsto> \<lparr>dir_entry = replicate 32 0, dir_sector = root_dir_start fs, dir_offset = 0\<rparr>),
    vnodes := (vnodes s)(root \<mapsto> \<lparr>vfs_mountedhere = NULL, vfs_ptr = fsys, vtype = V_DIRECTORY,
      vops = e_vnode_ops ev, vflags = 0, vdata = ind\<rparr>)\<rparr>)"
proof -
  have u: "unat (28 :: u32) = 28" by simp
  have "apart root 28 (e_slash ev) (Suc (length [47 :: u8]))" using assms(4) by (simp add: numeral_2_eq_2)
  then have "strncpy (kmem s) root (e_slash ev) 28 = Some (root, put (kmem s) root (pad_to 28 [47]))"
    using strncpy_put [of "kmem s" "e_slash ev" "[47]" root 28] assms(2,3) unfolding u by blast
  then show ?thesis
    using assms(1) by (simp add: fat12_make_root_def malloc_def Let_def)
qed

lemma cstr1_frame:
  assumes "fetch m' q 2 = fetch m q 2" and "cstr m q [47]"
  shows "cstr m' q [47]"
proof -
  have "cstr m q [47] \<longleftrightarrow> fetch m q 2 = Some [47, 0]" for m
    unfolding cstr_iff_fetch by (simp only: list.size numeral_2_eq_2 add_0 add_Suc One_nat_def) simp
  then show ?thesis using assms by simp
qed

lemma mount_steps:
  assumes inv: "fd_inv h ln img dv s" and dv: "blkdev_get_by_name device s = Some dv"
    and b: "b = img 0" "bs16 b 11 = 512" "bs32 b 28 < 256" and n: "n = unat (bs16 b 22)"
    and fs: "fs = volume_layout b bsec table dv" and size: "unat (fat_start fs) + n \<le> 2880"
    and al: "grants alloc (hlog s) [(SIZEOF_HANDLE, hp), (512, bsec), (ucast (bs16 b 22) * 512, table),
      (SIZEOF_VFS, fsys), (SIZEOF_VNODE, root), (SIZEOF_INODE, ind)]"
    and areas: "mount_areas ev (512 * n) bsec table root (kmem s)"
    and slash: "cstr (kmem s) (e_slash ev) [47]"
  obtains u where "fat12_mount (blkread (call_blk_read h ln)) alloc ev device s =
      fat12_make_root alloc ev hp fs fsys (u\<lparr>hlog := Malloc SIZEOF_VFS fsys # hlog u, handles := (handles u)(hp \<mapsto> fs)\<rparr>)"
    "fd_inv h ln img dv u" "fetch (kmem u) bsec 512 = Some b" "fetch (kmem u) table (512 * n) = Some (sectors img (unat (fat_start fs)) n)"
    "cstr (kmem u) (e_slash ev) [47]" "mapped (kmem u) root 28"
    "hlog u = Malloc (ucast (bs16 b 22) * 512) table # Malloc 512 bsec # Malloc SIZEOF_HANDLE hp # hlog s"
proof -
  let ?rd = "blkread (call_blk_read h ln)" and ?tsz = "ucast (bs16 b 22) * 512 :: u32"
  note ar = areas [unfolded mount_areas_def]
  let ?s1 = "s\<lparr>hlog := Malloc 512 bsec # Malloc SIZEOF_HANDLE hp # hlog s\<rparr>"
  have i1: "fd_inv h ln img dv ?s1" by (rule fd.inv_same [OF inv]) (simp add: same_dev_def)
  have nulls: "hp \<noteq> NULL" "bsec \<noteq> NULL" "table \<noteq> NULL" "fsys \<noteq> NULL" "dv \<noteq> NULL"
    using al inv by (simp_all add: fd_inv_def)
  have m1: "mapped (kmem ?s1) bsec 512" "apart bsec 512 FLOPPY_DMA_BUFFER 512" using ar by simp_all
  obtain t where t: "?rd dv 0 bsec ?s1 = Some (0, t)" "io_step ?s1 t" "fd_inv h ln img dv t" "fetch (kmem t) bsec 512 = Some b"
    and tf: "\<forall>q j. apart bsec 512 q j \<longrightarrow> apart FLOPPY_DMA_BUFFER 512 q j \<longrightarrow> fetch (kmem t) q j = fetch (kmem ?s1) q j"
    and tm: "\<forall>q j. mapped (kmem ?s1) q j \<longrightarrow> mapped (kmem t) q j"
    using fd.read_fetch [OF i1 _ nulls(2) m1, of 0] unfolding b(1) by auto
  have ht: "hlog t = Malloc 512 bsec # Malloc SIZEOF_HANDLE hp # hlog s" using io_step_fields(1) [OF t(2)] by simp
  let ?s2 = "t\<lparr>hlog := Malloc ?tsz table # hlog t\<rparr>"
  have i2: "fd_inv h ln img dv ?s2" by (rule fd.inv_same [OF t(3)]) (simp add: same_dev_def)
  have f: "bpb fs = bsec" "fat_table fs = table" by (simp_all add: fs volume_layout_def Let_def)
  have lim: "unat (fat_start fs) + n < 2 ^ 32" "512 * n \<le> 2 ^ 32" using size by simp_all
  have b2: "fetch (kmem ?s2) (bpb fs) 512 = Some b" using t(4) f by simp
  have m2: "mapped (kmem ?s2) (fat_table fs) (512 * n)" using tm ar f by simp
  have ap: "unat (fat_table fs) + 512 * n \<le> 2 ^ 32" "fat_table fs \<noteq> NULL"
    "apart (fat_table fs) (512 * n) FLOPPY_DMA_BUFFER 512" "apart (fat_table fs) (512 * n) (bpb fs) 512"
    "apart FLOPPY_DMA_BUFFER 512 (bpb fs) 512"
    using ar nulls f by simp_all
  obtain u where u: "fat12_load_fat ?rd dv fs (of_nat 0) ?s2 = Some u" "io_step ?s2 u" "fd_inv h ln img dv u"
    "fetch (kmem u) (fat_table fs + of_nat (512 * 0)) (512 * (n - 0)) = Some (sectors img (unat (fat_start fs) + 0) (n - 0))"
    and uf: "\<forall>q j. apart (fat_table fs + of_nat (512 * 0)) (512 * (n - 0)) q j \<longrightarrow> apart FLOPPY_DMA_BUFFER 512 q j \<longrightarrow>
       fetch (kmem u) q j = fetch (kmem ?s2) q j"
    and um: "\<forall>q j. mapped (kmem ?s2) q j \<longrightarrow> mapped (kmem u) q j"
    using fdfat.load_fat [OF i2 le0 b2 b(2) n [symmetric] size lim ap(1,2) m2 ap(3-5)] by blast
  have uf: "fetch (kmem u) q j = fetch (kmem t) q j" if "apart table (512 * n) q j" "apart FLOPPY_DMA_BUFFER 512 q j" for q j
    using uf that f by simp
  obtain fs0 where fs0: "fat12_layout (kmem t) bsec dv = Some fs0" "fs0\<lparr>fat_table := table\<rparr> = fs"
    using layout_of_boot [OF t(4) b(2,3), of dv table] unfolding fs by blast
  have small: "\<not> 2 ^ 31 \<le> unat (bs16 b 22) * unat (512 :: u16)" using size n by simp
  have "blkdev_get_by_name device ?s1 = Some dv"
    using dv by (auto simp: blkdev_get_by_name_def split: if_splits)
  then have "fat12_mount ?rd alloc ev device s =
      fat12_make_root alloc ev hp fs fsys (u\<lparr>hlog := Malloc SIZEOF_VFS fsys # hlog u, handles := (handles u)(hp \<mapsto> fs)\<rparr>)"
    using al nulls t(1) fs0 bpb_fields [OF t(4)] b(2) small u(1) ht io_step_fields(1) [OF u(2)]
    by (simp add: fat12_mount_def malloc_def Let_def)
  moreover have "fetch (kmem u) bsec 512 = Some b" using uf [of bsec 512] t(4) ar by simp
  moreover have "fetch (kmem u) (e_slash ev) 2 = fetch (kmem s) (e_slash ev) 2"
    using uf [of "e_slash ev" 2] tf ar by simp
  then have "cstr (kmem u) (e_slash ev) [47]" using slash by (rule cstr1_frame)
  moreover have "mapped (kmem u) root 28" using um tm ar by simp
  ultimately show ?thesis using that [of u] u(3,4) f ht io_step_fields(1) [OF u(2)] by simp
qed

text \<open>C9: mounting the floppy disk. When the allocator grants the six requests and the boot sector
  describes a volume of sectors of 512 bytes with fewer than 256 hidden sectors, \<open>fat12_mount\<close> returns a file
  system whose handle has the layout of the boot sector, whose table in memory is the first copy of the
  table on the disk, and whose root is a node on which files can be opened.\<close>

theorem fat12_mount_loads:
  assumes "fd_inv h ln img dv s" and "blkdev_get_by_name device s = Some dv"
    and "b = img 0" and "bs16 b 11 = 512" and "bs32 b 28 < 256" and "n = unat (bs16 b 22)"
    and "fs = volume_layout b bsec table dv" and "unat (fat_start fs) + n \<le> 2880"
    and "grants alloc (hlog s) [(SIZEOF_HANDLE, hp), (512, bsec), (ucast (bs16 b 22) * 512, table),
      (SIZEOF_VFS, fsys), (SIZEOF_VNODE, root), (SIZEOF_INODE, ind)]"
    and "mount_areas ev (512 * n) bsec table root (kmem s)" and "cstr (kmem s) (e_slash ev) [47]"
  shows "\<exists>t. fat12_mount (blkread (call_blk_read h ln)) alloc ev device s = Some (fsys, t) \<and>
    vfss t fsys = Some \<lparr>fs_type_of = e_fs_type ev, vcovered = NULL, vroot = root, fs_data = hp\<rparr> \<and>
    handles t hp = Some fs \<and> on_volume ev fs root t \<and> fd_inv h ln img (block_dev fs) t \<and>
    fetch (kmem t) (bpb fs) 512 = Some b \<and>
    fetch (kmem t) (fat_table fs) (512 * n) = Some (sectors img (unat (fat_start fs)) n)"
proof -
  obtain u where u: "fat12_mount (blkread (call_blk_read h ln)) alloc ev device s =
      fat12_make_root alloc ev hp fs fsys (u\<lparr>hlog := Malloc SIZEOF_VFS fsys # hlog u, handles := (handles u)(hp \<mapsto> fs)\<rparr>)"
    "fd_inv h ln img dv u" "fetch (kmem u) bsec 512 = Some b" "fetch (kmem u) table (512 * n) = Some (sectors img (unat (fat_start fs)) n)"
    "cstr (kmem u) (e_slash ev) [47]" "mapped (kmem u) root 28"
    "hlog u = Malloc (ucast (bs16 b 22) * 512) table # Malloc 512 bsec # Malloc SIZEOF_HANDLE hp # hlog s"
    by (rule mount_steps [OF assms])
  let ?u = "u\<lparr>hlog := Malloc SIZEOF_VFS fsys # hlog u, handles := (handles u)(hp \<mapsto> fs)\<rparr>"
  let ?m = "put (kmem u) root (pad_to 28 [47])"
  have g: "grants alloc (hlog ?u) [(SIZEOF_VNODE, root), (SIZEOF_INODE, ind)]" using assms(9) u(7) by simp
  have ar: "apart root 28 bsec 512" "apart root 28 table (512 * n)" "apart root 28 (e_slash ev) 2"
    using assms(10) by (simp_all add: mount_areas_def)
  have kept: "fetch ?m q j = fetch (kmem u) q j" if "apart root 28 q j" for q j
    by (rule fetch_put_apart) (simp add: that)
  have f: "bpb fs = bsec" "fat_table fs = table" "block_dev fs = dv" by (simp_all add: assms(7) volume_layout_def Let_def)
  have c: "cstr ?m root [47]" by (rule cstr_padded) simp_all
  have c': "cstr ?m (e_slash ev) [47]" by (rule cstr1_frame [OF kept [OF ar(3)] u(5)])
  have "cstr (kmem ?u) (e_slash ev) [47]" "mapped (kmem ?u) root 28" using u(5,6) by simp_all
  note mk = make_root [OF g this ar(3), where hp = hp and fs = fs and fsys = fsys]
  obtain t where t: "fat12_make_root alloc ev hp fs fsys ?u = Some (fsys, t)" "kmem t = ?m"
    "vfss t fsys = Some \<lparr>fs_type_of = e_fs_type ev, vcovered = NULL, vroot = root, fs_data = hp\<rparr>"
    "handles t hp = Some fs"
    "vnodes t root = Some \<lparr>vfs_mountedhere = NULL, vfs_ptr = fsys, vtype = V_DIRECTORY, vops = e_vnode_ops ev, vflags = 0, vdata = ind\<rparr>"
    "same_dev u t"
    using mk by (simp add: same_dev_def)
  have "root \<noteq> NULL" "hp \<noteq> NULL" using assms(9) by simp_all
  then have "on_volume ev fs root t" using t c c' by (simp add: on_volume_def)
  moreover have "fd_inv h ln img (block_dev fs) t" using fd.inv_same [OF u(2) t(6)] f by simp
  moreover have "fetch (kmem t) (bpb fs) 512 = Some b" using kept [OF ar(1)] u(3) by (simp add: f t(2))
  moreover have "fetch (kmem t) (fat_table fs) (512 * n) = Some (sectors img (unat (fat_start fs)) n)"
    using kept [OF ar(2)] u(4) by (simp add: f t(2))
  ultimately show ?thesis using u(1) t by simp
qed

section \<open>A disk to mount\<close>

definition boot_sector :: "u8 list" where
  "boot_sector = [0xEB, 0x3C, 0x90, 77, 83, 68, 79, 83, 53, 46, 48, 0, 2, 1, 1, 0, 2, 224, 0, 0x40, 0x0B, 0xF0,
     9, 0, 18, 0, 2, 0, 0, 0, 0, 0] @ replicate 480 0"

definition mount_disk :: "nat \<Rightarrow> u8 list" where
  "mount_disk n = (if n = 0 then boot_sector else replicate 512 (of_nat n))"

definition mount_env :: fat_env where
  "mount_env = \<lparr>e_fs_type = 0x500, e_vnode_ops = 0x300, e_slash = 0x7100, e_dir_entries = 0x8000, e_fat_name = 0x7400\<rparr>"

definition mount_state :: fsst where
  "mount_state = (demo_state [])\<lparr>
     kmem := put (put (kmem floppy_mach) 0x7000 (fd0_name @ [0])) 0x7100 [47, 0],
     block_devices := Some (0x9000 # replicate 15 NULL), num_block_devices := 1\<rparr>"

definition mount_pool :: "ptr list" where
  "mount_pool = [0x9100, 0x9400, 0x20000, 0x9800, 0x9A00, 0x9C00]"

lemmas mount_state_defs = mount_state_def demo_defs

lemma mount_state_inv: "fd_inv (sim_floppy mount_disk) demo_link mount_disk 0x9000 mount_state"
proof -
  have "settled mount_state"
    using floppy_mach_settled by (simp add: settled_def irqs_installed_def timer_installed_def mount_state_defs)
  moreover have "length (mount_disk n) = 512" for n by (simp add: mount_disk_def boot_sector_def)
  ultimately show ?thesis
    by (simp add: fd_inv_def sim_floppy_ok sim_floppy_ticking fdc_ready_def mount_state_defs demo_link_def)
qed

lemma mount_state_mapped: "p < 0x100000 - of_nat n \<Longrightarrow> n < 0x100000 \<Longrightarrow> mapped (kmem mount_state) p n"
  unfolding mount_state_def by (simp add: mapped_put floppy_mach_mapped)

lemma mount_state_strings: "cstr (kmem mount_state) 0x7100 [47]" "cstr (kmem mount_state) 0x7000 fd0_name"
  by (simp_all add: mount_state_def put_def fd0_name_def)

lemma mount_state_device: "blkdev_get_by_name 0x7000 mount_state = Some 0x9000"
proof -
  have "strcmp (kmem mount_state) 0x7000 0x7000 = Some 0"
    using strcmp_eq_0_iff [OF mount_state_strings(2,2)] by simp
  moreover have "bdev_heap mount_state 0x9000 = Some (fd0_device demo_link)" "num_block_devices mount_state = 1"
    "block_devices mount_state = Some (0x9000 # replicate 15 NULL)"
    by (simp_all add: mount_state_defs)
  ultimately show ?thesis
    by (simp add: blkdev_get_by_name_def blk_scan.simps fd0_device_def demo_link_def)
qed

theorem fat12_mount_loads_witness:
  "\<exists>t fs. fat12_mount (blkread (call_blk_read (sim_floppy mount_disk) demo_link)) (pool mount_pool) mount_env 0x7000 mount_state
      = Some (0x9800, t) \<and> handles t 0x9100 = Some fs \<and> root_dir_start fs = 19 \<and> data_area_start fs = 33 \<and>
    on_volume mount_env fs 0x9A00 t \<and> fetch (kmem t) 0x20000 4608 = Some (sectors mount_disk 1 9)"
proof -
  let ?fs = "volume_layout boot_sector 0x9400 0x20000 0x9000"
  have b: "boot_sector = mount_disk 0" "bs16 boot_sector 11 = 512" "bs32 boot_sector 28 < 256"
    "9 = unat (bs16 boot_sector 22)"
    by (simp_all add: mount_disk_def boot_sector_def bs16_def bs32_def le16_def le32_def nth_append)
  have w: "bs32 boot_sector 28 = 0" "bs16 boot_sector 14 = 1" "bs16 boot_sector 22 = 9" "boot_sector ! 16 = 2"
    "bs16 boot_sector 17 = 224"
    by (simp_all add: boot_sector_def bs16_def bs32_def le16_def le32_def nth_append)
  have f: "fat_start ?fs = 1" "root_dir_start ?fs = 19" "data_area_start ?fs = 33" "fat_table ?fs = 0x20000"
    by (simp_all add: volume_layout_def Let_def w)
  have size: "unat (fat_start ?fs) + 9 \<le> 2880" by (simp add: f)
  have log: "hlog mount_state = []" by (simp add: mount_state_defs boot_mach_def)
  have al: "grants (pool mount_pool) (hlog mount_state) [(SIZEOF_HANDLE, 0x9100), (512, 0x9400),
      (ucast (bs16 boot_sector 22) * 512, 0x20000), (SIZEOF_VFS, 0x9800), (SIZEOF_VNODE, 0x9A00), (SIZEOF_INODE, 0x9C00)]"
    by (simp add: log pool_def mount_pool_def)
  have areas: "mount_areas mount_env (512 * 9) 0x9400 0x20000 0x9A00 (kmem mount_state)"
    using mount_state_mapped [where p = "0x9400" and n = 512] mount_state_mapped [where p = "0x20000" and n = 4608]
      mount_state_mapped [where p = "0x9A00" and n = 28]
    by (simp add: mount_areas_def mount_env_def apart_def FLOPPY_DMA_BUFFER_def)
  have sl: "cstr (kmem mount_state) (e_slash mount_env) [47]" using mount_state_strings(1) by (simp add: mount_env_def)
  show ?thesis
    using fat12_mount_loads [OF mount_state_inv mount_state_device b refl size al areas sl]
    by (auto simp: f)
qed

end
