(* ===== verification/Vfs.thy ===== *)
theory Vfs
  imports FatVolume
begin

text \<open>
  The virtual file system, \<open>fs/vfs.c\<close> on the structures of \<open>include/fs/vfs.h\<close>: the table of file
  system types, the growing array of mounted file systems, opening a path and reading an open file.
  The array \<open>_mountpoints\<close> is a block of the kernel heap and is read and written as memory. A call
  through a function pointer goes through \<open>calls\<close>, a dispatch from addresses to functions on the
  state; \<open>fat_calls\<close> is the dispatch of a kernel that links the FAT12 driver, the only one there is.
  \<open>realloc\<close> is only present as an object file and is the parameter \<open>re\<close>.
\<close>

section \<open>Structures\<close>

record vnode_ops =
  vo_open :: fnptr
  vo_close :: fnptr
  vo_read :: fnptr
  vo_write :: fnptr
  vo_readdir :: fnptr

record fs_type =
  fs_name :: ptr
  fs_mount :: fnptr
  fs_unmount :: fnptr

record file_t =
  f_vnode_ptr :: ptr
  f_offset :: u32
  f_flags :: u32

record vfsst = fsst +
  mountpoints :: ptr
  curr_size :: u32
  vfs_root_vnode :: ptr
  files :: "ptr \<Rightarrow> file_t option"
  vnode_opss :: "ptr \<Rightarrow> vnode_ops option"
  fs_types :: "ptr \<Rightarrow> fs_type option"

record 's fs_calls =
  c_mount :: "fnptr \<Rightarrow> ptr \<Rightarrow> 's \<Rightarrow> (ptr \<times> 's) option"
  c_open :: "fnptr \<Rightarrow> ptr \<Rightarrow> ptr \<Rightarrow> u32 \<Rightarrow> 's \<Rightarrow> (ptr \<times> 's) option"
  c_read :: "fnptr \<Rightarrow> ptr \<Rightarrow> u32 \<Rightarrow> u32 \<Rightarrow> ptr \<Rightarrow> 's \<Rightarrow> (u32 \<times> 's) option"

type_synonym reallocator = "ptr \<Rightarrow> u32 \<Rightarrow> mem \<Rightarrow> heap_log \<Rightarrow> ptr \<times> mem"

definition SIZEOF_FILE :: u32 where "SIZEOF_FILE = 12"
definition INIT_MPOINTS :: u32 where "INIT_MPOINTS = 16"

definition krealloc :: "reallocator \<Rightarrow> ptr \<Rightarrow> u32 \<Rightarrow> 'z kst_scheme \<Rightarrow> ptr \<times> 'z kst_scheme" where
  "krealloc re p n s =
     (let (q, m) = re p n (kmem s) (hlog s)
      in (q, if q = NULL then s
             else s\<lparr>kmem := m, hlog := Malloc n q # Freed p # hlog s\<rparr>))"

section \<open>The table of mounted file systems\<close>

function mp_scan :: "mem \<Rightarrow> ptr \<Rightarrow> u32 \<Rightarrow> u32 \<Rightarrow> u32 option option" where
  "mp_scan m tbl n i =
     (if i < n then do {
        e \<leftarrow> ld32 m (tbl + 4 * i);
        if e = NULL then Some (Some i) else mp_scan m tbl n (i + 1)
      } else Some None)"
  by pat_completeness auto
termination
  by (relation "measure (\<lambda>(m, tbl, n, i). unat n - unat i)") (auto intro: word_loop_dec)

declare mp_scan.simps [simp del]

definition add_to_mpoints :: "reallocator \<Rightarrow> ptr \<Rightarrow> 'z vfsst_scheme \<Rightarrow> 'z vfsst_scheme option" where
  "add_to_mpoints re v s = do {
     r \<leftarrow> mp_scan (kmem s) (mountpoints s) (curr_size s) 0;
     (case r of
        Some i \<Rightarrow> do {
          m \<leftarrow> st32 (kmem s) (mountpoints s + 4 * i) v;
          Some (s\<lparr>kmem := m\<rparr>)
        }
      | None \<Rightarrow>
          let (temp, s) = krealloc re (mountpoints s) (curr_size s + 5) s in
          if temp = NULL then Some s
          else do {
            m \<leftarrow> st32 (kmem s) (temp + 4 * curr_size s) v;
            Some (s\<lparr>mountpoints := temp, kmem := m, curr_size := curr_size s + 5\<rparr>)
          })
   }"

definition vfs_init :: "allocator \<Rightarrow> 'z vfsst_scheme \<Rightarrow> 'z vfsst_scheme option" where
  "vfs_init alloc s =
     (let (p, s) = malloc alloc (INIT_MPOINTS * 4) s in
      if p = NULL then None
      else do {
        (_, m) \<leftarrow> memset (kmem s) p 0 (INIT_MPOINTS * 4);
        Some (s\<lparr>kmem := m, vfs_root_vnode := NULL, mountpoints := p, curr_size := 0\<rparr>)
      })"

section \<open>Mounting\<close>

text \<open>The static array of types ends with \<open>NULL\<close>: it is the list of the entries before it.\<close>

fun find_fs_type :: "mem \<Rightarrow> (ptr \<Rightarrow> fs_type option) \<Rightarrow> ptr list \<Rightarrow> ptr \<Rightarrow> ptr option" where
  "find_fs_type m ts [] name = Some NULL"
| "find_fs_type m ts (p # ps) name = do {
     t \<leftarrow> ts p;
     r \<leftarrow> strcmp m (fs_name t) name;
     if r = 0 then Some p else find_fs_type m ts ps name
   }"

definition vfs_mount ::
  "'z vfsst_scheme fs_calls \<Rightarrow> reallocator \<Rightarrow> allocator \<Rightarrow> ptr list \<Rightarrow> ptr \<Rightarrow> ptr \<Rightarrow> ptr \<Rightarrow>
   'z vfsst_scheme \<Rightarrow> (u32 \<times> 'z vfsst_scheme) option" where
  "vfs_mount calls re alloc types src_dev mount_path fs_type s = do {
     fst \<leftarrow> find_fs_type (kmem s) (fs_types s) types fs_type;
     if fst = NULL then Some (-1, s)
     else do {
       t \<leftarrow> fs_types s fst;
       (filesystem, s) \<leftarrow> c_mount calls (fs_mount t) src_dev s;
       if filesystem = NULL then Some (-1, s)
       else
         let (mount_at, s) = malloc alloc SIZEOF_VNODE s in
         if mount_at = NULL then None
         else do {
           (_, m) \<leftarrow> memset (kmem s) mount_at 0 SIZEOF_VNODE;
           (_, m) \<leftarrow> strncpy m mount_at (mount_path + 1) 28;
           let s = s\<lparr>kmem := m, vnodes := (vnodes s)(mount_at \<mapsto>
                 \<lparr>vfs_mountedhere = filesystem, vfs_ptr = NULL, vtype = V_DIRECTORY, vops = NULL,
                  vflags = 0, vdata = NULL\<rparr>)\<rparr>;
           v \<leftarrow> vfss s filesystem;
           let s = s\<lparr>vfss := (vfss s)(filesystem \<mapsto> v\<lparr>vcovered := mount_at\<rparr>)\<rparr>;
           s \<leftarrow> add_to_mpoints re filesystem s;
           Some (0, s)
         }
     }
   }"

section \<open>Opening and reading\<close>

text \<open>The loop over the mount points has no early exit: the last match wins. The name of a vnode is
  at its address.\<close>

function mp_find ::
  "mem \<Rightarrow> (ptr \<Rightarrow> vfs_fs option) \<Rightarrow> ptr \<Rightarrow> u32 \<Rightarrow> ptr \<Rightarrow> u32 \<Rightarrow> ptr \<Rightarrow> ptr option" where
  "mp_find m vs tbl n token i root =
     (if i < n then do {
        e \<leftarrow> ld32 m (tbl + 4 * i);
        if e = NULL then mp_find m vs tbl n token (i + 1) root
        else do {
          v \<leftarrow> vs e;
          r \<leftarrow> strcmp m (vcovered v) token;
          mp_find m vs tbl n token (i + 1) (if r = 0 then vroot v else root)
        }
      } else Some root)"
  by pat_completeness auto
termination
  by (relation "measure (\<lambda>(m, vs, tbl, n, token, i, root). unat n - unat i)") (auto intro: word_loop_dec)

declare mp_find.simps [simp del]

definition vfs_open ::
  "'z vfsst_scheme fs_calls \<Rightarrow> allocator \<Rightarrow> ptr \<Rightarrow> ptr \<Rightarrow> u32 \<Rightarrow> 'z vfsst_scheme \<Rightarrow>
   (ptr \<times> 'z vfsst_scheme) option" where
  "vfs_open calls alloc slash path flags s = do {
     (token, next_token, m) \<leftarrow> strtok_r (kmem s) path slash NULL;
     let s = s\<lparr>kmem := m\<rparr>;
     root_node \<leftarrow> mp_find (kmem s) (vfss s) (mountpoints s) (curr_size s) token 0 NULL;
     if root_node = NULL then Some (NULL, s)
     else do {
       n \<leftarrow> vnodes s root_node;
       ops \<leftarrow> vnode_opss s (vops n);
       (result, s) \<leftarrow> c_open calls (vo_open ops) root_node next_token flags s;
       let (fp, s) = malloc alloc SIZEOF_FILE s in
       if fp = NULL then None
       else Some (fp, s\<lparr>files := (files s)(fp \<mapsto>
              \<lparr>f_vnode_ptr = result, f_offset = 0, f_flags = flags\<rparr>)\<rparr>)
     }
   }"

definition vfs_read ::
  "'z vfsst_scheme fs_calls \<Rightarrow> ptr \<Rightarrow> ptr \<Rightarrow> u32 \<Rightarrow> 'z vfsst_scheme \<Rightarrow>
   (u32 \<times> 'z vfsst_scheme) option" where
  "vfs_read calls fp buf size_arg s =
     (if fp = NULL then Some (-1, s)
      else do {
        f \<leftarrow> files s fp;
        if f_vnode_ptr f = NULL \<or> buf = NULL \<or> size_arg = 0 then Some (-1, s)
        else do {
          n \<leftarrow> vnodes s (f_vnode_ptr f);
          ops \<leftarrow> vnode_opss s (vops n);
          (bytes_read, s) \<leftarrow> c_read calls (vo_read ops) (f_vnode_ptr f) (f_offset f) size_arg buf s;
          if 0 <s bytes_read then do {
            f \<leftarrow> files s fp;
            Some (bytes_read, s\<lparr>files := (files s)(fp \<mapsto> f\<lparr>f_offset := f_offset f + bytes_read\<rparr>)\<rparr>)
          } else Some (bytes_read, s)
        }
      })"

section \<open>The dispatch of a kernel with the FAT12 driver\<close>

record fat_link =
  l_fat_mount :: fnptr
  l_fat_unmount :: fnptr
  l_fat_open :: fnptr
  l_fat_close :: fnptr
  l_fat_read :: fnptr
  l_fat_write :: fnptr

definition fat_calls ::
  "'z vfsst_ext fs_reader \<Rightarrow> allocator \<Rightarrow> fat_env \<Rightarrow> fat_link \<Rightarrow> 'z vfsst_scheme fs_calls" where
  "fat_calls rd alloc ev fl = \<lparr>
     c_mount = \<lambda>f device s. if f = l_fat_mount fl then fat12_mount rd alloc ev device s else None,
     c_open = \<lambda>f node path flags s.
       if f = l_fat_open fl then fat12_open rd alloc ev node path flags s else None,
     c_read = \<lambda>f node offs n buf s.
       if f = l_fat_read fl then fat12_read rd alloc node offs n buf s else None\<rparr>"

text \<open>The static objects of the driver: its type, with the name at \<open>name\<close>, and its operations.\<close>

definition fat_linked :: "fat_env \<Rightarrow> fat_link \<Rightarrow> ptr \<Rightarrow> 'z vfsst_scheme \<Rightarrow> bool" where
  "fat_linked ev fl name s \<longleftrightarrow>
     fs_types s (e_fs_type ev) =
       Some \<lparr>fs_name = name, fs_mount = l_fat_mount fl, fs_unmount = l_fat_unmount fl\<rparr> \<and>
     vnode_opss s (e_vnode_ops ev) =
       Some \<lparr>vo_open = l_fat_open fl, vo_close = l_fat_close fl, vo_read = l_fat_read fl,
             vo_write = l_fat_write fl, vo_readdir = 0\<rparr>"

end
