(* ===== verification/Elf.thy ===== *)
theory Elf
  imports Vfs Paging
begin

text \<open>
  The ELF loader, \<open>proc/elf.c\<close> on the structures of \<open>include/proc/elf.h\<close>. The file header and the
  program header being read are locals of \<open>elf_load\<close>: their addresses are parameters, and every
  field is read from memory each time the code mentions it. The memory manager is an object file:
  its functions are the record \<open>vmm\<close>, an argument of whatever calls them.
\<close>

unbundle bit_operations_syntax

section \<open>The memory manager as a parameter\<close>

record 's vmm =
  v_create :: "'s \<Rightarrow> ptr \<times> 's"
  v_kerneldir :: "'s \<Rightarrow> ptr"
  v_clone :: "'s \<Rightarrow> ptr \<times> 's"
  v_switch :: "ptr \<Rightarrow> 's \<Rightarrow> 's"
  v_alloc_region :: "ptr \<Rightarrow> ptr \<Rightarrow> u32 \<Rightarrow> u32 \<Rightarrow> 's \<Rightarrow> bool \<times> 's"
  v_free_region :: "ptr \<Rightarrow> ptr \<Rightarrow> u32 \<Rightarrow> 's \<Rightarrow> 's"

section \<open>The headers\<close>

definition ELF_CLASS_32 :: u8 where "ELF_CLASS_32 = 1"
definition ELF_DATA_LSB :: u8 where "ELF_DATA_LSB = 1"
definition ELF_TYPE_EXEC :: u16 where "ELF_TYPE_EXEC = 2"
definition ELF_PT_LOAD :: u32 where "ELF_PT_LOAD = 1"
definition SIZEOF_ELF_HEADER :: u32 where "SIZEOF_ELF_HEADER = 48"
definition SIZEOF_ELF_PHDR :: u32 where "SIZEOF_ELF_PHDR = 32"
definition PDE_PRESENT :: u32 where "PDE_PRESENT = 0x001"
definition PDE_WRITABLE :: u32 where "PDE_WRITABLE = 0x002"
definition PDE_USER :: u32 where "PDE_USER = 0x004"

definition e_type :: "mem \<Rightarrow> ptr \<Rightarrow> u16 option" where "e_type m p = ld16 m (p + 16)"
definition e_entry :: "mem \<Rightarrow> ptr \<Rightarrow> u32 option" where "e_entry m p = ld32 m (p + 24)"
definition e_phoff :: "mem \<Rightarrow> ptr \<Rightarrow> u32 option" where "e_phoff m p = ld32 m (p + 28)"
definition e_phentsize :: "mem \<Rightarrow> ptr \<Rightarrow> u16 option" where "e_phentsize m p = ld16 m (p + 42)"
definition e_phnum :: "mem \<Rightarrow> ptr \<Rightarrow> u16 option" where "e_phnum m p = ld16 m (p + 44)"

definition p_type :: "mem \<Rightarrow> ptr \<Rightarrow> u32 option" where "p_type m p = ld32 m p"
definition p_offset :: "mem \<Rightarrow> ptr \<Rightarrow> u32 option" where "p_offset m p = ld32 m (p + 4)"
definition p_vaddr :: "mem \<Rightarrow> ptr \<Rightarrow> u32 option" where "p_vaddr m p = ld32 m (p + 8)"
definition p_filesz :: "mem \<Rightarrow> ptr \<Rightarrow> u32 option" where "p_filesz m p = ld32 m (p + 16)"
definition p_memsz :: "mem \<Rightarrow> ptr \<Rightarrow> u32 option" where "p_memsz m p = ld32 m (p + 20)"

text \<open>The tests of the identification are evaluated from left to right and stop at the first that
  fails.\<close>

definition elf_check_hdr :: "mem \<Rightarrow> ptr \<Rightarrow> bool option" where
  "elf_check_hdr m hdr = do {
     i0 \<leftarrow> m hdr;
     if i0 \<noteq> 0x7F then Some False else do {
     i1 \<leftarrow> m (hdr + 1);
     if i1 \<noteq> 69 then Some False else do {
     i2 \<leftarrow> m (hdr + 2);
     if i2 \<noteq> 76 then Some False else do {
     i3 \<leftarrow> m (hdr + 3);
     if i3 \<noteq> 70 then Some False else do {
     ty \<leftarrow> e_type m hdr;
     if ty \<noteq> ELF_TYPE_EXEC then Some False else do {
     i4 \<leftarrow> m (hdr + 4);
     if i4 \<noteq> ELF_CLASS_32 then Some False else do {
     i5 \<leftarrow> m (hdr + 5);
     Some (i5 = ELF_DATA_LSB)
     }}}}}}}"

section \<open>Loading\<close>

definition set_offset :: "ptr \<Rightarrow> u32 \<Rightarrow> 'z vfsst_scheme \<Rightarrow> 'z vfsst_scheme option" where
  "set_offset fp offs s = do {
     f \<leftarrow> files s fp;
     Some (s\<lparr>files := (files s)(fp \<mapsto> f\<lparr>f_offset := offs\<rparr>)\<rparr>)
   }"

definition elf_load_seg ::
  "'z vfsst_scheme fs_calls \<Rightarrow> 'z vfsst_scheme vmm \<Rightarrow> ptr \<Rightarrow> ptr \<Rightarrow> ptr \<Rightarrow> 'z vfsst_scheme \<Rightarrow>
   (u32 \<times> 'z vfsst_scheme) option" where
  "elf_load_seg calls vm fp dir phdr s =
     (if fp = NULL \<or> dir = NULL \<or> phdr = NULL then Some (-1, s)
      else do {
        vaddr \<leftarrow> p_vaddr (kmem s) phdr;
        memsz \<leftarrow> p_memsz (kmem s) phdr;
        let start_addr = PAGE_ALIGN_UP vaddr;
        let end_addr = PAGE_ALIGN_DWN (vaddr + memsz);
        let sz = end_addr - start_addr;
        let (ok, s) = v_alloc_region vm dir (PAGE_ALIGN_UP vaddr) sz
                        (PDE_USER OR PDE_PRESENT OR PDE_WRITABLE) s;
        if \<not> ok then Some (-1, s)
        else do {
          offs \<leftarrow> p_offset (kmem s) phdr;
          s \<leftarrow> set_offset fp offs s;
          vaddr \<leftarrow> p_vaddr (kmem s) phdr;
          filesz \<leftarrow> p_filesz (kmem s) phdr;
          (_, s) \<leftarrow> vfs_read calls fp vaddr filesz s;
          memsz \<leftarrow> p_memsz (kmem s) phdr;
          filesz \<leftarrow> p_filesz (kmem s) phdr;
          if memsz > filesz then do {
            vaddr \<leftarrow> p_vaddr (kmem s) phdr;
            (_, m) \<leftarrow> memset (kmem s) (vaddr + filesz) 0 (memsz - filesz);
            Some (0, s\<lparr>kmem := m\<rparr>)
          } else Some (0, s)
        }
      })"

text \<open>The loop over the program headers reads its bound from the header in memory in every
  iteration; it ends because the bound is a 16-bit number and the counter a 32-bit one.\<close>

function elf_load_loop ::
  "'z vfsst_scheme fs_calls \<Rightarrow> 'z vfsst_scheme vmm \<Rightarrow> ptr \<Rightarrow> ptr \<Rightarrow> ptr \<Rightarrow> ptr \<Rightarrow> u32 \<Rightarrow> 'z vfsst_scheme \<Rightarrow>
   (u32 \<times> 'z vfsst_scheme) option" where
  "elf_load_loop calls vm fp dir hdr phdr i s = do {
     phnum \<leftarrow> e_phnum (kmem s) hdr;
     if i < ucast phnum then do {
       phoff \<leftarrow> e_phoff (kmem s) hdr;
       phentsize \<leftarrow> e_phentsize (kmem s) hdr;
       s \<leftarrow> set_offset fp (phoff + i * ucast phentsize) s;
       (_, s) \<leftarrow> vfs_read calls fp phdr SIZEOF_ELF_PHDR s;
       ty \<leftarrow> p_type (kmem s) phdr;
       if ty = ELF_PT_LOAD then do {
         (result, s) \<leftarrow> elf_load_seg calls vm fp dir phdr s;
         if result = -1 then Some (-1, s)
         else elf_load_loop calls vm fp dir hdr phdr (i + 1) s
       } else elf_load_loop calls vm fp dir hdr phdr (i + 1) s
     } else Some (0, s)
   }"
  by pat_completeness auto
termination
  by (relation "measure (\<lambda>(calls, vm, fp, dir, hdr, phdr, i, s). 0x10000 - unat i)")
    (auto intro: load_loop_dec)

declare elf_load_loop.simps [simp del]

record elf_env =
  ee_slash :: ptr
  ee_hdr :: ptr
  ee_phdr :: ptr

definition elf_load ::
  "'z vfsst_scheme fs_calls \<Rightarrow> 'z vfsst_scheme vmm \<Rightarrow> allocator \<Rightarrow> elf_env \<Rightarrow> ptr \<Rightarrow> ptr \<Rightarrow> ptr \<Rightarrow>
   'z vfsst_scheme \<Rightarrow> (u32 \<times> 'z vfsst_scheme) option" where
  "elf_load calls vm alloc ee path dir entry s =
     (if path = NULL \<or> dir = NULL \<or> entry = NULL then Some (-1, s)
      else do {
        (thisfile, s) \<leftarrow> vfs_open calls alloc (ee_slash ee) path 0 s;
        if thisfile = NULL then Some (-1, s)
        else do {
          (n, s) \<leftarrow> vfs_read calls thisfile (ee_hdr ee) SIZEOF_ELF_HEADER s;
          if n \<noteq> SIZEOF_ELF_HEADER then Some (-1, s)
          else do {
            ok \<leftarrow> elf_check_hdr (kmem s) (ee_hdr ee);
            if \<not> ok then Some (-1, s)
            else do {
              (r, s) \<leftarrow> elf_load_loop calls vm thisfile dir (ee_hdr ee) (ee_phdr ee) 0 s;
              if r \<noteq> 0 then Some (-1, s)
              else do {
                e \<leftarrow> e_entry (kmem s) (ee_hdr ee);
                m \<leftarrow> st32 (kmem s) entry e;
                Some (0, s\<lparr>kmem := m\<rparr>)
              }
            }
          }
        }
      })"

end
