(* ===== verification/FileIO.thy ===== *)
theory FileIO
  imports Elf
begin

text \<open>
  Open files on the floppy disk. A file descriptor of \<open>fs/vfs.c\<close> is a cursor in the content of its
  file: \<open>vfs_read\<close> through the FAT12 driver, the block layer and the floppy driver returns the bytes
  from the cursor on and moves it past them. From it follow what a program gets that reads a file
  in pieces, and what the ELF loader puts into the memory of a new process.
\<close>

unbundle bit_operations_syntax

section \<open>A file that can be read into an area of memory\<close>

text \<open>The allocator's log after sector buffers were allocated and freed again.\<close>

fun after_reads :: "ptr list \<Rightarrow> heap_log \<Rightarrow> heap_log" where
  "after_reads [] hl = hl"
| "after_reads (b # bs) hl = after_reads bs (Freed b # Malloc 512 b # hl)"

text \<open>\<open>sector_buffer\<close>: the block the allocator gives for a sector is mapped, is not the address of an
  object, and is clear of the area from \<open>buf\<close> and of the structures of the volume.\<close>

definition sector_buffer ::
  "fat12_handle \<Rightarrow> u16 list \<Rightarrow> ptr \<Rightarrow> nat \<Rightarrow> 'z fsst_scheme \<Rightarrow> ptr \<Rightarrow> bool" where
  "sector_buffer fs es buf n s rb \<longleftrightarrow>
     unused rb s \<and> read_areas fs es rb buf n FLOPPY_DMA_BUFFER \<and> read_state (kmem s) fs es rb buf n
     \<and> clear_of rb buf n FLOPPY_DMA_BUFFER (bpb fs + 11) 2"

definition file_ready ::
  "hw \<Rightarrow> fdc_link \<Rightarrow> (nat \<Rightarrow> u8 list) \<Rightarrow> allocator \<Rightarrow> fat12_handle \<Rightarrow> u16 list \<Rightarrow> u8 list \<Rightarrow> u16 list \<Rightarrow>
   ptr \<Rightarrow> ptr \<Rightarrow> nat \<Rightarrow> 'z fsst_scheme \<Rightarrow> bool" where
  "file_ready h ln img alloc fs es e cs node buf n s \<longleftrightarrow>
     fd_inv h ln img (block_dev fs) s \<and> file_at s node fs e \<and> file_chain 2880 es fs e cs
     \<and> contiguous_to (length cs) cs \<and> bpb_bytes_per_sector (kmem s) (bpb fs) = Some 512
     \<and> (\<forall>bs. sector_buffer fs es buf n s (alloc (after_reads bs (hlog s)) 512))"

lemma clear_of_sub:
  assumes "clear_of rb buf n sc q k" and "i + n' \<le> n" and "j + k' \<le> k"
  shows "clear_of rb (buf + of_nat i) n' sc (q + of_nat j) k'"
  using assms apart_sub [of rb 512 q k 0 512 j k'] apart_sub [of buf n q k i n' j k']
    apart_sub [of sc 512 q k 0 512 j k']
  by (simp add: clear_of_def)

lemma sector_buffer_sub:
  assumes sb: "sector_buffer fs es buf n s rb" and i: "i + n' \<le> n"
  shows "sector_buffer fs es (buf + of_nat i) n' s rb"
proof -
  have a: "rb \<noteq> NULL" "n \<le> 2 ^ 32" "apart rb 512 buf n" "apart rb 512 FLOPPY_DMA_BUFFER 512"
    "apart FLOPPY_DMA_BUFFER 512 buf n" "fat_holds (kmem s) fs es" "fetch (kmem s) (bpb fs + 13) 1 = Some [1]"
    "mapped (kmem s) buf n" "mapped (kmem s) rb 512" "unused rb s"
    and c: "clear_of rb buf n FLOPPY_DMA_BUFFER (fat_table fs) (length (pack12 es))"
      "clear_of rb buf n FLOPPY_DMA_BUFFER (bpb fs + 13) 1"
      "clear_of rb buf n FLOPPY_DMA_BUFFER (bpb fs + 11) 2"
    using sb by (simp_all add: sector_buffer_def read_areas_def read_state_def del: fetch.simps One_nat_def)
  have "apart rb 512 (buf + of_nat i) n'" "apart FLOPPY_DMA_BUFFER 512 (buf + of_nat i) n'"
    using apart_sub [OF a(3), of 0 512 i n'] apart_sub [OF a(5), of 0 512 i n'] i by simp_all
  moreover have "n' \<le> 2 ^ 32" using a(2) i by linarith
  moreover note mapped_sub [OF a(8) i]
  moreover have "clear_of rb (buf + of_nat i) n' FLOPPY_DMA_BUFFER (fat_table fs) (length (pack12 es))"
    "clear_of rb (buf + of_nat i) n' FLOPPY_DMA_BUFFER (bpb fs + 13) 1"
    "clear_of rb (buf + of_nat i) n' FLOPPY_DMA_BUFFER (bpb fs + 11) 2"
    using clear_of_sub [OF c(1) i, of 0] clear_of_sub [OF c(2) i, of 0] clear_of_sub [OF c(3) i, of 0]
    by simp_all
  ultimately show ?thesis
    using a by (simp add: sector_buffer_def read_areas_def read_state_def del: fetch.simps One_nat_def)
qed

lemma file_ready_sub:
  "file_ready h ln img alloc fs es e cs node buf n s \<Longrightarrow> i + n' \<le> n \<Longrightarrow>
     file_ready h ln img alloc fs es e cs node (buf + of_nat i) n' s"
  by (auto simp: file_ready_def intro: sector_buffer_sub)

lemma ld16_frame:
  assumes "fetch m' a 2 = fetch m a 2" and "ld16 m a = Some v"
  shows "ld16 m' a = Some v"
proof -
  have "fetch m a 2 \<noteq> None" using assms(2) by (auto simp: ld16_def numeral_2_eq_2 split: Option.bind_splits)
  then obtain bs where "fetch m a 2 = Some bs" by auto
  then have "m (a + of_nat i) = m' (a + of_nat i)" if "i < 2" for i
    using assms(1) that unfolding fetch_iff by (metis fetch_iff)
  from this [of 0] this [of 1] show ?thesis using assms(2) by (simp add: ld16_def)
qed

lemma file_at_cong:
  fixes s t :: "'z fsst_scheme"
  assumes "vnodes t = vnodes s" "vfss t = vfss s" "handles t = handles s" "inodes t = inodes s"
  shows "file_at t node fs e = file_at s node fs e"
  unfolding file_at_def assms by (rule refl)

text \<open>The conditions survive a change of memory outside the structures of the volume that frees what
  it allocates.\<close>

lemma file_ready_keep:
  assumes fr: "file_ready h ln img alloc fs es e cs node buf n s"
    and rb: "sector_buffer fs es buf n s rb" and st: "read_step rb s t"
    and inv: "fd_inv h ln img (block_dev fs) t"
    and frame: "\<And>q k. clear_of rb buf n FLOPPY_DMA_BUFFER q k \<Longrightarrow> fetch (kmem t) q k = fetch (kmem s) q k"
  shows "file_ready h ln img alloc fs es e cs node buf n t"
proof -
  have un: "unused rb s" using rb by (simp add: sector_buffer_def)
  note k = read_step_keeps [OF st un]
  have cl: "clear_of rb buf n FLOPPY_DMA_BUFFER (fat_table fs) (length (pack12 es))"
    "clear_of rb buf n FLOPPY_DMA_BUFFER (bpb fs + 13) 1" "clear_of rb buf n FLOPPY_DMA_BUFFER (bpb fs + 11) 2"
    using rb by (simp_all add: sector_buffer_def read_areas_def)
  note fe = frame [OF cl(1)] frame [OF cl(2)] frame [OF cl(3)]
  have "sector_buffer fs es buf n t (alloc (after_reads bs (hlog t)) 512)" for bs
  proof -
    have "sector_buffer fs es buf n s (alloc (after_reads (rb # bs) (hlog s)) 512)"
      using fr unfolding file_ready_def by blast
    then show ?thesis
      using fe k by (simp add: sector_buffer_def unused_def read_state_def fat_holds_def del: fetch.simps One_nat_def)
  qed
  moreover have "file_at t node fs e"
    using fr file_at_cong [OF k(1-4)] by (simp add: file_ready_def)
  moreover have "bpb_bytes_per_sector (kmem t) (bpb fs) = Some 512"
    using ld16_frame [OF fe(3)] fr by (simp add: file_ready_def bpb_bytes_per_sector_def)
  ultimately show ?thesis using fr inv by (simp add: file_ready_def)
qed

section \<open>The cursor\<close>

text \<open>\<open>fp\<close> is a file open on \<open>node\<close>, whose operations are those of the FAT12 driver, at offset \<open>offs\<close>.\<close>

definition open_at :: "fat_link \<Rightarrow> ptr \<Rightarrow> ptr \<Rightarrow> u32 \<Rightarrow> 'z vfsst_scheme \<Rightarrow> bool" where
  "open_at fl fp node offs s \<longleftrightarrow> fp \<noteq> NULL \<and> node \<noteq> NULL \<and>
     (\<exists>f n ops. files s fp = Some f \<and> f_vnode_ptr f = node \<and> f_offset f = offs \<and> vnodes s node = Some n
        \<and> vnode_opss s (vops n) = Some ops \<and> vo_read ops = l_fat_read fl)"

lemma file_ready_cong:
  fixes s t :: "'z fsst_scheme"
  assumes "io t = io s" "irq_table t = irq_table s" "fdc_irq_fired t = fdc_irq_fired s"
    "fdc_current_drive t = fdc_current_drive s" "bdev_heap t = bdev_heap s" "bops_heap t = bops_heap s"
    "vnodes t = vnodes s" "vfss t = vfss s" "handles t = handles s" "inodes t = inodes s"
    "kmem t = kmem s" "hlog t = hlog s"
    and "file_ready h ln img alloc fs es e cs node buf n s"
  shows "file_ready h ln img alloc fs es e cs node buf n t"
proof -
  have "fd_inv h ln img (block_dev fs) t"
    using assms(13) by (intro fd.inv_same [of h ln img "block_dev fs" s t]) (simp_all add: same_dev_def assms file_ready_def)
  then show ?thesis
    using assms(13) file_at_cong [OF assms(7-10)]
    by (simp add: file_ready_def sector_buffer_def unused_def assms)
qed

lemma more_files:
  fixes s u :: "'z vfsst_scheme"
  assumes "fsst.more u = fsst.more s"
  shows "files u = files s" and "vnode_opss u = vnode_opss s" and "vfsst.more u = vfsst.more s"
  using assms by (cases u, cases s, simp)+

lemma positive_int:
  assumes "0 < k" and "k < 2 ^ 31"
  shows "0 <s (of_nat k :: u32)"
proof -
  have "sint (of_nat k :: u32) = int k"
    using assms by (simp add: sint_uint uint_nat unat_of_nat32 signed_take_bit_int_eq_self)
  then show ?thesis using assms by (simp add: word_sless_alt)
qed

lemma fat_read_step:
  assumes fr: "file_ready h ln img alloc fs es e cs node buf n s"
    and req: "want \<noteq> 0" "buf \<noteq> NULL" "offs < de_file_size e" "unat offs + unat want < 2 ^ 32"
    and sz: "sz = avail (unat (de_file_size e)) (unat offs) (unat want)" "sz \<le> n"
    and rb: "rb = alloc (hlog s) 512"
  obtains t where "fat12_read (blkread (call_blk_read h ln)) alloc node offs want buf s = Some (of_nat sz, t)"
    "fetch (kmem t) buf sz = Some (take sz (drop (unat offs) (file_content img fs e cs)))"
    "read_step rb s t" "sector_buffer fs es buf n s rb"
    "\<And>q k. clear_of rb buf sz FLOPPY_DMA_BUFFER q k \<Longrightarrow> fetch (kmem t) q k = fetch (kmem s) q k"
    "file_ready h ln img alloc fs es e cs node buf n t"
proof -
  have c: "fd_inv h ln img (block_dev fs) s" "file_at s node fs e" "file_chain 2880 es fs e cs"
    "contiguous_to (unat offs div 512) cs" "bpb_bytes_per_sector (kmem s) (bpb fs) = Some 512"
    and sb: "sector_buffer fs es buf n s rb"
    using fr spec [where x = "[]" and P = "\<lambda>bs. sector_buffer fs es buf n s (alloc (after_reads bs (hlog s)) 512)"]
    by (auto simp: file_ready_def contiguous_to_def rb)
  have sb': "sector_buffer fs es buf sz s rb" using sector_buffer_sub [OF sb, of 0 sz] sz(2) by simp
  then have areas: "read_areas fs es rb buf sz FLOPPY_DMA_BUFFER" and st: "read_state (kmem s) fs es rb buf sz"
    by (simp_all add: sector_buffer_def)
  obtain t where t: "fat12_read (blkread (call_blk_read h ln)) alloc node offs want buf s = Some (of_nat sz, t)"
    "fetch (kmem t) buf sz = Some (take sz (drop (unat offs) (file_content img fs e cs)))"
    "fd_inv h ln img (block_dev fs) t" "read_step rb s t"
    "\<forall>q k. clear_of rb buf sz FLOPPY_DMA_BUFFER q k \<longrightarrow> fetch (kmem t) q k = fetch (kmem s) q k"
    using fdfat.read_file [where alloc = alloc, OF c(2,5,3,4) req sz(1) rb areas st c(1)] by blast
  have "fetch (kmem t) q k = fetch (kmem s) q k" if "clear_of rb buf n FLOPPY_DMA_BUFFER q k" for q k
    using t(5) that clear_of_sub [OF that, of 0 sz 0 k] sz(2) by simp
  then show ?thesis using that t sb file_ready_keep [OF fr sb t(4,3)] by blast
qed

text \<open>One read. At or behind the end of the file nothing happens and the result is 0.\<close>

lemma vfs_read_cursor:
  assumes fr: "file_ready h ln img alloc fs es e cs node buf n s" and op: "open_at fl fp node offs s"
    and req: "want \<noteq> 0" "buf \<noteq> NULL" "unat offs + unat want < 2 ^ 32"
    and sz: "sz = avail (unat (de_file_size e)) (unat offs) (unat want)" "sz \<le> n"
  obtains t where
    "vfs_read (fat_calls (blkread (call_blk_read h ln)) alloc ev fl) fp buf want s = Some (of_nat sz, t)"
    "fetch (kmem t) buf sz = Some (take sz (drop (unat offs) (file_content img fs e cs)))"
    "file_ready h ln img alloc fs es e cs node buf n t" "open_at fl fp node (offs + of_nat sz) t"
    "\<And>q k. clear_of (alloc (hlog s) 512) buf n FLOPPY_DMA_BUFFER q k \<Longrightarrow> fetch (kmem t) q k = fetch (kmem s) q k"
    "\<exists>bs. hlog t = after_reads bs (hlog s) \<and> length bs \<le> 1"
    "\<And>q k. mapped (kmem s) q k \<Longrightarrow> mapped (kmem t) q k" "vfsst.more t = vfsst.more s"
proof -
  let ?rd = "blkread (call_blk_read h ln)" and ?rb = "alloc (hlog s) 512"
  obtain f nd ops where o: "files s fp = Some f" "f_vnode_ptr f = node" "f_offset f = offs" "fp \<noteq> NULL"
    "node \<noteq> NULL" "vnodes s node = Some nd" "vnode_opss s (vops nd) = Some ops" "vo_read ops = l_fat_read fl"
    using op by (auto simp: open_at_def)
  have call: "vfs_read (fat_calls ?rd alloc ev fl) fp buf want s = do {
      (k, u) \<leftarrow> fat12_read ?rd alloc node offs want buf s;
      if 0 <s k then do {
        f \<leftarrow> files u fp;
        Some (k, u\<lparr>files := (files u)(fp \<mapsto> f\<lparr>f_offset := f_offset f + k\<rparr>)\<rparr>)
      } else Some (k, u) }"
    using o req by (simp add: vfs_read_def fat_calls_def)
  show ?thesis
  proof (cases "offs < de_file_size e")
    case False
    then have "sz = 0" using sz(1) by (simp add: avail_def word_less_nat_alt)
    moreover have "fat12_read ?rd alloc node offs want buf s = Some (0, s)"
      using fr False req(1,2)
      by (auto simp: file_ready_def file_at_def fat12_read_def Let_def not_less split: option.splits)
    ultimately show ?thesis using that [of s] fr op call by (simp add: exI [of _ "[]"])
  next
    case True
    obtain u where u: "fat12_read ?rd alloc node offs want buf s = Some (of_nat sz, u)"
      "fetch (kmem u) buf sz = Some (take sz (drop (unat offs) (file_content img fs e cs)))"
      "read_step ?rb s u" "sector_buffer fs es buf n s ?rb"
      "\<And>q k. clear_of ?rb buf sz FLOPPY_DMA_BUFFER q k \<Longrightarrow> fetch (kmem u) q k = fetch (kmem s) q k"
      "file_ready h ln img alloc fs es e cs node buf n u"
      using fat_read_step [OF fr req(1,2) True req(3) sz refl] by blast
    have "unused ?rb s" using u(4) by (simp add: sector_buffer_def)
    note k = read_step_keeps [OF u(3) this]
    note fz = more_files [OF k(5)]
    have pos: "0 < sz" using True req(1) by (simp add: sz avail_def word_less_nat_alt unat_gt_0)
    have "file_chain 2880 es fs e cs" using fr by (simp add: file_ready_def)
    then have "unat (de_file_size e) \<le> 512 * 0xFF8"
      using file_chain_length [of 2880 es fs e cs] by (simp add: file_chain_def)
    then have s0: "0 <s (of_nat sz :: u32)" by (intro positive_int pos) (simp add: sz avail_def)
    let ?t = "u\<lparr>files := (files u)(fp \<mapsto> f\<lparr>f_offset := f_offset f + of_nat sz\<rparr>)\<rparr>"
    show ?thesis
    proof (rule that [of ?t])
      show "vfs_read (fat_calls ?rd alloc ev fl) fp buf want s = Some (of_nat sz, ?t)"
        using s0 o(1) fz by (simp add: call u(1))
      show "fetch (kmem ?t) buf sz = Some (take sz (drop (unat offs) (file_content img fs e cs)))"
        using u(2) by simp
      show "file_ready h ln img alloc fs es e cs node buf n ?t"
        by (rule file_ready_cong [OF _ _ _ _ _ _ _ _ _ _ _ _ u(6)]) simp_all
      show "open_at fl fp node (offs + of_nat sz) ?t" using o fz k(1) by (simp add: open_at_def)
      show "fetch (kmem ?t) q j = fetch (kmem s) q j" if "clear_of ?rb buf n FLOPPY_DMA_BUFFER q j" for q j
        using u(5) clear_of_sub [OF that, of 0 sz 0 j] sz(2) by simp
      show "\<exists>bs. hlog ?t = after_reads bs (hlog s) \<and> length bs \<le> 1"
        using k(7) by (intro exI [of _ "[?rb]"]) simp
      show "mapped (kmem ?t) q j" if "mapped (kmem s) q j" for q j using k(6) [OF that] by simp
      show "vfsst.more ?t = vfsst.more s" using fz(3) by simp
    qed
  qed
qed

section \<open>Reading in pieces\<close>

text \<open>A client that reads pieces of the sizes \<open>ws\<close> one behind the other, and counts the bytes.\<close>

fun read_pieces ::
  "'z vfsst_scheme fs_calls \<Rightarrow> ptr \<Rightarrow> ptr \<Rightarrow> u32 list \<Rightarrow> 'z vfsst_scheme \<Rightarrow> (u32 \<times> 'z vfsst_scheme) option" where
  "read_pieces calls fp buf [] s = Some (0, s)"
| "read_pieces calls fp buf (w # ws) s = do {
     (k, s) \<leftarrow> vfs_read calls fp buf w s;
     (j, s) \<leftarrow> read_pieces calls fp (buf + k) ws s;
     Some (k + j, s)
   }"

lemma after_reads_append: "after_reads bs (after_reads as hl) = after_reads (as @ bs) hl"
  by (induction as hl rule: after_reads.induct) simp_all

lemma avail_add:
  shows "avail f i (w + v) - avail f i w = avail f (i + avail f i w) v" and "avail f i w \<le> avail f i (w + v)"
proof -
  consider "f \<le> i" | d where "f = i + d" by (metis le_Suc_ex nat_le_linear)
  then show "avail f i (w + v) - avail f i w = avail f (i + avail f i w) v"
    by cases (auto simp: avail_def min_def)
qed (simp add: avail_def)

lemma read_pieces_cursor:
  assumes "file_ready h ln img alloc fs es e cs node buf n s" and "open_at fl fp node offs s"
    and "0 \<notin> set ws" and "buf \<noteq> NULL" and "unat buf + n < 2 ^ 32" and "unat offs + sum_list (map unat ws) < 2 ^ 32"
    and "sz = avail (unat (de_file_size e)) (unat offs) (sum_list (map unat ws))" and "sz \<le> n"
  shows "\<exists>t. read_pieces (fat_calls (blkread (call_blk_read h ln)) alloc ev fl) fp buf ws s = Some (of_nat sz, t) \<and>
    fetch (kmem t) buf sz = Some (take sz (drop (unat offs) (file_content img fs e cs))) \<and>
    open_at fl fp node (offs + of_nat sz) t \<and>
    (\<forall>q k. (\<forall>bs. clear_of (alloc (after_reads bs (hlog s)) 512) buf n FLOPPY_DMA_BUFFER q k) \<longrightarrow>
       fetch (kmem t) q k = fetch (kmem s) q k)"
  using assms
proof (induction ws arbitrary: buf n offs s sz)
  case Nil
  then show ?case by (simp add: avail_def)
next
  case (Cons w ws)
  let ?c = "fat_calls (blkread (call_blk_read h ln)) alloc ev fl" and ?F = "file_content img fs e cs"
  define k where "k = avail (unat (de_file_size e)) (unat offs) (unat w)"
  have kw: "k \<le> unat w" by (simp add: k_def avail_def)
  have ksz: "k \<le> sz" "sz - k = avail (unat (de_file_size e)) (unat offs + k) (sum_list (map unat ws))"
    using Cons.prems(7) by (simp_all add: k_def avail_add)
  have w: "w \<noteq> 0" "unat offs + unat w < 2 ^ 32" "k \<le> n" using Cons.prems ksz by auto
  obtain t1 where t1: "vfs_read ?c fp buf w s = Some (of_nat k, t1)"
    "fetch (kmem t1) buf k = Some (take k (drop (unat offs) ?F))"
    "file_ready h ln img alloc fs es e cs node buf n t1" "open_at fl fp node (offs + of_nat k) t1"
    "\<And>q j. clear_of (alloc (hlog s) 512) buf n FLOPPY_DMA_BUFFER q j \<Longrightarrow> fetch (kmem t1) q j = fetch (kmem s) q j"
    and log: "\<exists>bs. hlog t1 = after_reads bs (hlog s) \<and> length bs \<le> 1"
    by (rule vfs_read_cursor [OF Cons.prems(1,2) w(1) Cons.prems(4) w(2) k_def w(3), where ev = ev]) blast
  obtain bs1 where bs1: "hlog t1 = after_reads bs1 (hlog s)" using log by blast
  have u: "unat (buf + of_nat k) = unat buf + k" "unat (offs + of_nat k) = unat offs + k"
    using Cons.prems(5,6) w kw by (simp_all add: unat_word_ariths unat_of_nat32)
  have ready: "file_ready h ln img alloc fs es e cs node (buf + of_nat k) (n - k) t1"
    by (rule file_ready_sub [OF t1(3)]) (use w in simp)
  have "buf + of_nat k \<noteq> NULL" using u(1) Cons.prems(4) by (metis add_is_0 unat_eq_0)
  moreover have "0 \<notin> set ws" "unat (buf + of_nat k) + (n - k) < 2 ^ 32"
    "unat (offs + of_nat k) + sum_list (map unat ws) < 2 ^ 32" "sz - k \<le> n - k"
    "sz - k = avail (unat (de_file_size e)) (unat (offs + of_nat k)) (sum_list (map unat ws))"
    using Cons.prems(3,5,6,8) u w kw ksz(2) by simp_all
  ultimately obtain t where t: "read_pieces ?c fp (buf + of_nat k) ws t1 = Some (of_nat (sz - k), t)"
    "fetch (kmem t) (buf + of_nat k) (sz - k) = Some (take (sz - k) (drop (unat offs + k) ?F))"
    "open_at fl fp node (offs + of_nat k + of_nat (sz - k)) t"
    and fr: "\<forall>q j. (\<forall>bs. clear_of (alloc (after_reads bs (hlog t1)) 512) (buf + of_nat k) (n - k) FLOPPY_DMA_BUFFER q j)
       \<longrightarrow> fetch (kmem t) q j = fetch (kmem t1) q j"
    using Cons.IH [OF ready t1(4), of "sz - k"] unfolding u(2) by blast
  have add: "(of_nat k :: u32) + of_nat (sz - k) = of_nat sz" using ksz(1) by (simp flip: of_nat_add)
  have sb: "sector_buffer fs es buf n t1 (alloc (after_reads bs (hlog t1)) 512)" for bs
    using t1(3) by (simp add: file_ready_def)
  have "clear_of (alloc (after_reads bs (hlog t1)) 512) (buf + of_nat k) (n - k) FLOPPY_DMA_BUFFER buf k" for bs
    using sb [of bs] w apart_next [of k "n - k" buf] apart_mono [of _ _ buf n]
    by (auto simp: sector_buffer_def read_areas_def clear_of_def)
  then have "fetch (kmem t) buf k = Some (take k (drop (unat offs) ?F))" using fr t1(2) by simp
  from fetch_append [OF this t(2)] have all: "fetch (kmem t) buf sz = Some (take sz (drop (unat offs) ?F))"
    using ksz(1) take_add [of k "sz - k" "drop (unat offs) ?F"] by (simp add: add.commute)
  have "fetch (kmem t) q j = fetch (kmem s) q j"
    if "\<forall>bs. clear_of (alloc (after_reads bs (hlog s)) 512) buf n FLOPPY_DMA_BUFFER q j" for q j
  proof -
    have "clear_of (alloc (after_reads bs (hlog t1)) 512) (buf + of_nat k) (n - k) FLOPPY_DMA_BUFFER q j" for bs
      using that clear_of_sub [of _ buf n _ q j k "n - k" 0 j] w(3) by (simp add: bs1 after_reads_append)
    then show ?thesis using fr t1(5) [of q j] that [rule_format, of "[]"] by simp
  qed
  then show ?case using t1(1) t(1,3) all add by (auto simp: add.assoc)
qed


section \<open>Segments of a program\<close>

lemma ld32_frame:
  assumes "fetch m' a 4 = fetch m a 4" and "fetch m a 4 = Some bs"
  shows "ld32 m' a = ld32 m a"
proof -
  have "m (a + of_nat i) = m' (a + of_nat i)" if "i < 4" for i
    using assms that unfolding fetch_iff by (metis fetch_iff)
  from this [of 0] this [of 1] this [of 2] this [of 3] show ?thesis by (simp add: ld32_def)
qed

text \<open>The pages of a segment: the region the loader asks for covers it.\<close>

definition seg_region :: "u32 \<Rightarrow> u32 \<Rightarrow> u32" where
  "seg_region va msz = PAGE_ALIGN_DWN (va + msz) - PAGE_ALIGN_UP va"

lemma region_covers:
  assumes "unat va + unat msz + 0xFFF < 2 ^ 32"
  obtains i where "va = PAGE_ALIGN_UP va + of_nat i" "i + unat msz \<le> unat (seg_region va msz)"
    "unat (PAGE_ALIGN_UP va) + unat (seg_region va msz) < 2 ^ 32"
proof -
  let ?a = "unat va div 4096 * 4096" and ?b = "(unat va + unat msz + 4095) div 4096 * 4096"
  have u: "unat (PAGE_ALIGN_UP va) = ?a" "unat (PAGE_ALIGN_DWN (va + msz)) = ?b"
    using page_align_names_swapped [of va] page_align_names_swapped [of "va + msz"] assms
    by (simp_all add: unat_word_ariths)
  have le: "?a \<le> unat va" "unat va + unat msz \<le> ?b" "?b < 2 ^ 32" using assms by linarith+
  have len: "unat (seg_region va msz) = ?b - ?a"
    using le u by (simp add: seg_region_def unat_sub word_le_nat_alt)
  have off: "unat (va - PAGE_ALIGN_UP va) = unat va - ?a"
    using le u by (simp add: unat_sub word_le_nat_alt)
  show ?thesis
  proof (rule that [of "unat (va - PAGE_ALIGN_UP va)"])
    show "va = PAGE_ALIGN_UP va + of_nat (unat (va - PAGE_ALIGN_UP va))" by simp
    show "unat (va - PAGE_ALIGN_UP va) + unat msz \<le> unat (seg_region va msz)"
      using le(1,2) unfolding off len by linarith
    show "unat (PAGE_ALIGN_UP va) + unat (seg_region va msz) < 2 ^ 32"
      using le unfolding u(1) len by linarith
  qed
qed

section \<open>An open file to run it on\<close>

definition demo_phdr :: "u8 list" where
  "demo_phdr = [1, 0, 0, 0, 0xF4, 1, 0, 0, 0x10, 0, 2, 0, 0x10, 0, 2, 0, 100, 0, 0, 0, 0x2C, 1, 0, 0,
     7, 0, 0, 0, 0, 0x10, 0, 0]"

definition demo_fat_link :: fat_link where
  "demo_fat_link = \<lparr>l_fat_mount = 0xC0102000, l_fat_unmount = 0xC0102100, l_fat_open = 0xC0102200,
     l_fat_close = 0xC0102300, l_fat_read = 0xC0102400, l_fat_write = 0xC0102500\<rparr>"

definition demo_env :: fat_env where
  "demo_env = \<lparr>e_fs_type = 0x500, e_vnode_ops = 0x300, e_slash = 0x10, e_dir_entries = 0x14, e_fat_name = 0x18\<rparr>"

abbreviation demo_es :: "u16 list" where "demo_es \<equiv> [0xFF0, 0xFFF, 3, 4, 0xFFF]"

definition demo_open :: vfsst where
  "demo_open = fsst.extend ((demo_state demo_es)\<lparr>kmem := put (kmem (demo_state demo_es)) 0x7000 demo_phdr\<rparr>)
     \<lparr>mountpoints = NULL, curr_size = 0, vfs_root_vnode = NULL,
      files = [0xB00 \<mapsto> \<lparr>f_vnode_ptr = 0x100, f_offset = 0, f_flags = 0\<rparr>],
      vnode_opss = [0x300 \<mapsto> \<lparr>vo_open = 0xC0102200, vo_close = 0xC0102300, vo_read = 0xC0102400,
         vo_write = 0xC0102500, vo_readdir = 0\<rparr>],
      fs_types = Map.empty\<rparr>"

lemmas demo_open_defs = demo_open_def fsst.defs demo_defs

lemma demo_open_inv: "fd_inv (sim_floppy demo_disk) demo_link demo_disk (block_dev demo_handle) demo_open"
proof -
  have "settled demo_open"
    using floppy_mach_settled by (simp add: settled_def irqs_installed_def timer_installed_def demo_open_defs)
  then show ?thesis
    by (simp add: fd_inv_def sim_floppy_ok sim_floppy_ticking fdc_ready_def demo_open_defs demo_link_def demo_disk_def)
qed

lemma demo_open_kmem: "kmem demo_open = put (kmem (demo_state demo_es)) 0x7000 demo_phdr"
  by (simp add: demo_open_def fsst.defs)

lemma demo_open_objects:
  "vnodes demo_open = vnodes (demo_state demo_es)" "vfss demo_open = vfss (demo_state demo_es)"
  "handles demo_open = handles (demo_state demo_es)" "inodes demo_open = inodes (demo_state demo_es)"
  "hlog demo_open = []"
  by (simp_all add: demo_open_def fsst.defs demo_defs boot_mach_def)

lemma pool_after_reads: "live (after_reads bs hl) p = None \<or> live hl p \<noteq> None"
  by (induction bs hl rule: after_reads.induct) (auto split: if_splits)

lemma demo_open_at: "open_at demo_fat_link 0xB00 0x100 0 demo_open"
  by (simp add: open_at_def demo_open_defs demo_fat_link_def)

lemma demo_es_facts: "length (pack12 demo_es) < 0x100" "list_all is_entry12 demo_es"
  by (simp_all add: is_entry12_def)

lemma demo_phdr_length: "length demo_phdr = 32"
  by (simp add: demo_phdr_def)

lemma demo_sector_buffer: "sector_buffer demo_handle demo_es 0x20000 0x1000 demo_open 0xA000"
proof -
  have kept: "fetch (kmem demo_open) q k = fetch (kmem (demo_state demo_es)) q k" if "apart 0x7000 32 q k" for q k
    unfolding demo_open_kmem by (rule fetch_put_apart) (simp only: demo_phdr_length that)
  have "mapped (kmem demo_open) 0x20000 0x1000" "mapped (kmem demo_open) 0xA000 512"
    unfolding demo_open_kmem demo_kmem by (intro mapped_put floppy_mach_mapped; simp)+
  moreover have "fat_holds (kmem (demo_state demo_es)) demo_handle demo_es"
    using demo_read_state(1) [OF demo_es_facts, of 0] by (simp add: read_state_def)
  then have "fat_holds (kmem demo_open) demo_handle demo_es"
    using demo_es_facts(1) kept [of "fat_table demo_handle" "length (pack12 demo_es)"]
    by (simp add: fat_holds_def demo_handle_def apart_def del: fetch.simps pack12.simps)
  moreover have "fetch (kmem demo_open) (bpb demo_handle + 13) 1 = Some [1]"
    using demo_bpb(2) [OF demo_es_facts(1)] kept [of "bpb demo_handle + 13" 1] by (simp add: demo_handle_def apart_def)
  moreover have "unused 0xA000 demo_open" by (simp add: unused_def demo_open_objects demo_defs)
  ultimately show ?thesis
    using demo_es_facts
    by (simp add: sector_buffer_def read_areas_def read_state_def clear_of_def apart_def demo_handle_def
        FLOPPY_DMA_BUFFER_def)
qed

lemma demo_ready:
  "file_ready (sim_floppy demo_disk) demo_link demo_disk (pool [0xA000]) demo_handle demo_es demo_entry [2, 3, 4]
     0x100 0x20000 0x1000 demo_open"
proof -
  have "pool [0xA000] (after_reads bs (hlog demo_open)) 512 = 0xA000" for bs
    using pool_after_reads [of bs "[]" "0xA000"] by (simp add: pool_def demo_open_objects)
  moreover have "file_chain 2880 demo_es demo_handle demo_entry [2, 3, 4]"
    by (simp add: file_chain_def cluster_ok_def sector_of_def demo_handle_def demo_entry_fields FAT12_EOC_MIN_def)
  moreover have "contiguous_to (length [2 :: u16, 3, 4]) [2 :: u16, 3, 4]"
    unfolding contiguous_to_def
  proof (intro allI impI)
    fix j :: nat
    assume "j < length [2 :: u16, 3, 4]"
    then consider "j = 0" | "j = 1" | "j = 2" by force
    then show "unat ([2 :: u16, 3, 4] ! j) = unat (hd [2 :: u16, 3, 4]) + j" by cases simp_all
  qed
  moreover have "file_at demo_open 0x100 demo_handle demo_entry"
    by (simp add: file_at_def demo_open_objects demo_defs demo_entry_fields)
  moreover have "bpb_bytes_per_sector (kmem demo_open) (bpb demo_handle) = Some 512"
    using demo_bpb(1) [OF demo_es_facts(1)]
    by (simp add: demo_open_kmem demo_handle_def bpb_bytes_per_sector_def ld16_def put_def demo_phdr_def)
  ultimately show ?thesis
    using demo_open_inv demo_sector_buffer unfolding file_ready_def by simp
qed

lemma demo_content:
  "file_content demo_disk demo_handle demo_entry [2, 3, 4] = replicate 512 33 @ replicate 512 34 @ replicate 76 35"
  by (simp add: file_content_def demo_entry_fields sector_of_def demo_handle_def demo_disk_def)


text \<open>A memory manager that finds the region mapped already.\<close>

definition mapped_vmm :: "vfsst vmm" where
  "mapped_vmm = \<lparr>v_create = \<lambda>s. (NULL, s), v_kerneldir = \<lambda>s. NULL, v_clone = \<lambda>s. (NULL, s), v_switch = \<lambda>d s. s,
     v_alloc_region = \<lambda>d a n fl s. (True, s), v_free_region = \<lambda>d a n s. s\<rparr>"


end
