(* ===== verification/Sched.thy ===== *)
theory Sched
  imports Elf Descriptors
begin

text \<open>
  Processes, threads and the scheduler, \<open>proc/process.c\<close> on the structures of
  \<open>include/proc/process.h\<close>: the state, and the operations on the ready queues. Processes and
  threads are records in typed heaps; the ready queues are the code's two arrays of heads and tails,
  linked through the field \<open>next_ready\<close>. The name of a process and the saved registers of a
  thread are bytes in memory. \<open>iflag\<close> is the processor's interrupt flag, which \<open>cli\<close> and \<open>sti\<close>
  clear and set.
\<close>

section \<open>State\<close>

definition PROCESS_PRI_MAX :: nat where "PROCESS_PRI_MAX = 10"
definition PROCESS_PRI_DEFAULT :: u32 where "PROCESS_PRI_DEFAULT = 5"
definition SLICE :: u32 where "SLICE = 5"
definition STATE_TERMINATED :: u32 where "STATE_TERMINATED = -1"
definition STATE_READY :: u32 where "STATE_READY = 1"
definition STATE_RUNNING :: u32 where "STATE_RUNNING = 2"
definition SIZEOF_PROCESS :: u32 where "SIZEOF_PROCESS = 52"
definition SIZEOF_THREAD :: u32 where "SIZEOF_THREAD = 36"
definition SIZEOF_CONTEXT :: u32 where "SIZEOF_CONTEXT = 64"

record process =
  Pid :: u32
  threads :: ptr
  priority :: u32
  dir :: ptr
  pstate :: u32

record thread =
  tid :: u32
  tpriority :: u32
  tstate :: u32
  tparent :: ptr
  kernel :: ptr
  time_slice :: u32
  trap_frame :: ptr
  tnext :: ptr
  next_ready :: ptr

record procst = vfsst +
  current_proc :: ptr
  current_thread :: ptr
  process_table :: "ptr list"
  current_pid :: u32
  current_tid :: u32
  queue :: "ptr list"
  queue_tail :: "ptr list"
  procs :: "ptr \<Rightarrow> process option"
  thrs :: "ptr \<Rightarrow> thread option"
  pdirs :: "ptr \<Rightarrow> u32 list option"
  iflag :: bool
  gdts :: gdt_state

text \<open>Dereferencing: \<open>NULL\<close> and dangling pointers fault.\<close>

definition thr_at :: "'z procst_scheme \<Rightarrow> ptr \<Rightarrow> thread option" where
  "thr_at s p = (if p = NULL then None else thrs s p)"

definition proc_at :: "'z procst_scheme \<Rightarrow> ptr \<Rightarrow> process option" where
  "proc_at s p = (if p = NULL then None else procs s p)"

definition thr_put :: "ptr \<Rightarrow> thread \<Rightarrow> 'z procst_scheme \<Rightarrow> 'z procst_scheme" where
  "thr_put p t s = s\<lparr>thrs := (thrs s)(p \<mapsto> t)\<rparr>"

definition proc_put :: "ptr \<Rightarrow> process \<Rightarrow> 'z procst_scheme \<Rightarrow> 'z procst_scheme" where
  "proc_put p q s = s\<lparr>procs := (procs s)(p \<mapsto> q)\<rparr>"

text \<open>The arrays have \<open>PROCESS_PRI_MAX + 1\<close> entries; an index outside is a fault.\<close>

definition rq_get :: "ptr list \<Rightarrow> u32 \<Rightarrow> ptr option" where
  "rq_get q p = (if unat p < length q then Some (q ! unat p) else None)"

definition cli :: "'z procst_scheme \<Rightarrow> 'z procst_scheme" where
  "cli s = s\<lparr>iflag := False\<rparr>"

definition sti :: "'z procst_scheme \<Rightarrow> 'z procst_scheme" where
  "sti s = s\<lparr>iflag := True\<rparr>"

section \<open>The ready queues\<close>

definition scheduler_post :: "ptr \<Rightarrow> 'z procst_scheme \<Rightarrow> 'z procst_scheme option" where
  "scheduler_post th s =
     (let s = cli s in
      if th = NULL then Some (sti s)
      else do {
        t \<leftarrow> thr_at s th;
        if tstate t = STATE_TERMINATED then Some (sti s)
        else do {
          let s = thr_put th (t\<lparr>tstate := STATE_READY, next_ready := NULL\<rparr>) s;
          let p = tpriority t;
          h \<leftarrow> rq_get (queue s) p;
          if h = NULL
          then Some (sti (s\<lparr>queue := (queue s)[unat p := th], queue_tail := (queue_tail s)[unat p := th]\<rparr>))
          else do {
            tl \<leftarrow> rq_get (queue_tail s) p;
            t \<leftarrow> thr_at s tl;
            let s = thr_put tl (t\<lparr>next_ready := th\<rparr>) s;
            Some (sti (s\<lparr>queue_tail := (queue_tail s)[unat p := th]\<rparr>))
          }
        }
      })"

text \<open>The search for the next thread, from queue \<open>n - 1\<close> down to queue 0; both callers start it at
  \<open>PROCESS_PRI_MAX\<close>, so that queue 10 is never looked at.\<close>

primrec sched_pick :: "nat \<Rightarrow> 'z procst_scheme \<Rightarrow> (ptr \<times> 'z procst_scheme) option" where
  "sched_pick 0 s = Some (NULL, s)"
| "sched_pick (Suc i) s = do {
     h \<leftarrow> rq_get (queue s) (of_nat i);
     if h \<noteq> NULL then do {
       t \<leftarrow> thr_at s h;
       let s = s\<lparr>queue := (queue s)[i := next_ready t]\<rparr>;
       Some (h, thr_put h (t\<lparr>next_ready := NULL\<rparr>) s)
     } else sched_pick i s
   }"

section \<open>Switching\<close>

text \<open>How a scheduler operation leaves: it returns, or it has loaded the saved registers at an
  address and resumed the thread they belong to.\<close>

datatype outcome = Returned | Resumes ptr

definition scheduler_switch ::
  "'z procst_scheme vmm \<Rightarrow> ptr \<Rightarrow> 'z procst_scheme \<Rightarrow> (outcome \<times> 'z procst_scheme) option" where
  "scheduler_switch vm nx s =
     (if nx = NULL \<or> nx = current_thread s then Some (Returned, s)
      else do {
        n \<leftarrow> thr_at s nx;
        c \<leftarrow> thr_at s (current_thread s);
        s \<leftarrow> (if tparent n \<noteq> tparent c
             then do { p \<leftarrow> proc_at s (tparent n); Some (v_switch vm (dir p) s) }
             else Some s);
        n \<leftarrow> thr_at s nx;
        let s = thr_put nx (n\<lparr>tstate := STATE_RUNNING\<rparr>)
                  (s\<lparr>current_thread := nx, current_proc := tparent n\<rparr>);
        let s = (if kernel n \<noteq> NULL
                 then s\<lparr>gdts := tss_update_esp0 (kernel n + 4 * 1024) (gdts s)\<rparr> else s);
        Some (Resumes (trap_frame n), s)
      })"

definition scheduler_tick ::
  "'z procst_scheme vmm \<Rightarrow> ptr \<Rightarrow> 'z procst_scheme \<Rightarrow> (outcome \<times> 'z procst_scheme) option" where
  "scheduler_tick vm ctx s = do {
     t \<leftarrow> thr_at s (current_thread s);
     let left = time_slice t - 1;
     let s = thr_put (current_thread s) (t\<lparr>trap_frame := ctx, time_slice := left\<rparr>) s;
     if 0 < left then Some (Returned, s)
     else do {
       let s = thr_put (current_thread s) (t\<lparr>trap_frame := ctx, time_slice := SLICE\<rparr>) s;
       s \<leftarrow> scheduler_post (current_thread s) s;
       (nx, s) \<leftarrow> sched_pick PROCESS_PRI_MAX s;
       if nx = NULL then Some (Returned, s)
       else scheduler_switch vm nx (cli s)
     }
   }"

text \<open>With no thread to run next, the code loops for ever.\<close>

definition thread_exit ::
  "'z procst_scheme vmm \<Rightarrow> 'z procst_scheme \<Rightarrow> (outcome \<times> 'z procst_scheme) option" where
  "thread_exit vm s = do {
     let s = cli s;
     t \<leftarrow> thr_at s (current_thread s);
     let s = thr_put (current_thread s) (t\<lparr>tstate := STATE_TERMINATED\<rparr>) s;
     (nx, s) \<leftarrow> sched_pick PROCESS_PRI_MAX s;
     if nx = NULL then None else scheduler_switch vm nx s
   }"

text \<open>The fields of the first process and thread that are not assigned keep what the allocated blocks
  contain: a parameter.\<close>

definition scheduler_init ::
  "'z procst_scheme vmm \<Rightarrow> allocator \<Rightarrow> u32 \<times> ptr \<times> ptr \<Rightarrow> 'z procst_scheme \<Rightarrow> 'z procst_scheme option" where
  "scheduler_init vm alloc junk s =
     (let s = s\<lparr>current_proc := NULL, current_thread := NULL\<rparr>;
          (kp, s) = malloc alloc SIZEOF_PROCESS s;
          (kt, s) = malloc alloc SIZEOF_THREAD s
      in
      if kp = NULL \<or> kt = NULL then None
      else
        let s = proc_put kp \<lparr>Pid = current_pid s, threads = kt, priority = fst junk,
                  dir = v_kerneldir vm s, pstate = STATE_RUNNING\<rparr> s;
            s = thr_put kt \<lparr>tid = current_tid s, tpriority = 5, tstate = STATE_RUNNING, tparent = kp,
                  kernel = NULL, time_slice = SLICE, trap_frame = NULL,
                  tnext = fst (snd junk), next_ready = snd (snd junk)\<rparr> s
        in Some (s\<lparr>current_pid := current_pid s + 1, current_tid := current_tid s + 1,
                   queue := replicate (PROCESS_PRI_MAX + 1) NULL,
                   queue_tail := replicate (PROCESS_PRI_MAX + 1) NULL,
                   current_proc := kp, current_thread := kt\<rparr>))"

end
