(* ===== verification/Process.thy ===== *)
theory Process
  imports Sched
begin

text \<open>
  Creating and destroying processes and threads, \<open>proc/process.c\<close>. The initial registers of a thread
  are written to its kernel stack as the structure \<open>interrupt_context\<close> of \<open>include/interrupts.h\<close>.
  The address of \<open>thread_exit\<close> and the locals of \<open>process_spawn\<close> are parameters.
\<close>

section \<open>Threads\<close>

text \<open>The fields of \<open>interrupt_context\<close> that are assigned, by their offsets.\<close>

definition ctx_ds :: u32 where "ctx_ds = 0"
definition ctx_esp :: u32 where "ctx_esp = 16"
definition ctx_eax :: u32 where "ctx_eax = 32"
definition ctx_eip :: u32 where "ctx_eip = 44"
definition ctx_cs :: u32 where "ctx_cs = 48"
definition ctx_eflags :: u32 where "ctx_eflags = 52"
definition ctx_useresp :: u32 where "ctx_useresp = 56"
definition ctx_ss :: u32 where "ctx_ss = 60"

definition thr_free :: "ptr \<Rightarrow> 'z procst_scheme \<Rightarrow> 'z procst_scheme" where
  "thr_free p s = (free p s)\<lparr>thrs := (thrs s)(p := None)\<rparr>"

definition proc_free :: "ptr \<Rightarrow> 'z procst_scheme \<Rightarrow> 'z procst_scheme" where
  "proc_free p s = (free p s)\<lparr>procs := (procs s)(p := None)\<rparr>"

definition dir_free :: "ptr \<Rightarrow> 'z procst_scheme \<Rightarrow> 'z procst_scheme" where
  "dir_free p s = (free p s)\<lparr>pdirs := (pdirs s)(p := None)\<rparr>"

definition ctx_segments :: "mem \<Rightarrow> ptr \<Rightarrow> ptr \<Rightarrow> mem option" where
  "ctx_segments m ctx entry = do {
     let kernel_mode = (entry = NULL \<or> entry \<ge> 0xC0000000);
     m \<leftarrow> st32 m (ctx + ctx_cs) (if kernel_mode then 0x08 else 0x1B);
     m \<leftarrow> st32 m (ctx + ctx_ds) (if kernel_mode then 0x10 else 0x23);
     m \<leftarrow> st32 m (ctx + ctx_ss) (if kernel_mode then 0x10 else 0x23);
     st32 m (ctx + ctx_eflags) 0x202
   }"

definition thread_stack :: "ptr \<Rightarrow> mem \<Rightarrow> ptr \<Rightarrow> ptr \<Rightarrow> ptr \<Rightarrow> (ptr \<times> mem) option" where
  "thread_stack exit_addr m k entry arg = do {
     let stack_top = k + 4 * 1024;
     (stack_top, m) \<leftarrow> (if entry \<noteq> NULL then do {
         m \<leftarrow> st32 m (stack_top - 4) arg;
         m \<leftarrow> st32 m (stack_top - 8) exit_addr;
         Some (stack_top - 8, m)
       } else Some (stack_top, m));
     let ctx = stack_top - SIZEOF_CONTEXT;
     (_, m) \<leftarrow> memset m ctx 0 SIZEOF_CONTEXT;
     m \<leftarrow> st32 m (ctx + ctx_eip) entry;
     m \<leftarrow> st32 m (ctx + ctx_esp) stack_top;
     m \<leftarrow> st32 m (ctx + ctx_useresp) stack_top;
     m \<leftarrow> ctx_segments m ctx entry;
     Some (ctx, m)
   }"

definition thread_create ::
  "allocator \<Rightarrow> ptr \<Rightarrow> ptr \<Rightarrow> ptr \<Rightarrow> ptr \<Rightarrow> 'z procst_scheme \<Rightarrow> (ptr \<times> 'z procst_scheme) option" where
  "thread_create alloc exit_addr parent_process entry arg s =
     (let (th, s) = malloc alloc SIZEOF_THREAD s in
      if th = NULL then None
      else
        let new_tid = current_tid s;
            s = s\<lparr>current_tid := new_tid + 1\<rparr>;
            (k, s) = malloc alloc (4 * 1024) s
        in
        if k = NULL then Some (NULL, thr_free th s)
        else do {
          p \<leftarrow> proc_at s parent_process;
          let s = proc_put parent_process (p\<lparr>threads := th\<rparr>) s;
          (ctx, m) \<leftarrow> thread_stack exit_addr (kmem s) k entry arg;
          let s = thr_put th \<lparr>tid = new_tid, tpriority = PROCESS_PRI_DEFAULT, tstate = STATE_READY,
                tparent = parent_process, kernel = k, time_slice = SLICE, trap_frame = ctx,
                tnext = threads p, next_ready = NULL\<rparr> (s\<lparr>kmem := m\<rparr>);
          Some (th, s)
        })"

text \<open>The two list walks of \<open>thread_destroy\<close>: to the thread in its ready queue, keeping the one
  before, and to the one before it in its process. On a cyclic list they do not end.\<close>

partial_function (option) rq_walk ::
  "(ptr \<Rightarrow> thread option) \<Rightarrow> ptr \<Rightarrow> ptr \<Rightarrow> ptr \<Rightarrow> (ptr \<times> ptr) option" where
  "rq_walk h th prev cur =
     (if cur \<noteq> NULL \<and> cur \<noteq> th then do {
        t \<leftarrow> h cur;
        rq_walk h th cur (next_ready t)
      } else Some (prev, cur))"

partial_function (option) threads_walk ::
  "(ptr \<Rightarrow> thread option) \<Rightarrow> ptr \<Rightarrow> ptr \<Rightarrow> ptr option" where
  "threads_walk h th cur =
     (if cur = NULL then Some NULL
      else do {
        t \<leftarrow> h cur;
        if tnext t = th then Some cur else threads_walk h th (tnext t)
      })"

definition rq_unlink :: "ptr \<Rightarrow> thread \<Rightarrow> 'z procst_scheme \<Rightarrow> 'z procst_scheme option" where
  "rq_unlink th t s = do {
     let p = tpriority t;
     h \<leftarrow> rq_get (queue s) p;
     if h = th then Some (s\<lparr>queue := (queue s)[unat p := next_ready t]\<rparr>)
     else do {
       (prev, h) \<leftarrow> rq_walk (thrs s) th h h;
       if h \<noteq> NULL then do {
         x \<leftarrow> thr_at s h;
         y \<leftarrow> thr_at s prev;
         Some (thr_put prev (y\<lparr>next_ready := next_ready x\<rparr>) s)
       } else Some s
     }
   }"

definition proc_unlink :: "ptr \<Rightarrow> thread \<Rightarrow> 'z procst_scheme \<Rightarrow> 'z procst_scheme option" where
  "proc_unlink th t s = do {
     p \<leftarrow> proc_at s (tparent t);
     if threads p = th then do {
       x \<leftarrow> thr_at s th;
       Some (proc_put (tparent t) (p\<lparr>threads := tnext x\<rparr>) s)
     }
     else do {
       cur \<leftarrow> threads_walk (thrs s) th (threads p);
       if cur \<noteq> NULL then do {
         x \<leftarrow> thr_at s th;
         y \<leftarrow> thr_at s cur;
         Some (thr_put cur (y\<lparr>tnext := tnext x\<rparr>) s)
       } else Some s
     }
   }"

definition thread_destroy :: "ptr \<Rightarrow> 'z procst_scheme \<Rightarrow> (u32 \<times> 'z procst_scheme) option" where
  "thread_destroy th s =
     (let s = cli s in
      if th = NULL then Some (-1, sti s)
      else do {
        t \<leftarrow> thr_at s th;
        if tstate t = STATE_RUNNING then Some (-1, sti s)
        else if tparent t = NULL then Some (-1, sti s)
        else do {
          p \<leftarrow> proc_at s (tparent t);
          if threads p = NULL then Some (-1, sti s)
          else do {
            s \<leftarrow> rq_unlink th t s;
            s \<leftarrow> proc_unlink th t s;
            let s = free (kernel t) s;
            Some (0, sti (thr_free th s))
          }
        }
      })"

section \<open>Processes\<close>

fun table_insert :: "ptr list \<Rightarrow> ptr \<Rightarrow> ptr list" where
  "table_insert [] p = []"
| "table_insert (q # qs) p = (if q = NULL then p # qs else q # table_insert qs p)"

fun table_remove :: "ptr list \<Rightarrow> ptr \<Rightarrow> ptr list" where
  "table_remove [] p = []"
| "table_remove (q # qs) p = (if q = p then NULL # qs else q # table_remove qs p)"

definition process_create ::
  "'z procst_scheme vmm \<Rightarrow> ptr \<Rightarrow> ptr \<Rightarrow> u32 \<Rightarrow> 'z procst_scheme \<Rightarrow> 'z procst_scheme option" where
  "process_create vm pr name prio s =
     (if pr = NULL then None
      else do {
        let new_pid = current_pid s;
        let s = s\<lparr>current_pid := new_pid + 1\<rparr>;
        let (d, s) = v_create vm s;
        let kd = v_kerneldir vm s;
        dt \<leftarrow> (if d = NULL then None else pdirs s d);
        kt \<leftarrow> (if kd = NULL then None else pdirs s kd);
        let s = s\<lparr>pdirs := (pdirs s)(d \<mapsto>
              take 1 kt @ take 767 (drop 1 dt) @ take 256 (drop 768 kt))\<rparr>;
        (_, m) \<leftarrow> strncpy (kmem s) (pr + 4) name 31;
        m \<leftarrow> st8 m (pr + 4 + 31) 0;
        let s = proc_put pr \<lparr>Pid = new_pid, threads = NULL, priority = prio, dir = d, pstate = STATE_READY\<rparr>
              (s\<lparr>kmem := m\<rparr>);
        Some (s\<lparr>process_table := table_insert (process_table s) pr\<rparr>)
      })"

text \<open>The list of threads is followed through \<open>next\<close> read before each thread is destroyed; a thread that
  could not be destroyed stays.\<close>

partial_function (option) destroy_threads ::
  "ptr \<Rightarrow> 'z procst_scheme \<Rightarrow> 'z procst_scheme option" where
  "destroy_threads th s =
     (if th = NULL then Some s
      else do {
        t \<leftarrow> thr_at s th;
        (_, s) \<leftarrow> thread_destroy th s;
        destroy_threads (tnext t) s
      })"

definition process_destroy ::
  "'z procst_scheme vmm \<Rightarrow> ptr \<Rightarrow> 'z procst_scheme \<Rightarrow> 'z procst_scheme option" where
  "process_destroy vm pr s = do {
     p \<leftarrow> proc_at s pr;
     if pstate p = STATE_TERMINATED then Some s
     else do {
       let s = proc_put pr (p\<lparr>pstate := STATE_TERMINATED\<rparr>) s;
       let s = s\<lparr>process_table := table_remove (process_table s) pr\<rparr>;
       s \<leftarrow> destroy_threads (threads p) s;
       p \<leftarrow> proc_at s pr;
       let s = (if dir p \<noteq> NULL
                then dir_free (dir p) (v_free_region vm (dir p) 0x0 0xC0000000 s) else s);
       Some (proc_free pr s)
     }
   }"

definition get_main_thread ::
  "allocator \<Rightarrow> ptr \<Rightarrow> ptr \<Rightarrow> 'z procst_scheme \<Rightarrow> (ptr \<times> 'z procst_scheme) option" where
  "get_main_thread alloc exit_addr pr s =
     (if pr = NULL then Some (NULL, s)
      else do {
        p \<leftarrow> proc_at s pr;
        s \<leftarrow> (if threads p = NULL then do {
               (th, s) \<leftarrow> thread_create alloc exit_addr pr NULL NULL s;
               p \<leftarrow> proc_at s pr;
               Some (proc_put pr (p\<lparr>threads := th\<rparr>) s)
             } else Some s);
        p \<leftarrow> proc_at s pr;
        Some (threads p, s)
      })"

text \<open>Falling off the end without a result, when no process has the number, is \<open>None\<close>.\<close>

fun table_find :: "'z procst_scheme \<Rightarrow> ptr list \<Rightarrow> u32 \<Rightarrow> ptr option" where
  "table_find s [] pid = None"
| "table_find s (q # qs) pid =
     (if q = NULL then table_find s qs pid
      else do {
        p \<leftarrow> proc_at s q;
        if Pid p = pid then Some q else table_find s qs pid
      })"

definition process_find_by_pid :: "u32 \<Rightarrow> 'z procst_scheme \<Rightarrow> ptr option" where
  "process_find_by_pid pid s = table_find s (process_table s) pid"

record spawn_env =
  se_elf :: elf_env
  se_entry :: ptr
  se_exit :: ptr

definition process_spawn ::
  "'z procst_ext vfsst_scheme fs_calls \<Rightarrow> 'z procst_scheme vmm \<Rightarrow> allocator \<Rightarrow> spawn_env \<Rightarrow> ptr \<Rightarrow>
   'z procst_scheme \<Rightarrow> (u32 \<times> 'z procst_scheme) option" where
  "process_spawn calls vm alloc se filename s = do {
     let (pr, s) = malloc alloc SIZEOF_PROCESS s;
     s \<leftarrow> process_create vm pr filename PROCESS_PRI_DEFAULT s;
     p \<leftarrow> proc_at s pr;
     (r, s) \<leftarrow> elf_load calls vm alloc (se_elf se) filename (dir p) (se_entry se) s;
     if r \<noteq> 0 then do {
       s \<leftarrow> process_destroy vm pr s;
       Some (-1, s)
     } else do {
       entry \<leftarrow> ld32 (kmem s) (se_entry se);
       (th, s) \<leftarrow> thread_create alloc (se_exit se) pr entry NULL s;
       p \<leftarrow> proc_at s pr;
       let s = proc_put pr (p\<lparr>threads := th\<rparr>) s;
       s \<leftarrow> scheduler_post th s;
       p \<leftarrow> proc_at s pr;
       Some (Pid p, s)
     }
   }"

definition process_fork ::
  "'z procst_scheme vmm \<Rightarrow> allocator \<Rightarrow> ptr \<Rightarrow> 'z procst_scheme \<Rightarrow> (u32 \<times> 'z procst_scheme) option" where
  "process_fork vm alloc exit_addr s = do {
     let s = cli s;
     let parent = current_proc s;
     let pt = current_thread s;
     if parent = NULL \<or> pt = NULL then Some (-1, sti s)
     else do {
       t \<leftarrow> thr_at s pt;
       if trap_frame t = NULL then Some (-1, sti s)
       else do {
         let (child, s) = malloc alloc SIZEOF_PROCESS s;
         if child = NULL then Some (-1, sti s)
         else do {
           pp \<leftarrow> proc_at s parent;
           s \<leftarrow> process_create vm child (parent + 4) (priority pp) s;
           c \<leftarrow> proc_at s child;
           if dir c = NULL then Some (-1, sti (proc_free child s))
           else do {
             let (d, s) = v_clone vm s;
             if d = NULL then Some (-1, sti (proc_free child (dir_free (dir c) s)))
             else do {
               let s = proc_put child (c\<lparr>dir := d\<rparr>) (dir_free (dir c) s);
               (ct, s) \<leftarrow> get_main_thread alloc exit_addr child s;
               if ct = NULL
               then Some (-1, sti (proc_free child (dir_free d (v_free_region vm d 0x0 0xC0000000 s))))
               else do {
                 x \<leftarrow> thr_at s ct;
                 t \<leftarrow> thr_at s pt;
                 (_, m) \<leftarrow> memcpy (kmem s) (trap_frame x) (trap_frame t) SIZEOF_CONTEXT;
                 m \<leftarrow> st32 m (trap_frame x + ctx_eax) 0;
                 s \<leftarrow> scheduler_post ct (s\<lparr>kmem := m\<rparr>);
                 c \<leftarrow> proc_at s child;
                 Some (Pid c, sti s)
               }
             }
           }
         }
       }
     }
   }"

definition get_current_proc :: "'z procst_scheme \<Rightarrow> ptr" where
  "get_current_proc s = current_proc s"

definition get_current_thread :: "'z procst_scheme \<Rightarrow> ptr" where
  "get_current_thread s = current_thread s"

definition process_exit :: "ptr \<Rightarrow> u32 \<Rightarrow> 'z procst_scheme \<Rightarrow> 'z procst_scheme" where
  "process_exit pr status s = s"

end
