(* ===== verification/SchedSpec.thy ===== *)
theory SchedSpec
  imports Process
begin

text \<open>
  The ready queues as lists. \<open>sched_rel s Q\<close> says that the eleven linked queues of the state hold the
  eleven lists \<open>Q\<close>; posting a thread appends it to the list of its priority, and the search for the next
  thread takes the head of the highest list that is not empty, below list 10.
\<close>

section \<open>Abstract queues\<close>

definition enq :: "nat \<Rightarrow> ptr \<Rightarrow> ptr list list \<Rightarrow> ptr list list" where
  "enq p x Q = Q[p := Q ! p @ [x]]"

primrec apick :: "nat \<Rightarrow> ptr list list \<Rightarrow> ptr \<times> ptr list list" where
  "apick 0 Q = (NULL, Q)"
| "apick (Suc i) Q = (if Q ! i \<noteq> [] then (hd (Q ! i), Q[i := tl (Q ! i)]) else apick i Q)"

definition queued :: "ptr list list \<Rightarrow> ptr set" where
  "queued Q = \<Union> (set ` set Q)"

section \<open>The linked queues\<close>

fun rq_list :: "(ptr \<Rightarrow> thread option) \<Rightarrow> ptr \<Rightarrow> ptr list \<Rightarrow> bool" where
  "rq_list h p [] \<longleftrightarrow> p = NULL"
| "rq_list h p (x # xs) \<longleftrightarrow> p = x \<and> x \<noteq> NULL \<and>
     (case h x of None \<Rightarrow> False | Some t \<Rightarrow> rq_list h (next_ready t) xs)"

definition ready_at :: "'z procst_scheme \<Rightarrow> nat \<Rightarrow> ptr \<Rightarrow> bool" where
  "ready_at s i x \<longleftrightarrow>
     (case thrs s x of None \<Rightarrow> False
      | Some t \<Rightarrow> x \<noteq> NULL \<and> unat (tpriority t) = i \<and> tstate t = STATE_READY)"

definition rq_ok :: "'z procst_scheme \<Rightarrow> nat \<Rightarrow> ptr list \<Rightarrow> bool" where
  "rq_ok s i xs \<longleftrightarrow>
     rq_list (thrs s) (queue s ! i) xs \<and> distinct xs \<and> (xs \<noteq> [] \<longrightarrow> queue_tail s ! i = last xs)
     \<and> (\<forall>x \<in> set xs. ready_at s i x)"

definition sched_rel :: "'z procst_scheme \<Rightarrow> ptr list list \<Rightarrow> bool" where
  "sched_rel s Q \<longleftrightarrow>
     length Q = 11 \<and> length (queue s) = 11 \<and> length (queue_tail s) = 11
     \<and> (\<forall>i < 11. rq_ok s i (Q ! i))"

text \<open>A thread without its link: what posting and picking leave alone.\<close>

definition core :: "thread \<Rightarrow> thread" where
  "core t = t\<lparr>next_ready := NULL\<rparr>"

definition cores :: "'z procst_scheme \<Rightarrow> ptr \<Rightarrow> thread option" where
  "cores s x = map_option core (thrs s x)"

definition sched_frame :: "'z procst_scheme \<Rightarrow> 'z procst_scheme \<Rightarrow> bool" where
  "sched_frame s t \<longleftrightarrow>
     t = s\<lparr>queue := queue t, queue_tail := queue_tail t, thrs := thrs t, iflag := iflag t\<rparr>"

lemma core_sel [simp]:
  "tid (core t) = tid t" "tpriority (core t) = tpriority t" "tstate (core t) = tstate t"
  "tparent (core t) = tparent t" "kernel (core t) = kernel t" "time_slice (core t) = time_slice t"
  "trap_frame (core t) = trap_frame t" "tnext (core t) = tnext t"
  by (simp_all add: core_def)

lemma ready_at_cores: "cores s' x = cores s x \<Longrightarrow> ready_at s' i x = ready_at s i x"
  unfolding cores_def ready_at_def
  by (cases "thrs s x"; cases "thrs s' x") (auto dest: arg_cong [where f = tpriority] arg_cong [where f = tstate])

lemma rq_list_cong:
  "(\<And>x. x \<in> set xs \<Longrightarrow> h' x = h x) \<Longrightarrow> rq_list h' p xs = rq_list h p xs"
  by (induction xs arbitrary: p) (auto split: option.splits)

lemma rq_list_upd: "x \<notin> set xs \<Longrightarrow> rq_list (h(x := v)) p xs = rq_list h p xs"
  by (rule rq_list_cong) auto

lemma rq_list_append:
  "xs \<noteq> [] \<Longrightarrow> distinct xs \<Longrightarrow> rq_list h p xs \<Longrightarrow> h (last xs) = Some t \<Longrightarrow> x \<noteq> NULL \<Longrightarrow> x \<notin> set xs \<Longrightarrow>
   h x = Some u \<Longrightarrow> next_ready u = NULL \<Longrightarrow>
   rq_list (h(last xs \<mapsto> t\<lparr>next_ready := x\<rparr>)) p (xs @ [x])"
proof (induction xs arbitrary: p)
  case (Cons a xs)
  show ?case
  proof (cases xs)
    case Nil
    then show ?thesis using Cons.prems by auto
  next
    case (Cons b ys)
    then have "last xs \<noteq> a" using Cons.prems(2) last_in_set [of xs] by auto
    then show ?thesis using Cons Cons.IH Cons.prems by (auto split: option.splits)
  qed
qed simp

lemma queued_nth: "i < length Q \<Longrightarrow> x \<in> set (Q ! i) \<Longrightarrow> x \<in> queued Q"
  by (auto simp: queued_def)

lemma queued_iff: "x \<in> queued Q \<longleftrightarrow> (\<exists>i < length Q. x \<in> set (Q ! i))"
  by (auto simp: queued_def in_set_conv_nth [of _ Q] intro: nth_mem)

lemma rel_ready: "sched_rel s Q \<Longrightarrow> i < 11 \<Longrightarrow> x \<in> set (Q ! i) \<Longrightarrow> ready_at s i x"
  by (auto simp: sched_rel_def rq_ok_def)

lemma rel_disjoint:
  assumes "sched_rel s Q" and "i < 11" and "j < 11" and "x \<in> set (Q ! i)" and "x \<in> set (Q ! j)"
  shows "i = j"
  using rel_ready [OF assms(1,2,4)] rel_ready [OF assms(1,3,5)] by (auto simp: ready_at_def split: option.splits)

text \<open>A change to queue \<open>i\<close> only keeps the others.\<close>

lemma rel_update:
  assumes rel: "sched_rel s Q" and i: "i < 11" and ok: "rq_ok s' i xs"
    and len: "length (queue s') = 11" "length (queue_tail s') = 11"
    and same: "\<And>j. j < 11 \<Longrightarrow> j \<noteq> i \<Longrightarrow> queue s' ! j = queue s ! j \<and> queue_tail s' ! j = queue_tail s ! j"
    and heap: "\<And>j x. j < 11 \<Longrightarrow> j \<noteq> i \<Longrightarrow> x \<in> set (Q ! j) \<Longrightarrow> thrs s' x = thrs s x"
  shows "sched_rel s' (Q[i := xs])"
proof -
  have "rq_ok s' j (Q ! j)" if "j < 11" "j \<noteq> i" for j
    using rel heap [OF that] same [OF that] that rq_list_cong [of "Q ! j" "thrs s'" "thrs s"]
    by (auto simp: sched_rel_def rq_ok_def ready_at_def)
  then show ?thesis using rel i ok len by (auto simp: sched_rel_def nth_list_update)
qed

section \<open>Posting\<close>

lemma post_enq:
  assumes rel: "sched_rel s Q" and th: "thrs s th = Some t" "th \<noteq> NULL" "th \<notin> queued Q"
    and st: "tstate t \<noteq> STATE_TERMINATED" and p: "unat (tpriority t) < 11"
  shows "\<exists>s'. scheduler_post th s = Some s' \<and> sched_rel s' (enq (unat (tpriority t)) th Q) \<and>
    sched_frame s s' \<and> iflag s' \<and> cores s' = (cores s)(th \<mapsto> core (t\<lparr>tstate := STATE_READY\<rparr>))"
proof -
  let ?p = "unat (tpriority t)" and ?u = "t\<lparr>tstate := STATE_READY, next_ready := NULL\<rparr>"
  let ?h = "(thrs s)(th \<mapsto> ?u)"
  have ok: "rq_ok s ?p (Q ! ?p)" and len: "length Q = 11" "length (queue s) = 11" "length (queue_tail s) = 11"
    using rel p by (auto simp: sched_rel_def)
  have ni: "th \<notin> set (Q ! j)" if "j < 11" for j using th(3) that len queued_nth by metis
  show ?thesis
  proof (cases "Q ! ?p = []")
    case True
    let ?s = "s\<lparr>thrs := ?h, queue := (queue s)[?p := th], queue_tail := (queue_tail s)[?p := th], iflag := True\<rparr>"
    have "queue s ! ?p = NULL" using ok True by (simp add: rq_ok_def)
    then have "scheduler_post th s = Some ?s"
      using th st p len by (simp add: scheduler_post_def cli_def sti_def thr_at_def thr_put_def rq_get_def Let_def)
    moreover have "rq_ok ?s ?p [th]" using th p len by (simp add: rq_ok_def ready_at_def)
    then have "sched_rel ?s (Q[?p := [th]])"
      by (rule rel_update [OF rel p]) (use len ni in \<open>auto simp: nth_list_update\<close>)
    ultimately show ?thesis
      using True by (auto simp: enq_def sched_frame_def cores_def core_def fun_eq_iff)
  next
    case False
    let ?l = "last (Q ! ?p)"
    have l: "?l \<in> set (Q ! ?p)" using False by simp
    obtain v where v: "thrs s ?l = Some v" "?l \<noteq> NULL"
      using rel_ready [OF rel p l] by (auto simp: ready_at_def split: option.splits)
    have lt: "?l \<noteq> th" using ni p l by blast
    let ?s = "s\<lparr>thrs := ?h(?l \<mapsto> v\<lparr>next_ready := th\<rparr>), queue_tail := (queue_tail s)[?p := th], iflag := True\<rparr>"
    have "queue s ! ?p \<noteq> NULL" "queue_tail s ! ?p = ?l"
      using ok False by (cases "Q ! ?p"; auto simp: rq_ok_def)+
    then have "scheduler_post th s = Some ?s"
      using th st p len v lt by (simp add: scheduler_post_def cli_def sti_def thr_at_def thr_put_def rq_get_def Let_def)
    moreover have "rq_ok ?s ?p (Q ! ?p @ [th])"
    proof -
      have "rq_list ?h (queue s ! ?p) (Q ! ?p)"
        using ok ni [OF p] by (simp add: rq_ok_def rq_list_upd)
      then have "rq_list (thrs ?s) (queue s ! ?p) (Q ! ?p @ [th])"
        using rq_list_append [of "Q ! ?p" ?h "queue s ! ?p" v th ?u] False ok v lt th ni p
        by (simp add: rq_ok_def)
      moreover have "ready_at ?s ?p x" if "x \<in> set (Q ! ?p)" for x
      proof -
        have "x \<noteq> th" using that ni [OF p] by blast
        then have "cores ?s x = cores s x" using v by (auto simp: cores_def core_def)
        then show ?thesis using ready_at_cores rel_ready [OF rel p that] by blast
      qed
      moreover have "ready_at ?s ?p th" using th lt by (simp add: ready_at_def)
      ultimately show ?thesis using ok ni [OF p] p len by (simp add: rq_ok_def)
    qed
    then have "sched_rel ?s (Q[?p := Q ! ?p @ [th]])"
      by (rule rel_update [OF rel p]) (use len ni l rel_disjoint [OF rel _ p] in \<open>auto simp: nth_list_update\<close>)
    ultimately show ?thesis
      using v lt by (auto simp: enq_def sched_frame_def cores_def core_def fun_eq_iff)
  qed
qed

section \<open>Picking\<close>

lemma sched_pick_apick:
  assumes rel: "sched_rel s Q" and n: "n \<le> 11"
  shows "\<exists>s'. sched_pick n s = Some (fst (apick n Q), s') \<and> sched_rel s' (snd (apick n Q)) \<and>
    sched_frame s s' \<and> iflag s' = iflag s \<and> cores s' = cores s"
  using n
proof (induction n)
  case 0
  then show ?case using rel by (simp add: sched_frame_def)
next
  case (Suc i)
  have i: "i < 11" using Suc.prems by simp
  have len: "length Q = 11" "length (queue s) = 11" "length (queue_tail s) = 11" and ok: "rq_ok s i (Q ! i)"
    using rel i by (auto simp: sched_rel_def)
  have ui: "unat (of_nat i :: u32) = i" using i by (intro unat_of_nat32) simp
  show ?case
  proof (cases "Q ! i")
    case Nil
    then have "queue s ! i = NULL" using ok by (simp add: rq_ok_def)
    then show ?thesis using Suc i len ui Nil by (simp add: rq_get_def)
  next
    case (Cons x xs)
    have q: "queue s ! i = x" "x \<noteq> NULL" using ok Cons by (auto simp: rq_ok_def)
    obtain t where t: "thrs s x = Some t" "rq_list (thrs s) (next_ready t) xs"
      using ok Cons by (auto simp: rq_ok_def split: option.splits)
    have xn: "x \<notin> set xs" using ok Cons by (simp add: rq_ok_def)
    let ?s = "s\<lparr>queue := (queue s)[i := next_ready t], thrs := (thrs s)(x \<mapsto> t\<lparr>next_ready := NULL\<rparr>)\<rparr>"
    have "sched_pick (Suc i) s = Some (x, ?s)"
      using q t len i ui by (simp add: rq_get_def thr_at_def thr_put_def)
    moreover have "rq_ok ?s i xs"
      using ok Cons t(2) xn i len by (auto simp: rq_ok_def ready_at_def rq_list_upd)
    then have "sched_rel ?s (Q[i := xs])"
      by (rule rel_update [OF rel i])
        (use len rel_disjoint [OF rel _ i] Cons in \<open>auto simp: nth_list_update\<close>)
    ultimately show ?thesis
      using Cons t by (auto simp: sched_frame_def cores_def core_def fun_eq_iff)
  qed
qed

end
