(* ===== verification/SchedInv.thy ===== *)
theory SchedInv
  imports SchedRun
begin

text \<open>
  The invariant of the scheduler and the order in which threads run. Every operation keeps the
  invariant and none faults; among threads of the same priority, with none ready above it, the
  processor goes round, five ticks to each.
\<close>

text \<open>What the scheduler relies on of the memory manager: switching the page directory changes nothing
  of the scheduler's own state.\<close>

definition vmm_frame :: "'z procst_scheme vmm \<Rightarrow> bool" where
  "vmm_frame vm \<longleftrightarrow> (\<forall>d s.
     queue (v_switch vm d s) = queue s \<and> queue_tail (v_switch vm d s) = queue_tail s \<and>
     thrs (v_switch vm d s) = thrs s \<and> procs (v_switch vm d s) = procs s \<and>
     iflag (v_switch vm d s) = iflag s)"

definition runnable :: "'z procst_scheme \<Rightarrow> thread \<Rightarrow> bool" where
  "runnable s t \<longleftrightarrow> 0 < time_slice t \<and> time_slice t \<le> SLICE \<and> proc_at s (tparent t) \<noteq> None"

definition sched_inv :: "'z procst_scheme \<Rightarrow> ptr list list \<Rightarrow> bool" where
  "sched_inv s Q \<longleftrightarrow>
     sched_rel s Q \<and> current_thread s \<noteq> NULL \<and> current_thread s \<notin> queued Q \<and>
     (\<exists>t. cores s (current_thread s) = Some t \<and> unat (tpriority t) < 10 \<and>
          tstate t \<noteq> STATE_TERMINATED \<and> runnable s t) \<and>
     (\<forall>x \<in> queued Q. \<exists>t. cores s x = Some t \<and> time_slice t = SLICE \<and> runnable s t)"

lemma sched_rel_cong:
  "sched_rel s Q \<Longrightarrow> queue s' = queue s \<Longrightarrow> queue_tail s' = queue_tail s \<Longrightarrow>
   (\<And>x. x \<in> queued Q \<Longrightarrow> thrs s' x = thrs s x) \<Longrightarrow> sched_rel s' Q"
  unfolding sched_rel_def
proof (elim conjE, intro conjI allI impI)
  fix i :: nat
  assume a: "queue s' = queue s" "queue_tail s' = queue_tail s"
    "\<And>x. x \<in> queued Q \<Longrightarrow> thrs s' x = thrs s x" "\<forall>i < 11. rq_ok s i (Q ! i)" "i < 11" "length Q = 11"
  then have "\<And>x. x \<in> set (Q ! i) \<Longrightarrow> thrs s' x = thrs s x" using queued_nth by metis
  then show "rq_ok s' i (Q ! i)"
    using a rq_list_cong [of "Q ! i" "thrs s'" "thrs s"] by (auto simp: rq_ok_def ready_at_def)
qed auto

lemma top_exists:
  assumes "Q ! p \<noteq> []" and "p < 10"
  shows "\<exists>i. p \<le> i \<and> top_at i Q \<and> Q ! i \<noteq> []"
proof -
  let ?S = "{i. i < 10 \<and> Q ! i \<noteq> []}"
  have S: "finite ?S" "p \<in> ?S" using assms by auto
  then have "Max ?S \<in> ?S" by (intro Max_in) auto
  moreover have "p \<le> Max ?S" using Max_ge [OF S] .
  moreover have "Q ! j = []" if "Max ?S < j" "j < 10" for j
  proof (rule ccontr)
    assume "Q ! j \<noteq> []"
    then have "j \<le> Max ?S" using that by (intro Max_ge [OF S(1)]) simp
    then show False using that by simp
  qed
  ultimately show ?thesis unfolding top_at_def by blast
qed

text \<open>One step of the search: the queue it takes from, and what is left.\<close>

lemma queued_update:
  "i < length Q \<Longrightarrow> queued (Q[i := ys]) = set ys \<union> {x. \<exists>j < length Q. j \<noteq> i \<and> x \<in> set (Q ! j)}"
  by (auto simp: queued_iff nth_list_update split: if_splits)

lemma pick_queued:
  assumes "sched_rel s Q" and "Q ! p \<noteq> []" and "p < 10"
  shows "\<exists>i y ys. apick 10 Q = (y, Q[i := ys]) \<and> Q ! i = y # ys \<and> i < 10 \<and> p \<le> i \<and>
    y \<in> queued Q \<and> queued (Q[i := ys]) = queued Q - {y}"
proof -
  obtain i where i: "p \<le> i" "top_at i Q" "Q ! i \<noteq> []" using top_exists [OF assms(2,3)] by blast
  then obtain y ys where y: "Q ! i = y # ys" by (cases "Q ! i") auto
  have i10: "i < 10" using i(2) by (simp add: top_at_def)
  have len: "length Q = 11" using assms(1) by (simp add: sched_rel_def)
  have "apick 10 Q = (y, Q[i := ys])" using apick_top [OF i(2) i10 _ y] by simp
  moreover have "y \<in> queued Q" using queued_nth [of i Q y] i10 len y by simp
  moreover have "y \<notin> set (Q ! j)" if "j < 11" "j \<noteq> i" for j
    using rel_disjoint [OF assms(1), of i j y] that i10 y by auto
  moreover have "y \<notin> set ys" using assms(1) i10 y by (auto simp: sched_rel_def rq_ok_def dest: spec [of _ i])
  moreover have "queued Q = insert y (set ys) \<union> {x. \<exists>j < length Q. j \<noteq> i \<and> x \<in> set (Q ! j)}"
    using queued_update [of i Q "y # ys"] i10 len list_update_id [of Q i] unfolding y by simp
  ultimately have "queued (Q[i := ys]) = queued Q - {y}"
    using queued_update [of i Q ys] i10 len by auto
  then show ?thesis using i i10 y \<open>apick 10 Q = _\<close> \<open>y \<in> queued Q\<close> by blast
qed

section \<open>Switching\<close>

lemma switch_spec:
  assumes rel: "sched_rel s Q" and vm: "vmm_frame vm" and y: "y \<notin> queued Q" "y \<noteq> NULL" "y \<noteq> current_thread s"
    and n: "thrs s y = Some n" and c: "thrs s (current_thread s) = Some c" "current_thread s \<noteq> NULL"
    and pr: "proc_at s (tparent n) \<noteq> None"
  shows "\<exists>s'. scheduler_switch vm y s = Some (Resumes (trap_frame n), s') \<and> sched_rel s' Q \<and>
    current_thread s' = y \<and> current_proc s' = tparent n \<and> procs s' = procs s \<and> iflag s' = iflag s \<and>
    thrs s' = (thrs s)(y \<mapsto> n\<lparr>tstate := STATE_RUNNING\<rparr>)"
proof -
  obtain pp where pp: "proc_at s (tparent n) = Some pp" using pr by blast
  define s1 where "s1 = (if tparent n \<noteq> tparent c then v_switch vm (dir pp) s else s)"
  have f: "queue s1 = queue s" "queue_tail s1 = queue_tail s" "thrs s1 = thrs s" "procs s1 = procs s"
    "iflag s1 = iflag s"
    using vm by (simp_all add: s1_def vmm_frame_def)
  let ?s2 = "thr_put y (n\<lparr>tstate := STATE_RUNNING\<rparr>) (s1\<lparr>current_thread := y, current_proc := tparent n\<rparr>)"
  let ?s' = "if kernel n \<noteq> NULL
    then ?s2\<lparr>gdts := tss_update_esp0 (kernel n + 4 * 1024) (gdts ?s2)\<rparr> else ?s2"
  have "scheduler_switch vm y s = Some (Resumes (trap_frame n), ?s')"
    using y n c pp f by (auto simp: scheduler_switch_def thr_at_def s1_def Let_def)
  moreover have "sched_rel ?s' Q"
    by (rule sched_rel_cong [OF rel]) (use f y in \<open>auto simp: thr_put_def\<close>)
  ultimately show ?thesis using f by (auto simp: thr_put_def)
qed

lemma cores_Some: "cores s x = Some t \<Longrightarrow> \<exists>u. thrs s x = Some u \<and> core u = t"
  by (auto simp: cores_def)

section \<open>The clock tick\<close>

lemma slice_down:
  fixes ts :: u32
  assumes "0 < ts" and "ts \<le> SLICE" and "ts \<noteq> 1"
  shows "0 < ts - 1" and "ts - 1 \<le> SLICE"
proof -
  have "unat ts \<noteq> 0" "unat ts \<le> 5" "unat ts \<noteq> 1"
    using assms by (auto simp: word_le_nat_alt word_less_nat_alt SLICE_def word_unat_eq_iff)
  moreover have "unat (ts - 1) = unat ts - 1" using assms(1) by (intro unat_minus_one) auto
  ultimately show "0 < ts - 1" "ts - 1 \<le> SLICE"
    by (simp_all add: word_less_nat_alt word_le_nat_alt SLICE_def)
qed

lemma inv_current:
  assumes "sched_inv s Q"
  shows "\<exists>t. thrs s (current_thread s) = Some t \<and> current_thread s \<noteq> NULL \<and> unat (tpriority t) < 10 \<and>
    tstate t \<noteq> STATE_TERMINATED \<and> runnable s t"
  using assms by (auto simp: sched_inv_def cores_def runnable_def)

lemma runnable_cong: "procs s' = procs s \<Longrightarrow> runnable s' t = runnable s t"
  by (simp add: runnable_def proc_at_def)

lemma runnable_core [simp]: "runnable s (core t) = runnable s t"
  by (simp add: runnable_def)

lemma sched_invI:
  assumes "sched_rel s' Q'" and "current_thread s' = y" and "y \<noteq> NULL" and "y \<notin> queued Q'"
    and "cores s' y = Some t" and "unat (tpriority t) < 10" and "tstate t \<noteq> STATE_TERMINATED"
    and "runnable s t" and "procs s' = procs s"
    and "\<And>x. x \<in> queued Q' \<Longrightarrow> \<exists>t. cores s' x = Some t \<and> time_slice t = SLICE \<and> runnable s t"
  shows "sched_inv s' Q'"
  using assms runnable_cong [OF assms(9)] by (auto simp: sched_inv_def)

lemma inv_queued:
  "sched_inv s Q \<Longrightarrow> x \<in> queued Q \<Longrightarrow> \<exists>t. cores s x = Some t \<and> time_slice t = SLICE \<and> runnable s t"
  by (auto simp: sched_inv_def)

lemma inv_rel: "sched_inv s Q \<Longrightarrow> sched_rel s Q" "sched_inv s Q \<Longrightarrow> current_thread s \<notin> queued Q"
  by (simp_all add: sched_inv_def)

lemma cores_thr_put: "cores (thr_put x t s) = (cores s)(x \<mapsto> core t)"
  by (auto simp: cores_def thr_put_def)

lemma thr_put_sel [simp]:
  "current_thread (thr_put x t s) = current_thread s" "procs (thr_put x t s) = procs s"
  "queue (thr_put x t s) = queue s" "queue_tail (thr_put x t s) = queue_tail s"
  "iflag (thr_put x t s) = iflag s" "thrs (thr_put x t s) = (thrs s)(x \<mapsto> t)"
  by (simp_all add: thr_put_def)

lemma rel_thr_put: "sched_rel s Q \<Longrightarrow> x \<notin> queued Q \<Longrightarrow> sched_rel (thr_put x t s) Q"
  by (rule sched_rel_cong) auto

lemma sched_frame_sel:
  assumes "sched_frame s t"
  shows "current_thread t = current_thread s" "procs t = procs s" "current_proc t = current_proc s"
    "process_table t = process_table s" "kmem t = kmem s" "hlog t = hlog s"
  by (subst assms [unfolded sched_frame_def]; simp)+

lemma core_tstate: "core n = core w \<Longrightarrow> core (n\<lparr>tstate := v\<rparr>) = core (w\<lparr>tstate := v\<rparr>)"
proof -
  have "core (x\<lparr>tstate := v\<rparr>) = (core x)\<lparr>tstate := v\<rparr>" for x :: thread by (simp add: core_def)
  then show "core n = core w \<Longrightarrow> core (n\<lparr>tstate := v\<rparr>) = core (w\<lparr>tstate := v\<rparr>)" by simp
qed

lemma tick_quiet:
  assumes inv: "sched_inv s Q" and t: "thrs s (current_thread s) = Some t" and more: "time_slice t \<noteq> 1"
  shows "\<exists>s'. scheduler_tick vm ctx s = Some (Returned, s') \<and> sched_inv s' Q \<and>
    current_thread s' = current_thread s \<and> procs s' = procs s \<and>
    thrs s' = (thrs s)(current_thread s \<mapsto> t\<lparr>trap_frame := ctx, time_slice := time_slice t - 1\<rparr>)"
proof -
  let ?c = "current_thread s" and ?t = "t\<lparr>trap_frame := ctx, time_slice := time_slice t - 1\<rparr>"
  let ?s = "thr_put ?c ?t s"
  have c: "?c \<noteq> NULL" "unat (tpriority t) < 10" "tstate t \<noteq> STATE_TERMINATED" "runnable s t"
    using inv_current [OF inv] t by auto
  note sl = slice_down [of "time_slice t"]
  have "scheduler_tick vm ctx s = Some (Returned, ?s)"
    using t c more sl by (simp add: scheduler_tick_def thr_at_def runnable_def Let_def)
  moreover have "sched_inv ?s Q"
  proof (rule sched_invI)
    show "sched_rel ?s Q" by (rule rel_thr_put [OF inv_rel [OF inv]])
    show "?c \<notin> queued Q" by (rule inv_rel [OF inv])
    show "runnable s (core ?t)" using c(4) more sl by (simp add: runnable_def)
    show "\<exists>t. cores ?s x = Some t \<and> time_slice t = SLICE \<and> runnable s t" if "x \<in> queued Q" for x
      using inv_queued [OF inv that] inv_rel(2) [OF inv] that by (auto simp: cores_thr_put)
  qed (use c in \<open>simp_all add: cores_thr_put\<close>)
  ultimately show ?thesis by auto
qed

lemma tick_expired:
  assumes inv: "sched_inv s Q" and vm: "vmm_frame vm" and t: "thrs s (current_thread s) = Some t"
    and out: "time_slice t = 1" and pk: "apick 10 (enq (unat (tpriority t)) (current_thread s) Q) = (y, Q')"
  shows "\<exists>s'. scheduler_tick vm ctx s =
      Some (if y = current_thread s then Returned else Resumes (trap_frame (the (thrs s y))), s') \<and>
    sched_inv s' Q' \<and> current_thread s' = y \<and> procs s' = procs s \<and> iflag s' = False \<and>
    cores s' = (cores s)(
      current_thread s \<mapsto> core (t\<lparr>trap_frame := ctx, time_slice := SLICE, tstate := STATE_READY\<rparr>),
      y \<mapsto> (if y = current_thread s then core (t\<lparr>trap_frame := ctx, time_slice := SLICE, tstate := STATE_READY\<rparr>)
            else core ((the (thrs s y))\<lparr>tstate := STATE_RUNNING\<rparr>)))"
proof -
  let ?c = "current_thread s" and ?p = "unat (tpriority t)"
  let ?t1 = "t\<lparr>trap_frame := ctx, time_slice := SLICE\<rparr>" and ?r = "core (t\<lparr>trap_frame := ctx, time_slice := SLICE, tstate := STATE_READY\<rparr>)"
  let ?s1 = "thr_put ?c ?t1 (thr_put ?c (t\<lparr>trap_frame := ctx, time_slice := 0\<rparr>) s)"
  have c: "?c \<noteq> NULL" "?p < 10" "tstate t \<noteq> STATE_TERMINATED" "runnable s t" and cq: "?c \<notin> queued Q"
    using inv_current [OF inv] t inv_rel [OF inv] by auto
  have rel1: "sched_rel ?s1 Q" by (intro rel_thr_put inv_rel(1) [OF inv] cq)
  have len: "length Q = 11" using inv_rel(1) [OF inv] by (simp add: sched_rel_def)
  have th1: "thrs ?s1 ?c = Some ?t1" by simp
  obtain s2 where s2: "scheduler_post ?c ?s1 = Some s2" "sched_rel s2 (enq ?p ?c Q)" "sched_frame ?s1 s2"
    "cores s2 = (cores ?s1)(?c \<mapsto> core (?t1\<lparr>tstate := STATE_READY\<rparr>))"
    using post_enq [OF rel1 th1 c(1) cq] c by auto
  obtain s3 where s3: "sched_pick 10 s2 = Some (y, s3)" "sched_rel s3 Q'" "sched_frame s2 s3" "cores s3 = cores s2"
    using sched_pick_apick [OF s2(2), of 10] pk by auto
  have f: "current_thread s3 = ?c" "procs s3 = procs s"
    using sched_frame_sel [OF s2(3)] sched_frame_sel [OF s3(3)] by simp_all
  have co: "cores s3 = (cores s)(?c \<mapsto> ?r)" using s3(4) s2(4) by (simp add: cores_thr_put)
  have ne: "enq ?p ?c Q ! ?p \<noteq> []" using len c by (simp add: enq_nth)
  obtain i ys where pq: "y \<in> queued (enq ?p ?c Q)" "queued Q' = queued (enq ?p ?c Q) - {y}" "i < 10"
    "enq ?p ?c Q ! i = y # ys"
    using pick_queued [OF s2(2) ne c(2)] pk by auto
  have qe: "queued (enq ?p ?c Q) = insert ?c (queued Q)" using queued_enq len c(2) by simp
  have r: "runnable s ?r" using c(4) by (simp add: runnable_def SLICE_def)
  let ?s4 = "cli s3"
  have cl: "cores ?s4 = cores s3" "current_thread ?s4 = ?c" "procs ?s4 = procs s" "thrs ?s4 = thrs s3"
    "iflag ?s4 = False" "proc_at ?s4 = proc_at s"
    using f by (auto simp: cli_def cores_def proc_at_def fun_eq_iff)
  have rel4: "sched_rel ?s4 Q'" by (rule sched_rel_cong [OF s3(2)]) (simp_all add: cli_def)
  have go: "scheduler_tick vm ctx s = (if y = NULL then Some (Returned, s3) else scheduler_switch vm y ?s4)"
    using t c out s2(1) s3(1) by (simp add: scheduler_tick_def thr_at_def Let_def PROCESS_PRI_MAX_def)
  show ?thesis
  proof (cases "y = ?c")
    case True
    have "sched_inv ?s4 Q'"
    proof (rule sched_invI [OF rel4, where y = ?c and t = ?r and s = s])
      show "\<exists>t. cores ?s4 x = Some t \<and> time_slice t = SLICE \<and> runnable s t" if "x \<in> queued Q'" for x
        using inv_queued [OF inv, of x] that pq qe True cl co by auto
    qed (use True c co cl r pq qe ready_not_terminated in simp_all)
    moreover have "scheduler_tick vm ctx s = Some (Returned, ?s4)"
      using go True c cl by (simp add: scheduler_switch_def)
    ultimately show ?thesis using True cl co by auto
  next
    case False
    then have yq: "y \<in> queued Q" using pq qe by simp
    obtain n0 where n0: "cores s y = Some n0" "time_slice n0 = SLICE" "runnable s n0"
      using inv_queued [OF inv yq] by blast
    obtain n where n: "thrs s3 y = Some n" "core n = n0" using co False n0(1) cores_Some [of s3 y n0] by auto
    obtain w where w: "thrs s y = Some w" "core w = n0" using n0(1) cores_Some by blast
    have nw: "trap_frame n = trap_frame w" "tparent n = tparent w"
      using arg_cong [OF n(2), of trap_frame] arg_cong [OF n(2), of tparent] w(2) by auto
    have "y \<in> set (Q ! i)" using pq(4) len c(2) False by (cases "i = ?p"; cases "Q ! i") (auto simp: enq_nth)
    then have y0: "y \<noteq> NULL" "unat (tpriority w) < 10"
      using rel_ready [OF inv_rel(1) [OF inv], of i y] pq(3) w(1) by (auto simp: ready_at_def)
    have cc: "thrs ?s4 (current_thread ?s4) \<noteq> None"
      using co cl(2,4) f by (auto simp: cores_def fun_eq_iff split: if_splits)
    then obtain d where d: "thrs ?s4 (current_thread ?s4) = Some d" by blast
    have "proc_at ?s4 (tparent n) \<noteq> None" using n0(3) n(2) cl(6) by (auto simp: runnable_def)
    from switch_spec [OF rel4 vm _ y0(1) _ _ d _ this, unfolded cl(2)] obtain s' where
      s': "scheduler_switch vm y ?s4 = Some (Resumes (trap_frame n), s')" "sched_rel s' Q'" "current_thread s' = y"
        "procs s' = procs s" "iflag s' = False" "thrs s' = (thrs ?s4)(y \<mapsto> n\<lparr>tstate := STATE_RUNNING\<rparr>)"
      using pq(2) False n(1) c(1) cl by auto
    have co': "cores s' = (cores s)(?c \<mapsto> ?r, y \<mapsto> core (w\<lparr>tstate := STATE_RUNNING\<rparr>))"
      using s'(6) cl(4) co core_tstate [of n w] n(2) w(2) by (auto simp: cores_def fun_eq_iff)
    have "sched_inv s' Q'"
    proof (rule sched_invI [OF s'(2,3) y0(1), where t = "core (w\<lparr>tstate := STATE_RUNNING\<rparr>)" and s = s])
      show "runnable s (core (w\<lparr>tstate := STATE_RUNNING\<rparr>))" using n0(3) w(2) by (auto simp: runnable_def)
      show "\<exists>t. cores s' x = Some t \<and> time_slice t = SLICE \<and> runnable s t" if "x \<in> queued Q'" for x
      proof (cases "x = ?c")
        case True
        then show ?thesis using co' False r by auto
      next
        case c: False
        then show ?thesis using inv_queued [OF inv, of x] that pq(2) qe co' by auto
      qed
    qed (use pq(2) co' y0 s'(4) cl ready_not_terminated in simp_all)
    then show ?thesis using go y0 s' co' False w nw by auto
  qed
qed

section \<open>Ending and waking threads\<close>

lemma switch_next:
  assumes rel: "sched_rel s Q" and vm: "vmm_frame vm" and c: "thrs s (current_thread s) = Some c" "current_thread s \<noteq> NULL"
    and pk: "apick 10 Q = (y, Q')" and ne: "Q ! p \<noteq> []" "p < 10" and cq: "current_thread s \<notin> queued Q"
    and good: "\<And>x. x \<in> queued Q \<Longrightarrow> \<exists>t. cores s x = Some t \<and> time_slice t = SLICE \<and> runnable s t"
  shows "\<exists>s'. do { (nx, s) \<leftarrow> sched_pick 10 s; if nx = NULL then None else scheduler_switch vm nx s }
      = Some (Resumes (trap_frame (the (thrs s y))), s') \<and> sched_inv s' Q' \<and> current_thread s' = y \<and>
    y \<noteq> current_thread s \<and> procs s' = procs s \<and>
    cores s' = (cores s)(y \<mapsto> core ((the (thrs s y))\<lparr>tstate := STATE_RUNNING\<rparr>))"
proof -
  let ?c = "current_thread s"
  obtain s3 where s3: "sched_pick 10 s = Some (y, s3)" "sched_rel s3 Q'" "sched_frame s s3" "cores s3 = cores s"
    using sched_pick_apick [OF rel, of 10] pk by auto
  note f = sched_frame_sel [OF s3(3)]
  obtain i ys where pq: "y \<in> queued Q" "queued Q' = queued Q - {y}" "i < 10" "Q ! i = y # ys"
    using pick_queued [OF rel ne] pk by auto
  have yc: "y \<noteq> ?c" using pq(1) cq by auto
  obtain n0 where n0: "cores s y = Some n0" "time_slice n0 = SLICE" "runnable s n0" using good [OF pq(1)] by blast
  obtain n where n: "thrs s3 y = Some n" "core n = n0" using s3(4) n0(1) cores_Some [of s3 y n0] by auto
  obtain w where w: "thrs s y = Some w" "core w = n0" using n0(1) cores_Some by blast
  have nw: "trap_frame n = trap_frame w" "tparent n = tparent w"
    using arg_cong [OF n(2), of trap_frame] arg_cong [OF n(2), of tparent] w(2) by auto
  have y0: "y \<noteq> NULL" "unat (tpriority w) < 10"
    using rel_ready [OF rel, of i y] pq(3,4) w(1) by (auto simp: ready_at_def)
  obtain d where d: "thrs s3 ?c = Some d"
    using fun_cong [OF s3(4), of ?c] c by (auto simp: cores_def)
  have "proc_at s3 (tparent n) \<noteq> None"
    using n0(3) n(2) f(2) by (auto simp: runnable_def proc_at_def)
  from switch_spec [OF s3(2) vm _ y0(1) _ _ _ _ this, unfolded f(1)] obtain s' where
    s': "scheduler_switch vm y s3 = Some (Resumes (trap_frame n), s')" "sched_rel s' Q'" "current_thread s' = y"
      "procs s' = procs s" "thrs s' = (thrs s3)(y \<mapsto> n\<lparr>tstate := STATE_RUNNING\<rparr>)"
    using pq(2) yc n(1) d c(2) f(2) by auto
  have co: "cores s' = (cores s)(y \<mapsto> core (w\<lparr>tstate := STATE_RUNNING\<rparr>))"
    using s'(5) s3(4) core_tstate [of n w] n(2) w(2) by (auto simp: cores_def fun_eq_iff)
  have "sched_inv s' Q'"
  proof (rule sched_invI [OF s'(2,3) y0(1), where t = "core (w\<lparr>tstate := STATE_RUNNING\<rparr>)" and s = s])
    show "runnable s (core (w\<lparr>tstate := STATE_RUNNING\<rparr>))" using n0(3) w(2) by (auto simp: runnable_def)
    show "\<exists>t. cores s' x = Some t \<and> time_slice t = SLICE \<and> runnable s t" if "x \<in> queued Q'" for x
      using good [of x] that pq(2) co by auto
  qed (use pq(2) co y0 s'(4) ready_not_terminated in simp_all)
  then show ?thesis using s3(1) y0 s' co yc w nw by auto
qed

lemma exit_next:
  assumes inv: "sched_inv s Q" and vm: "vmm_frame vm" and ne: "Q ! p \<noteq> []" "p < 10" and pk: "apick 10 Q = (y, Q')"
  shows "\<exists>s'. thread_exit vm s = Some (Resumes (trap_frame (the (thrs s y))), s') \<and> sched_inv s' Q' \<and>
    current_thread s' = y \<and> procs s' = procs s \<and>
    (\<exists>t. cores s' (current_thread s) = Some t \<and> tstate t = STATE_TERMINATED)"
proof -
  let ?c = "current_thread s"
  obtain t where t: "thrs s ?c = Some t" "?c \<noteq> NULL" using inv_current [OF inv] by blast
  let ?s1 = "thr_put ?c (t\<lparr>tstate := STATE_TERMINATED\<rparr>) (cli s)"
  have cs: "current_thread ?s1 = ?c" "procs ?s1 = procs s" "proc_at ?s1 = proc_at s"
    "cores ?s1 = (cores s)(?c \<mapsto> core (t\<lparr>tstate := STATE_TERMINATED\<rparr>))"
    by (auto simp: cli_def cores_def proc_at_def fun_eq_iff)
  have "sched_rel (cli s) Q" by (rule sched_rel_cong [OF inv_rel(1) [OF inv]]) (simp_all add: cli_def)
  then have rel: "sched_rel ?s1 Q" by (rule rel_thr_put [OF _ inv_rel(2) [OF inv]])
  have good: "\<exists>t. cores ?s1 x = Some t \<and> time_slice t = SLICE \<and> runnable ?s1 t" if "x \<in> queued Q" for x
    using inv_queued [OF inv that] inv_rel(2) [OF inv] that cs by (auto simp: runnable_def)
  have yq: "y \<in> queued Q" using pick_queued [OF inv_rel(1) [OF inv] ne] pk by auto
  have yc: "y \<noteq> ?c" using yq inv_rel(2) [OF inv] by auto
  then have thy: "the (thrs ?s1 y) = the (thrs s y)" by (simp add: cli_def)
  have cur: "thrs ?s1 ?c = Some (t\<lparr>tstate := STATE_TERMINATED\<rparr>)" by simp
  obtain s' where s': "do { (nx, s) \<leftarrow> sched_pick 10 ?s1; if nx = NULL then None else scheduler_switch vm nx s }
      = Some (Resumes (trap_frame (the (thrs s y))), s')" "sched_inv s' Q'" "current_thread s' = y" "procs s' = procs s"
      "cores s' = (cores ?s1)(y \<mapsto> core ((the (thrs s y))\<lparr>tstate := STATE_RUNNING\<rparr>))"
    using switch_next [OF rel vm _ _ pk ne _ good, unfolded cs(1,2) thy, OF cur t(2) inv_rel(2) [OF inv]] by blast
  have "thread_exit vm s = do { (nx, s) \<leftarrow> sched_pick 10 ?s1; if nx = NULL then None else scheduler_switch vm nx s }"
    using t by (simp add: thread_exit_def thr_at_def cli_def PROCESS_PRI_MAX_def Let_def)
  then show ?thesis using s' cs(4) yc by auto
qed

text \<open>A thread that may be posted: alive, in no queue, not the running one, with a full slice.\<close>

definition fresh_thread :: "'z procst_scheme \<Rightarrow> ptr \<Rightarrow> bool" where
  "fresh_thread s x \<longleftrightarrow> x \<noteq> current_thread s \<and> x \<noteq> NULL \<and> (\<forall>Q. sched_rel s Q \<longrightarrow> x \<notin> queued Q) \<and>
     (\<exists>t. thrs s x = Some t \<and> tstate t \<noteq> STATE_TERMINATED \<and> unat (tpriority t) < 11 \<and>
          time_slice t = SLICE \<and> runnable s t)"

lemma post_fresh:
  assumes inv: "sched_inv s Q" and fr: "fresh_thread s x"
  shows "\<exists>s' t. thrs s x = Some t \<and> scheduler_post x s = Some s' \<and> sched_inv s' (enq (unat (tpriority t)) x Q) \<and>
    current_thread s' = current_thread s"
proof -
  let ?c = "current_thread s"
  note rel = inv_rel(1) [OF inv] and cq = inv_rel(2) [OF inv]
  obtain t where t: "thrs s x = Some t" "tstate t \<noteq> STATE_TERMINATED" "unat (tpriority t) < 11"
    "time_slice t = SLICE" "runnable s t" "x \<noteq> NULL" "x \<notin> queued Q" "x \<noteq> ?c"
    using fr rel by (auto simp: fresh_thread_def)
  obtain s' where s': "scheduler_post x s = Some s'" "sched_rel s' (enq (unat (tpriority t)) x Q)" "sched_frame s s'"
    "cores s' = (cores s)(x \<mapsto> core (t\<lparr>tstate := STATE_READY\<rparr>))"
    using post_enq [OF rel t(1,6,7,2,3)] by blast
  obtain c where c: "cores s ?c = Some c" "unat (tpriority c) < 10" "tstate c \<noteq> STATE_TERMINATED" "runnable s c"
    "?c \<noteq> NULL" using inv by (auto simp: sched_inv_def)
  have len: "length Q = 11" using rel by (simp add: sched_rel_def)
  have q: "queued (enq (unat (tpriority t)) x Q) = insert x (queued Q)" using queued_enq t(3) len by simp
  have "sched_inv s' (enq (unat (tpriority t)) x Q)"
  proof (rule sched_invI [OF s'(2) _ c(5) _ _ c(2-4)])
    show "\<exists>u. cores s' y = Some u \<and> time_slice u = SLICE \<and> runnable s u"
      if "y \<in> queued (enq (unat (tpriority t)) x Q)" for y
      using inv_queued [OF inv, of y] that q s'(4) t(4,5) by (auto simp: runnable_def)
  qed (use sched_frame_sel [OF s'(3)] s'(4) t cq c q in simp_all)
  then show ?thesis using t(1) s'(1) sched_frame_sel(1) [OF s'(3)] by blast
qed

end
