(* ===== verification/SchedFair.thy ===== *)
theory SchedFair
  imports SchedInv
begin

text \<open>
  The properties of the scheduler: what every run keeps, the order in which threads get the
  processor, and the threads that never do.
\<close>

section \<open>Runs\<close>

text \<open>A step of the kernel as the scheduler sees it: a clock tick with the registers saved at \<open>ctx\<close>, a
  new thread posted, or the end of the running thread.\<close>

inductive kstep :: "'z procst_scheme vmm \<Rightarrow> 'z procst_scheme \<Rightarrow> 'z procst_scheme \<Rightarrow> bool" for vm where
  tick: "scheduler_tick vm ctx s = Some (r, s') \<Longrightarrow> kstep vm s s'"
| wake: "fresh_thread s x \<Longrightarrow> scheduler_post x s = Some s' \<Longrightarrow> kstep vm s s'"
| exit: "thread_exit vm s = Some (r, s') \<Longrightarrow> kstep vm s s'"

lemma apick_10: "n \<le> 10 \<Longrightarrow> snd (apick n Q) ! 10 = Q ! 10"
  by (induction n) auto

lemma inv_len: "sched_inv s Q \<Longrightarrow> length Q = 11"
  by (simp add: sched_inv_def sched_rel_def)

lemma tick_inv:
  assumes "sched_inv s Q" and "vmm_frame vm"
  shows "\<exists>r s' Q'. scheduler_tick vm ctx s = Some (r, s') \<and> sched_inv s' Q' \<and> Q' ! 10 = Q ! 10"
proof -
  obtain t where t: "thrs s (current_thread s) = Some t" "unat (tpriority t) < 10"
    using inv_current [OF assms(1)] by blast
  show ?thesis
  proof (cases "time_slice t = 1")
    case False
    then show ?thesis using tick_quiet [OF assms(1) t(1) False, of vm ctx] by blast
  next
    case True
    obtain y Q' where pk: "apick 10 (enq (unat (tpriority t)) (current_thread s) Q) = (y, Q')" by fastforce
    have "Q' ! 10 = Q ! 10"
      using apick_10 [of 10 "enq (unat (tpriority t)) (current_thread s) Q"] pk t(2) inv_len [OF assms(1)]
      by (simp add: enq_nth)
    then show ?thesis using tick_expired [OF assms t(1) True pk, of ctx] by auto
  qed
qed

lemma exit_inv:
  assumes "sched_inv s Q" and "vmm_frame vm" and "thread_exit vm s = Some (r, s')"
  shows "\<exists>Q'. sched_inv s' Q' \<and> Q' ! 10 = Q ! 10"
proof (cases "\<exists>p < 10. Q ! p \<noteq> []")
  case True
  then obtain p where p: "Q ! p \<noteq> []" "p < 10" by blast
  obtain y Q' where pk: "apick 10 Q = (y, Q')" by fastforce
  have "Q' ! 10 = Q ! 10" using apick_10 [of 10 Q] pk by simp
  then show ?thesis using exit_next [OF assms(1,2) p pk] assms(3) by auto
next
  case False
  let ?c = "current_thread s"
  have e: "apick n Q = (NULL, Q)" if "n \<le> 10" for n using that False by (induction n) auto
  obtain t where t: "thrs s ?c = Some t" "?c \<noteq> NULL" using inv_current [OF assms(1)] by blast
  let ?s1 = "thr_put ?c (t\<lparr>tstate := STATE_TERMINATED\<rparr>) (cli s)"
  have "sched_rel (cli s) Q" by (rule sched_rel_cong [OF inv_rel(1) [OF assms(1)]]) (simp_all add: cli_def)
  then have "sched_rel ?s1 Q" by (rule rel_thr_put [OF _ inv_rel(2) [OF assms(1)]])
  from sched_pick_apick [OF this, of 10] e have "\<exists>s2. sched_pick 10 ?s1 = Some (NULL, s2)" by auto
  then have "thread_exit vm s = None"
    using t by (auto simp: thread_exit_def thr_at_def cli_def PROCESS_PRI_MAX_def Let_def)
  then show ?thesis using assms(3) by simp
qed

lemma enq_10: "length Q = 11 \<Longrightarrow> p < 11 \<Longrightarrow> set (Q ! 10) \<subseteq> set (enq p x Q ! 10)"
  by (auto simp: enq_nth)

inductive_cases kstepE: "kstep vm s s'"

lemma kstep_inv:
  assumes "kstep vm s s'" and "sched_inv s Q" and "vmm_frame vm"
  shows "\<exists>Q'. sched_inv s' Q' \<and> set (Q ! 10) \<subseteq> set (Q' ! 10)"
  using assms(1)
proof (rule kstepE)
  fix ctx r
  assume "scheduler_tick vm ctx s = Some (r, s')"
  then show ?thesis using tick_inv [OF assms(2,3), of ctx] by fastforce
next
  fix x
  assume x: "fresh_thread s x" "scheduler_post x s = Some s'"
  obtain u t where u: "thrs s x = Some t" "scheduler_post x s = Some u" "sched_inv u (enq (unat (tpriority t)) x Q)"
    using post_fresh [OF assms(2) x(1)] by blast
  have "unat (tpriority t) < 11" using x(1) u(1) by (auto simp: fresh_thread_def)
  then show ?thesis using u x(2) enq_10 [OF inv_len [OF assms(2)]] by auto
next
  fix r
  assume "thread_exit vm s = Some (r, s')"
  then show ?thesis using exit_inv [OF assms(2,3)] by fastforce
qed

lemma run_inv:
  assumes "(kstep vm)\<^sup>*\<^sup>* s s'" and "sched_inv s Q" and "vmm_frame vm"
  shows "\<exists>Q'. sched_inv s' Q' \<and> set (Q ! 10) \<subseteq> set (Q' ! 10)"
  using assms(1)
proof (induction rule: rtranclp_induct)
  case base
  then show ?case using assms(2) by blast
next
  case (step t u)
  then show ?case using kstep_inv [OF step.hyps(2) _ assms(3)] by (meson subset_trans)
qed

section \<open>Rounds\<close>

text \<open>Clock ticks, each with the address its registers were saved at.\<close>

primrec run_ticks :: "'z procst_scheme vmm \<Rightarrow> ptr list \<Rightarrow> 'z procst_scheme \<Rightarrow> 'z procst_scheme option" where
  "run_ticks vm [] s = Some s"
| "run_ticks vm (c # cs) s = do { (r, s) \<leftarrow> scheduler_tick vm c s; run_ticks vm cs s }"

lemma run_ticks_append: "run_ticks vm (cs @ ds) s = do { s \<leftarrow> run_ticks vm cs s; run_ticks vm ds s }"
  by (induction cs arbitrary: s) (auto split: Option.bind_split prod.splits)

text \<open>The running thread: its priority and what is left of its slice.\<close>

definition running :: "'z procst_scheme \<Rightarrow> nat \<Rightarrow> nat \<Rightarrow> bool" where
  "running s p n \<longleftrightarrow> (case thrs s (current_thread s) of None \<Rightarrow> False
     | Some t \<Rightarrow> unat (tpriority t) = p \<and> unat (time_slice t) = n)"

lemma running_cores:
  "cores s (current_thread s) = Some t \<Longrightarrow> running s p n \<longleftrightarrow> unat (tpriority t) = p \<and> unat (time_slice t) = n"
  by (auto simp: running_def cores_def)

lemma quiet_run:
  assumes "sched_inv s Q" and "running s p (n + length cs)" and "0 < n"
  shows "\<exists>s'. run_ticks vm cs s = Some s' \<and> sched_inv s' Q \<and> current_thread s' = current_thread s \<and> running s' p n"
  using assms
proof (induction cs arbitrary: s)
  case (Cons c cs)
  obtain t where t: "thrs s (current_thread s) = Some t" "unat (tpriority t) = p"
    "unat (time_slice t) = Suc (n + length cs)"
    using Cons.prems(2) by (auto simp: running_def split: option.splits)
  have ne: "time_slice t \<noteq> 1" "time_slice t \<noteq> 0" using t(3) Cons.prems(3) by auto
  obtain s1 where s1: "scheduler_tick vm c s = Some (Returned, s1)" "sched_inv s1 Q"
    "current_thread s1 = current_thread s"
    "thrs s1 = (thrs s)(current_thread s \<mapsto> t\<lparr>trap_frame := c, time_slice := time_slice t - 1\<rparr>)"
    using tick_quiet [OF Cons.prems(1) t(1) ne(1), of vm c] by blast
  have "running s1 p (n + length cs)" using s1(3,4) t ne by (simp add: running_def unat_minus_one)
  from Cons.IH [OF s1(2) this Cons.prems(3)] show ?case using s1(1,3) by auto
qed simp

lemma expire_rotates:
  assumes inv: "sched_inv s Q" and vm: "vmm_frame vm" and run: "running s p 1" and top: "top_at p Q"
    and rot: "rotate1 (current_thread s # Q ! p) = y # ys"
  shows "\<exists>r s'. scheduler_tick vm ctx s = Some (r, s') \<and> sched_inv s' (Q[p := ys]) \<and> current_thread s' = y
    \<and> running s' p 5"
proof -
  let ?c = "current_thread s"
  obtain t where t: "thrs s ?c = Some t" "unat (tpriority t) = p" "time_slice t = 1"
    using run by (auto simp: running_def word_unat_eq_iff split: option.splits)
  have p: "p < 10" and len: "length Q = 11" using top inv_len [OF inv] by (auto simp: top_at_def)
  have nth: "enq p ?c Q ! p = y # ys" using rot len p by (simp add: enq_nth)
  have "top_at p (enq p ?c Q)" using top len p by (auto simp: top_at_def enq_nth)
  from apick_top [OF this p _ nth] have pk: "apick 10 (enq (unat (tpriority t)) ?c Q) = (y, Q[p := ys])"
    using t(2) by (simp add: enq_def)
  obtain r s' where s': "scheduler_tick vm ctx s = Some (r, s')" "sched_inv s' (Q[p := ys])" "current_thread s' = y"
    "cores s' y = Some (if y = ?c then core (t\<lparr>trap_frame := ctx, time_slice := SLICE, tstate := STATE_READY\<rparr>)
            else core ((the (thrs s y))\<lparr>tstate := STATE_RUNNING\<rparr>))"
    using tick_expired [OF inv vm t(1,3) pk, of ctx] by auto
  have "running s' p 5"
  proof (cases "y = ?c")
    case True
    then show ?thesis using s'(3,4) t(2) running_cores [of s'] by (simp add: SLICE_def)
  next
    case False
    then have y: "y \<in> set (Q ! p)" using rot by (cases "Q ! p") auto
    then obtain u where u: "cores s y = Some u" "time_slice u = SLICE"
      using inv_queued [OF inv, of y] queued_nth [of p Q y] p len by auto
    then obtain w where w: "thrs s y = Some w" "core w = u" using cores_Some by blast
    have "unat (tpriority w) = p" using rel_ready [OF inv_rel(1) [OF inv], of p y] y p w(1) by (simp add: ready_at_def)
    moreover have "time_slice w = SLICE" using u(2) w(2) by auto
    ultimately show ?thesis using s'(3,4) w(1) False running_cores [of s'] by (simp add: SLICE_def)
  qed
  then show ?thesis using s' by blast
qed

text \<open>A whole slice: four quiet ticks and the one that switches.\<close>

lemma slice_rotates:
  assumes inv: "sched_inv s Q" and vm: "vmm_frame vm" and run: "running s p 5" and top: "top_at p Q"
    and rot: "rotate1 (current_thread s # Q ! p) = y # ys" and five: "length cs = 5"
  shows "\<exists>s'. run_ticks vm cs s = Some s' \<and> sched_inv s' (Q[p := ys]) \<and> current_thread s' = y \<and> running s' p 5"
proof -
  obtain ds d where cs: "cs = ds @ [d]" "length ds = 4"
    using five by (cases cs rule: rev_cases) auto
  obtain s1 where s1: "run_ticks vm ds s = Some s1" "sched_inv s1 Q" "current_thread s1 = current_thread s" "running s1 p 1"
    using quiet_run [OF inv, of p 1 ds vm] run cs(2) by auto
  obtain r s2 where "scheduler_tick vm d s1 = Some (r, s2)" "sched_inv s2 (Q[p := ys])" "current_thread s2 = y" "running s2 p 5"
    using expire_rotates [OF s1(2) vm s1(4) top, of y ys d] rot s1(3) by auto
  then show ?thesis using s1(1) cs(1) by (simp add: run_ticks_append)
qed

lemma rounds:
  assumes "sched_inv s Q" and vm: "vmm_frame vm" and "running s p 5" and "top_at p Q" and "length cs = 5 * n"
  shows "\<exists>s'. run_ticks vm cs s = Some s' \<and> current_thread s' = hd (rotate n (current_thread s # Q ! p))"
  using assms(1,3-5)
proof (induction n arbitrary: s Q cs)
  case 0
  then show ?case by simp
next
  case (Suc n)
  let ?l = "current_thread s # Q ! p"
  obtain y ys where rot: "rotate1 ?l = y # ys" by (cases "rotate1 ?l") auto
  obtain s1 where s1: "run_ticks vm (take 5 cs) s = Some s1" "sched_inv s1 (Q[p := ys])" "current_thread s1 = y" "running s1 p 5"
    using slice_rotates [OF Suc.prems(1) vm Suc.prems(2,3) rot, of "take 5 cs"] Suc.prems(4) by auto
  have p: "p < 10" "length Q = 11" using Suc.prems(3) inv_len [OF Suc.prems(1)] by (auto simp: top_at_def)
  have "top_at p (Q[p := ys])" using Suc.prems(3) by (auto simp: top_at_def)
  from Suc.IH [OF s1(2,4) this, of "drop 5 cs"] obtain s2 where
    s2: "run_ticks vm (drop 5 cs) s1 = Some s2" "current_thread s2 = hd (rotate n (y # ys))"
    using Suc.prems(4) s1(3) p by auto
  have "rotate (Suc n) ?l = rotate n (y # ys)" using rot by (simp add: rotate1_rotate_swap)
  then show ?case using s1(1) s2 run_ticks_append [of vm "take 5 cs" "drop 5 cs" s] by simp
qed

end
