(* ===== verification/SchedDemo.thy ===== *)
theory SchedDemo
  imports SchedFair
begin

text \<open>
  A small concrete kernel state, on which the properties of the scheduler and of the processes are
  evaluated: one process, a running thread, two ready ones of its priority and one of priority 10.
\<close>

definition blank_kernel :: procst where
  "blank_kernel = \<lparr>kmem = \<lambda>a. if a < 0x10000 then Some 0 else None, hlog = [], io = [], irq_table = Map.empty,
     ticks = 0, freq = 0, fdc_irq_fired = 0, serial_mode_intr = False,
     block_devices = None, num_block_devices = 0, max_block_devices = 0, bdev_heap = Map.empty,
     bops_heap = Map.empty, fdc_current_drive = 0, vnodes = Map.empty, vfss = Map.empty,
     handles = Map.empty, inodes = Map.empty, mountpoints = NULL, curr_size = 0, vfs_root_vnode = NULL,
     files = Map.empty, vnode_opss = Map.empty, fs_types = Map.empty,
     current_proc = NULL, current_thread = NULL, process_table = replicate 128 NULL, current_pid = 1,
     current_tid = 1, queue = replicate 11 NULL, queue_tail = replicate 11 NULL, procs = Map.empty,
     thrs = Map.empty, pdirs = Map.empty, iflag = True,
     gdts = \<lparr>gdt = [], gdt_ptr = \<lparr>gp_limit = 0, gp_base = 0\<rparr>, current_tss = tss_zero, gdtr = 0,
       task_reg = 0\<rparr>\<rparr>"

definition demo_thread :: "u32 \<Rightarrow> u32 \<Rightarrow> ptr \<Rightarrow> ptr \<Rightarrow> thread" where
  "demo_thread prio st nx nr = \<lparr>tid = 1, tpriority = prio, tstate = st, tparent = 0x2000, kernel = NULL,
     time_slice = SLICE, trap_frame = 0x5000, tnext = nx, next_ready = nr\<rparr>"

definition demo_sched :: procst where
  "demo_sched = blank_kernel\<lparr>
     current_proc := 0x2000, current_thread := 0x1000,
     procs := [0x2000 \<mapsto> \<lparr>Pid = 1, threads = 0x1000, priority = 5, dir = 0x3000, pstate = STATE_RUNNING\<rparr>],
     thrs := [0x1000 \<mapsto> demo_thread 5 STATE_RUNNING 0x1100 NULL, 0x1100 \<mapsto> demo_thread 5 STATE_READY 0x1200 0x1200,
              0x1200 \<mapsto> demo_thread 5 STATE_READY 0x1300 NULL, 0x1300 \<mapsto> demo_thread 10 STATE_READY NULL NULL],
     queue := (replicate 11 NULL)[5 := 0x1100, 10 := 0x1300],
     queue_tail := (replicate 11 NULL)[5 := 0x1200, 10 := 0x1300]\<rparr>"

definition demo_queues :: "ptr list list" where
  "demo_queues = [[], [], [], [], [], [0x1100, 0x1200], [], [], [], [], [0x1300]]"

definition demo_vmm :: "'z procst_scheme vmm" where
  "demo_vmm = \<lparr>v_create = \<lambda>s. (0x3000, s), v_kerneldir = \<lambda>s. 0x3000, v_clone = \<lambda>s. (0x3000, s),
     v_switch = \<lambda>d s. s, v_alloc_region = \<lambda>d a n f s. (True, s), v_free_region = \<lambda>d a n s. s\<rparr>"

lemma demo_vmm_frame: "vmm_frame demo_vmm"
  by (simp add: vmm_frame_def demo_vmm_def)

lemmas demo_sched_defs = demo_sched_def blank_kernel_def demo_thread_def SLICE_def
  STATE_READY_def STATE_RUNNING_def STATE_TERMINATED_def

lemma demo_queued: "queued demo_queues = {0x1100, 0x1200, 0x1300}"
  by (auto simp: queued_def demo_queues_def)

lemma all_less_11: "(\<forall>i < 11. P i) \<longleftrightarrow> P 0 \<and> P 1 \<and> P 2 \<and> P 3 \<and> P 4 \<and> P 5 \<and> P 6 \<and> P 7 \<and> P 8 \<and> P 9 \<and> P (10::nat)"
  by (simp add: numeral_eq_Suc All_less_Suc2)

lemma demo_rel: "sched_rel demo_sched demo_queues"
  unfolding sched_rel_def rq_ok_def ready_at_def demo_queues_def
  by (simp add: demo_sched_defs all_less_11)

lemma demo_sched_inv: "sched_inv demo_sched demo_queues"
  unfolding sched_inv_def demo_queued
  by (intro conjI demo_rel)
    (simp_all add: demo_sched_defs cores_def runnable_def proc_at_def core_def)

lemma demo_running: "running demo_sched 5 5" "demo_queues ! 5 = [0x1100, 0x1200]" "demo_queues ! 10 = [0x1300]"
  by (simp_all add: running_def demo_sched_defs demo_queues_def)

lemma demo_top: "top_at 5 demo_queues"
proof -
  have "\<forall>j < 11. 5 < j \<longrightarrow> j < 10 \<longrightarrow> demo_queues ! j = []"
    unfolding all_less_11 by (simp add: demo_queues_def)
  then show ?thesis by (simp add: top_at_def)
qed

lemma blank_mapped:
  assumes "unat p + n \<le> 0x10000"
  shows "mapped (kmem blank_kernel) p n"
  unfolding mapped_iff
proof (intro allI impI)
  fix i
  assume "i < n"
  then have "unat p + i < 0x10000" using assms by simp
  moreover from this have "unat (p + of_nat i) = unat p + i" by (simp add: unat_word_ariths unat_of_nat32)
  ultimately have "p + of_nat i < 0x10000" by (simp add: word_less_nat_alt)
  then show "kmem blank_kernel (p + of_nat i) \<noteq> None" by (simp add: blank_kernel_def)
qed

lemma demo_sched_kmem: "kmem demo_sched = kmem blank_kernel"
  by (simp add: demo_sched_def)

lemma demo_current: "current_thread demo_sched = 0x1000"
  by (simp add: demo_sched_defs)

end
