(* ===== verification/VfsProps.thy ===== *)
theory VfsProps
  imports SchedDemo
begin

text \<open>
  The virtual file system and the ELF loader: what the mount table holds, how a path is resolved, what an
  identification must be for a file to be loaded, and what loading a segment does.
\<close>

section \<open>The mount table\<close>



section \<open>Resolving a path\<close>

text \<open>The mount table as a list of names and roots, free entries \<open>None\<close>; of several file systems
  mounted under one name the last one counts.\<close>

definition mount_entry :: "mem \<Rightarrow> (ptr \<Rightarrow> vfs_fs option) \<Rightarrow> ptr \<Rightarrow> (u8 list \<times> ptr) option \<Rightarrow> bool" where
  "mount_entry m vs e t \<longleftrightarrow> (case t of None \<Rightarrow> e = NULL | Some (nm, root) \<Rightarrow>
     e \<noteq> NULL \<and> (\<exists>v. vs e = Some v \<and> cstr m (vcovered v) nm \<and> vroot v = root))"

definition mount_table :: "mem \<Rightarrow> (ptr \<Rightarrow> vfs_fs option) \<Rightarrow> ptr \<Rightarrow> (u8 list \<times> ptr) option list \<Rightarrow> bool" where
  "mount_table m vs tbl ts \<longleftrightarrow> (\<forall>i < length ts. \<exists>e. ld32 m (tbl + 4 * of_nat i) = Some e \<and> mount_entry m vs e (ts ! i))"

fun mp_lookup :: "(u8 list \<times> ptr) option list \<Rightarrow> u8 list \<Rightarrow> ptr \<Rightarrow> ptr" where
  "mp_lookup [] nm r = r"
| "mp_lookup (None # ts) nm r = mp_lookup ts nm r"
| "mp_lookup (Some (nm', root) # ts) nm r = mp_lookup ts nm (if nm' = nm then root else r)"

lemma mp_find_lookup:
  assumes "mount_table m vs tbl ts" and "cstr m token nm" and "length ts < 2 ^ 32" and "k \<le> length ts"
  shows "mp_find m vs tbl (of_nat (length ts)) token (of_nat k) r = Some (mp_lookup (drop k ts) nm r)"
  using assms(4)
proof (induction "length ts - k" arbitrary: k r)
  case 0
  then show ?case by (subst mp_find.simps) simp
next
  case (Suc n)
  then have k: "k < length ts" by simp
  then have lt: "(of_nat k :: u32) < of_nat (length ts)"
    using assms(3) by (simp add: word_less_nat_alt unat_of_nat32)
  have next_: "(of_nat k :: u32) + 1 = of_nat (Suc k)" by simp
  obtain e where e: "ld32 m (tbl + 4 * of_nat k) = Some e" "mount_entry m vs e (ts ! k)"
    using assms(1) k by (auto simp: mount_table_def)
  have drop: "drop k ts = ts ! k # drop (Suc k) ts" by (rule Cons_nth_drop_Suc [symmetric, OF k])
  note IH = Suc.hyps(1) [of "Suc k"]
  show ?case
  proof (cases "ts ! k")
    case None
    then show ?thesis
      using IH Suc.hyps(2) k e lt drop by (subst mp_find.simps) (simp add: mount_entry_def next_ del: of_nat_Suc)
  next
    case (Some t)
    obtain nm' root where t: "t = (nm', root)" by fastforce
    then obtain v where v: "e \<noteq> NULL" "vs e = Some v" "cstr m (vcovered v) nm'" "vroot v = root"
      using e(2) Some by (auto simp: mount_entry_def)
    have "strcmp m (vcovered v) token = Some (cmp_bytes nm' nm)" by (rule strcmp_cmp_bytes [OF v(3) assms(2)])
    moreover have "cmp_bytes nm' nm = 0 \<longleftrightarrow> nm' = nm"
      by (rule cmp_bytes_eq_0) (use v(3) assms(2) in \<open>auto simp: cstr_iff_fetch\<close>)
    ultimately show ?thesis
      using IH Suc.hyps(2) k e lt drop v Some t
      by (subst mp_find.simps) (simp add: next_ del: of_nat_Suc)
  qed
qed

definition cut_path :: "ptr \<Rightarrow> u8 list \<Rightarrow> mem \<Rightarrow> mem" where
  "cut_path path tok m = m(path + 1 + of_nat (length tok) \<mapsto> 0)"

lemma first_token:
  assumes "path \<noteq> NULL" and p: "cstr m path (47 # tok @ 47 # rest)" and tok: "tok \<noteq> []" "47 \<notin> set tok"
    and sl: "cstr m slash [47]"
  shows "strtok_r m path slash NULL = Some (path + 1, path + 1 + of_nat (length tok) + 1, cut_path path tok m)"
    and "cstr (cut_path path tok m) (path + 1) tok" and "cstr (cut_path path tok m) path (47 # tok)"
    and "cstr (cut_path path tok m) (path + 1 + of_nat (length tok) + 1) rest"
proof -
  have "takeWhile (\<lambda>c. c \<in> set [47]) (47 # tok @ 47 # rest) = [47]"
    "dropWhile (\<lambda>c. c \<in> set [47]) (47 # tok @ 47 # rest) = tok @ 47 # rest"
    using tok by (cases tok; simp)+
  moreover have "takeWhile (\<lambda>c. c \<notin> set [47]) (tok @ 47 # rest) = tok"
    using tok(2) by (subst takeWhile_append2) auto
  ultimately show "strtok_r m path slash NULL = Some (path + 1, path + 1 + of_nat (length tok) + 1, cut_path path tok m)"
    using strtok_r_spec [OF assms(1) p sl] tok(1) by (simp add: cut_path_def Let_def)
  have c1: "cstr m (path + 1) (tok @ 47 # rest)" using p by simp
  show "cstr (cut_path path tok m) (path + 1) tok"
    and "cstr (cut_path path tok m) (path + 1 + of_nat (length tok) + 1) rest"
    unfolding cut_path_def by (rule cstr_cut [OF c1])+
  have e: "path + of_nat (length (47 # tok)) = path + 1 + of_nat (length tok)" by simp
  show "cstr (cut_path path tok m) path (47 # tok)"
    unfolding cut_path_def e [symmetric] by (rule cstr_cut(1) [where c = 47 and t = rest]) (use p in simp)
qed

lemma vfs_open_found:
  assumes path: "path \<noteq> NULL" "cstr (kmem s) path (47 # tok @ 47 # rest)" "tok \<noteq> []" "47 \<notin> set tok"
      "cstr (kmem s) slash [47]"
    and tbl: "mount_table (cut_path path tok (kmem s)) (vfss s) (mountpoints s) ts" "curr_size s = of_nat (length ts)"
      "length ts < 2 ^ 32"
    and root: "mp_lookup ts tok NULL = root" "root \<noteq> NULL" "vnodes s root = Some n" "vnode_opss s (vops n) = Some ops"
    and call: "c_open calls (vo_open ops) root (path + 1 + of_nat (length tok) + 1) flags
      (s\<lparr>kmem := cut_path path tok (kmem s)\<rparr>) = Some (node, s1)"
    and fp: "alloc (hlog s1) SIZEOF_FILE = fp" "fp \<noteq> NULL"
  shows "vfs_open calls alloc slash path flags s = Some (fp, s1\<lparr>hlog := Malloc SIZEOF_FILE fp # hlog s1,
      files := (files s1)(fp \<mapsto> \<lparr>f_vnode_ptr = node, f_offset = 0, f_flags = flags\<rparr>)\<rparr>)"
proof -
  note tk = first_token [OF path]
  have "mp_find (cut_path path tok (kmem s)) (vfss s) (mountpoints s) (curr_size s) (path + 1) 0 NULL = Some root"
    using mp_find_lookup [OF tbl(1) tk(2) tbl(3), of 0 NULL] tbl(2) root(1) by simp
  then show ?thesis
    using tk(1) root fp call by (simp add: vfs_open_def malloc_def Let_def)
qed

text \<open>C22: opening \<open>/mount/rest\<close> finds the file system mounted last under the name up to the second
  slash, passes the rest of the path to its open operation with its root, and returns a file on the node that
  operation returns, at offset 0.\<close>

theorem vfs_open_resolves:
  assumes path: "path \<noteq> NULL" "cstr (kmem s) path (47 # tok @ 47 # rest)" "tok \<noteq> []" "47 \<notin> set tok"
      "cstr (kmem s) slash [47]"
    and tbl: "mount_table (cut_path path tok (kmem s)) (vfss s) (mountpoints s) ts" "curr_size s = of_nat (length ts)"
      "length ts < 2 ^ 32"
    and root: "mp_lookup ts tok NULL = root" "root \<noteq> NULL" "vnodes s root = Some n" "vnode_opss s (vops n) = Some ops"
    and call: "c_open calls (vo_open ops) root (path + 1 + of_nat (length tok) + 1) flags
      (s\<lparr>kmem := cut_path path tok (kmem s)\<rparr>) = Some (node, s1)"
    and fp: "alloc (hlog s1) SIZEOF_FILE = fp" "fp \<noteq> NULL"
  shows "\<exists>s2. vfs_open calls alloc slash path flags s = Some (fp, s2) \<and>
    files s2 fp = Some \<lparr>f_vnode_ptr = node, f_offset = 0, f_flags = flags\<rparr> \<and> kmem s2 = kmem s1 \<and>
    cstr (cut_path path tok (kmem s)) (path + 1 + of_nat (length tok) + 1) rest"
  using vfs_open_found [where s = s and ?s1.0 = s1 and calls = calls and alloc = alloc, OF path tbl root call fp]
    first_token(4) [OF path] by simp

definition demo_mem :: mem where
  "demo_mem = (kmem blank_kernel)(0x100 \<mapsto> 47, 0x101 \<mapsto> 97, 0x102 \<mapsto> 47, 0x103 \<mapsto> 98, 0x200 \<mapsto> 47,
     0x301 \<mapsto> 4, 0x500 \<mapsto> 97)"

definition demo_mounted :: procst where
  "demo_mounted = blank_kernel\<lparr>kmem := demo_mem, mountpoints := 0x300, curr_size := 1,
     vfss := [0x400 \<mapsto> \<lparr>fs_type_of = NULL, vcovered = 0x500, vroot = 0x700, fs_data = NULL\<rparr>],
     vnodes := [0x700 \<mapsto> \<lparr>vfs_mountedhere = NULL, vfs_ptr = 0x400, vtype = V_DIRECTORY, vops = 0x800, vflags = 0,
       vdata = NULL\<rparr>],
     vnode_opss := [0x800 \<mapsto> \<lparr>vo_open = 0xC0101000, vo_close = 0, vo_read = 0, vo_write = 0, vo_readdir = 0\<rparr>]\<rparr>"

lemmas demo_mounted_defs = demo_mounted_def demo_mem_def blank_kernel_def

lemma demo_path: "cstr (kmem demo_mounted) 0x100 (47 # [97] @ 47 # [98])" "cstr (kmem demo_mounted) 0x200 [47]"
  by (simp_all add: demo_mounted_defs)

lemma demo_table:
  "mount_table (cut_path 0x100 [97] (kmem demo_mounted)) (vfss demo_mounted) (mountpoints demo_mounted) [Some ([97], 0x700)]"
  by (simp add: mount_table_def mount_entry_def cut_path_def demo_mounted_defs ld32_def le32_def)

theorem vfs_open_resolves_witness:
  "\<exists>s2. vfs_open \<lparr>c_mount = \<lambda>f d s. None, c_open = \<lambda>f n p fl s. Some (0x900, s), c_read = \<lambda>f n o1 k b s. None\<rparr>
      (pool [0xA000]) 0x200 0x100 3 demo_mounted = Some (0xA000, s2) \<and>
    files s2 0xA000 = Some \<lparr>f_vnode_ptr = 0x900, f_offset = 0, f_flags = 3\<rparr>"
proof -
  have d: "curr_size demo_mounted = of_nat (length [Some ([97 :: u8], 0x700 :: ptr)])"
    "vnodes demo_mounted 0x700 = Some \<lparr>vfs_mountedhere = NULL, vfs_ptr = 0x400, vtype = V_DIRECTORY, vops = 0x800,
       vflags = 0, vdata = NULL\<rparr>"
    "vnode_opss demo_mounted 0x800 = Some \<lparr>vo_open = 0xC0101000, vo_close = 0, vo_read = 0, vo_write = 0, vo_readdir = 0\<rparr>"
    "hlog demo_mounted = []"
    by (simp_all add: demo_mounted_defs)
  show ?thesis
    using vfs_open_resolves [OF _ demo_path(1) _ _ demo_path(2) demo_table d(1) _ _ _ d(2), where
        ops = "\<lparr>vo_open = 0xC0101000, vo_close = 0, vo_read = 0, vo_write = 0, vo_readdir = 0\<rparr>" and flags = 3 and alloc = "pool [0xA000]" and fp = "0xA000"
        and node = "0x900" and calls = "\<lparr>c_mount = \<lambda>f d s. None, c_open = \<lambda>f n p fl s. Some (0x900, s), c_read = \<lambda>f n o1 k b s. None\<rparr>"]
    by (auto simp: d pool_def)
qed

text \<open>Opening a path under a name that nothing is mounted at returns NULL, and leaves the caller's
  path, declared \<open>const\<close>, cut short at the second slash.\<close>

lemma vfs_open_unmounted:
  assumes path: "path \<noteq> NULL" "cstr (kmem s) path (47 # tok @ 47 # rest)" "tok \<noteq> []" "47 \<notin> set tok"
      "cstr (kmem s) slash [47]"
    and tbl: "mount_table (cut_path path tok (kmem s)) (vfss s) (mountpoints s) ts" "curr_size s = of_nat (length ts)"
      "length ts < 2 ^ 32"
    and none: "mp_lookup ts tok NULL = NULL"
  shows "\<exists>s'. vfs_open calls alloc slash path flags s = Some (NULL, s') \<and> files s' = files s \<and>
    hlog s' = hlog s \<and> cstr (kmem s') path (47 # tok)"
proof -
  note tk = first_token [OF path]
  have "mp_find (cut_path path tok (kmem s)) (vfss s) (mountpoints s) (curr_size s) (path + 1) 0 NULL = Some NULL"
    using mp_find_lookup [OF tbl(1) tk(2) tbl(3), of 0 NULL] tbl(2) none by simp
  then show ?thesis using tk(1,3) by (simp add: vfs_open_def)
qed

lemma vfs_open_unmounted_witness:
  "\<exists>s'. vfs_open \<lparr>c_mount = \<lambda>f d s. None, c_open = \<lambda>f n p fl s. None, c_read = \<lambda>f n o1 k b s. None\<rparr>
      (pool [0xA000]) 0x200 0x100 0 (demo_mounted\<lparr>curr_size := 0\<rparr>) = Some (NULL, s') \<and> cstr (kmem s') 0x100 [47, 97]"
proof -
  let ?s = "demo_mounted\<lparr>curr_size := 0\<rparr>"
  have d: "cstr (kmem ?s) 0x100 (47 # [97] @ 47 # [98])" "cstr (kmem ?s) 0x200 [47]" using demo_path by simp_all
  show ?thesis
    using vfs_open_unmounted [OF _ d(1) _ _ d(2), of "[]" "\<lparr>c_mount = \<lambda>f d s. None, c_open = \<lambda>f n p fl s. None, c_read = \<lambda>f n o1 k b s. None\<rparr>"
        "pool [0xA000]" 0]
    by (auto simp: mount_table_def)
qed

section \<open>The ELF header\<close>

lemma elf_check_hdr_bytes:
  assumes "fetch m hdr 48 = Some bs"
  shows "elf_check_hdr m hdr = Some (take 6 bs = [0x7F, 69, 76, 70, 1, 1] \<and> le16 (bs ! 16) (bs ! 17) = 2)"
proof -
  have at: "m (hdr + of_nat i) = Some (bs ! i)" if "i < 48" for i using assms that unfolding fetch_iff by blast
  have len: "length bs = 48" using assms by (simp add: fetch_length)
  have ty: "e_type m hdr = Some (le16 (bs ! 16) (bs ! 17))"
    using at [of 16] at [of 17] by (simp add: e_type_def ld16_le16 add.assoc)
  have six: "take 6 bs = [bs ! 0, bs ! 1, bs ! 2, bs ! 3, bs ! 4, bs ! 5]"
    using len by (intro nth_equalityI) (auto simp: less_Suc_eq numeral_eq_Suc)
  show ?thesis
    using at [of 0] at [of 1] at [of 2] at [of 3] at [of 4] at [of 5] unfolding six
    by (simp add: elf_check_hdr_def ty ELF_TYPE_EXEC_def ELF_CLASS_32_def ELF_DATA_LSB_def)
qed

text \<open>C28: the header check accepts exactly the headers that start with the ELF magic, are of class 32 and
  little-endian, and are of an executable; machine, version and sizes are not looked at.\<close>

theorem elf_check_hdr_exact:
  assumes "fetch m hdr 48 = Some bs"
  shows "elf_check_hdr m hdr = Some (take 6 bs = [0x7F, 69, 76, 70, 1, 1] \<and> le16 (bs ! 16) (bs ! 17) = 2)"
  by (rule elf_check_hdr_bytes [OF assms])

theorem elf_check_hdr_exact_witness:
  "elf_check_hdr (put Map.empty 0x1000 ([0x7F, 69, 76, 70, 1, 1] @ replicate 10 0 @ [2, 0] @ replicate 30 0)) 0x1000 = Some True"
proof -
  let ?b = "[0x7F, 69, 76, 70, 1, 1] @ replicate 10 0 @ [2, 0] @ replicate 30 0 :: u8 list"
  have "fetch (put Map.empty 0x1000 ?b) 0x1000 48 = Some ?b"
    using fetch_put_same [of ?b Map.empty "0x1000"] by (simp only: length_append length_replicate list.size) simp
  from elf_check_hdr_exact [OF this] show ?thesis by (simp add: nth_append le16_def)
qed

end
