(* ===== verification/ElfMem.thy ===== *)
theory ElfMem
  imports FileIO Fat12Mount VfsProps
begin

text \<open>
  What a run of the ELF loader needs of memory and keeps: a volume with an open file stays ready to be read
  (\<open>vol_ready\<close>) while areas the loader may write (\<open>area_ok\<close>) change, and \<open>load_seg\<close> says what loading
  one segment does. What the loader relies on of the memory manager is \<open>maps_regions\<close>.
\<close>

unbundle bit_operations_syntax

section \<open>A volume with an open file, and the memory reads leave alone\<close>

definition untouched :: "allocator \<Rightarrow> heap_log \<Rightarrow> ptr \<Rightarrow> nat \<Rightarrow> bool" where
  "untouched alloc hl q k \<longleftrightarrow>
     (\<forall>bs. apart (alloc (after_reads bs hl) 512) 512 q k) \<and> apart FLOPPY_DMA_BUFFER 512 q k"

definition vol_ready ::
  "hw \<Rightarrow> fdc_link \<Rightarrow> (nat \<Rightarrow> u8 list) \<Rightarrow> allocator \<Rightarrow> fat12_handle \<Rightarrow> u16 list \<Rightarrow> u8 list \<Rightarrow> u16 list \<Rightarrow>
   ptr \<Rightarrow> 'z fsst_scheme \<Rightarrow> bool" where
  "vol_ready h ln img alloc fs es e cs node s \<longleftrightarrow>
     fd_inv h ln img (block_dev fs) s \<and> file_at s node fs e \<and> file_chain 2880 es fs e cs
     \<and> contiguous_to (length cs) cs \<and> bpb_bytes_per_sector (kmem s) (bpb fs) = Some 512
     \<and> fat_holds (kmem s) fs es \<and> fetch (kmem s) (bpb fs + 13) 1 = Some [1]
     \<and> (\<forall>bs. let rb = alloc (after_reads bs (hlog s)) 512
             in rb \<noteq> NULL \<and> unused rb s \<and> mapped (kmem s) rb 512 \<and> apart rb 512 FLOPPY_DMA_BUFFER 512)
     \<and> untouched alloc (hlog s) (fat_table fs) (length (pack12 es)) \<and> untouched alloc (hlog s) (bpb fs + 11) 3"

text \<open>An area the loader may write.\<close>

definition area_ok :: "allocator \<Rightarrow> heap_log \<Rightarrow> fat12_handle \<Rightarrow> u16 list \<Rightarrow> ptr \<Rightarrow> nat \<Rightarrow> bool" where
  "area_ok alloc hl fs es buf n \<longleftrightarrow>
     n \<le> 2 ^ 32 \<and> untouched alloc hl buf n \<and> apart buf n (fat_table fs) (length (pack12 es))
     \<and> apart buf n (bpb fs + 11) 3"

lemma fetch_cong:
  assumes "\<And>i. i < k \<Longrightarrow> m (q + of_nat i) = m' (q + of_nat i)"
  shows "fetch m q k = fetch m' q k"
proof -
  have "fetch m q k = Some bs \<longleftrightarrow> fetch m' q k = Some bs" for bs unfolding fetch_iff using assms by metis
  then show ?thesis by (metis not_None_eq)
qed

lemma apart_inside:
  "apart p n q k \<Longrightarrow> j + k' \<le> k \<Longrightarrow> apart p n (q + of_nat j) k'"
  using apart_sub [of p n q k 0 n j k'] by simp

lemma untouched_inside: "untouched alloc hl q k \<Longrightarrow> j + k' \<le> k \<Longrightarrow> untouched alloc hl (q + of_nat j) k'"
  unfolding untouched_def using apart_inside by blast

lemma untouched_after: "untouched alloc hl q k \<Longrightarrow> untouched alloc (after_reads bs hl) q k"
  by (simp add: untouched_def after_reads_append)

lemma area_after: "area_ok alloc hl fs es q k \<Longrightarrow> area_ok alloc (after_reads bs hl) fs es q k"
  by (simp add: area_ok_def untouched_after)

lemma area_inside:
  "area_ok alloc hl fs es q k \<Longrightarrow> j + k' \<le> k \<Longrightarrow> area_ok alloc hl fs es (q + of_nat j) k'"
  using untouched_inside [of alloc hl q k j k'] apart_sub [of q k "fat_table fs" "length (pack12 es)" j k' 0]
    apart_sub [of q k "bpb fs + 11" 3 j k' 0]
  by (simp add: area_ok_def)

lemma vol_readyD:
  assumes "vol_ready h ln img alloc fs es e cs node s"
  shows "fd_inv h ln img (block_dev fs) s" "file_at s node fs e" "bpb_bytes_per_sector (kmem s) (bpb fs) = Some 512"
  using assms by (simp_all only: vol_ready_def)

lemma file_readyI:
  assumes v: "vol_ready h ln img alloc fs es e cs node s" and a: "area_ok alloc (hlog s) fs es buf n"
    and m: "mapped (kmem s) buf n"
  shows "file_ready h ln img alloc fs es e cs node buf n s"
proof -
  have "sector_buffer fs es buf n s (alloc (after_reads bs (hlog s)) 512)" for bs
  proof -
    let ?rb = "alloc (after_reads bs (hlog s)) 512"
    have u: "apart ?rb 512 (fat_table fs) (length (pack12 es))" "apart ?rb 512 (bpb fs + 11) 3"
      "apart FLOPPY_DMA_BUFFER 512 (fat_table fs) (length (pack12 es))" "apart FLOPPY_DMA_BUFFER 512 (bpb fs + 11) 3"
      using v by (auto simp: vol_ready_def untouched_def)
    have b: "apart buf n (fat_table fs) (length (pack12 es))" "apart buf n (bpb fs + 11) 3" "apart ?rb 512 buf n"
      "apart FLOPPY_DMA_BUFFER 512 buf n" "n \<le> 2 ^ 32"
      using a by (auto simp: area_ok_def untouched_def)
    have s2: "apart p k (bpb fs + 11) 2" "apart p k (bpb fs + 13) 1" if "apart p k (bpb fs + 11) 3" for p k
      using apart_inside [OF that, of 0 2] apart_inside [OF that, of 2 1] by (simp_all add: add.assoc)
    show ?thesis
      using v m u b s2 [OF u(2)] s2 [OF u(4)] s2 [OF b(2)]
      by (simp add: sector_buffer_def read_areas_def read_state_def clear_of_def vol_ready_def Let_def
          del: fetch.simps One_nat_def)
  qed
  then show ?thesis using v by (simp add: file_ready_def vol_ready_def)
qed

lemma vol_ready_after:
  assumes v: "vol_ready h ln img alloc fs es e cs node s"
    and t: "file_ready h ln img alloc fs es e cs node buf n t" and l: "hlog t = after_reads bs0 (hlog s)"
  shows "vol_ready h ln img alloc fs es e cs node t"
proof -
  have sb: "sector_buffer fs es buf n t (alloc (after_reads bs (hlog t)) 512)" for bs
    using t by (simp add: file_ready_def)
  then show ?thesis
    using v t sb [of "[]"]
    by (simp add: vol_ready_def file_ready_def sector_buffer_def read_areas_def read_state_def l untouched_after Let_def
        del: fetch.simps One_nat_def)
qed

text \<open>Memory may change in an area the loader may write.\<close>

lemma vol_ready_mem:
  assumes v: "vol_ready h ln img alloc fs es e cs node s" and a: "area_ok alloc (hlog s) fs es p n"
    and f: "\<And>q j. apart p n q j \<Longrightarrow> fetch m q j = fetch (kmem s) q j"
    and mp: "\<And>q j. mapped (kmem s) q j \<Longrightarrow> mapped m q j"
  shows "vol_ready h ln img alloc fs es e cs node (s\<lparr>kmem := m\<rparr>)"
proof -
  have ap: "apart p n (fat_table fs) (length (pack12 es))" "apart p n (bpb fs + 11) 3"
    using a by (auto simp: area_ok_def)
  have f2: "fetch m (bpb fs + 11) 2 = fetch (kmem s) (bpb fs + 11) 2"
    "fetch m (bpb fs + 13) 1 = fetch (kmem s) (bpb fs + 13) 1"
    using f [OF apart_inside [OF ap(2), of 0 2]] f [OF apart_inside [OF ap(2), of 2 1]]
    by (simp_all add: add.assoc del: fetch.simps One_nat_def)
  have "bpb_bytes_per_sector m (bpb fs) = Some 512"
    using vol_readyD(3) [OF v] ld16_frame [OF f2(1)] by (simp only: bpb_bytes_per_sector_def)
  moreover have "fd_inv h ln img (block_dev fs) (s\<lparr>kmem := m\<rparr>)"
    by (rule fd.inv_same [OF vol_readyD(1) [OF v]]) (simp add: same_dev_def)
  moreover have "file_at (s\<lparr>kmem := m\<rparr>) node fs e"
    by (rule file_at_cong [THEN iffD2, OF _ _ _ _ vol_readyD(2) [OF v]]) simp_all
  moreover have "fat_holds m fs es" "fetch m (bpb fs + 13) 1 = Some [1]"
    using v f [OF ap(1)] f2(2) by (simp_all add: vol_ready_def fat_holds_def del: fetch.simps One_nat_def)
  moreover have "unused rb (s\<lparr>kmem := m\<rparr>) = unused rb s" for rb by (simp add: unused_def)
  ultimately show ?thesis
    using v mp by (simp add: vol_ready_def Let_def del: fetch.simps One_nat_def)
qed

lemma vol_ready_files:
  assumes "vol_ready h ln img alloc fs es e cs node s"
  shows "vol_ready h ln img alloc fs es e cs node (s\<lparr>files := f\<rparr>)"
proof -
  have "fd_inv h ln img (block_dev fs) (s\<lparr>files := f\<rparr>)"
    by (rule fd.inv_same [OF vol_readyD(1) [OF assms]]) (simp add: same_dev_def)
  moreover have "file_at (s\<lparr>files := f\<rparr>) node fs e"
    by (rule file_at_cong [THEN iffD2, OF _ _ _ _ vol_readyD(2) [OF assms]]) simp_all
  moreover have "unused rb (s\<lparr>files := f\<rparr>) = unused rb s" for rb by (simp add: unused_def)
  ultimately show ?thesis
    using assms by (simp add: vol_ready_def Let_def del: fetch.simps One_nat_def)
qed

section \<open>Reading into an area\<close>

lemma untouched_clear:
  "untouched alloc hl q k \<Longrightarrow> apart buf n q k \<Longrightarrow> clear_of (alloc hl 512) buf n FLOPPY_DMA_BUFFER q k"
  unfolding untouched_def clear_of_def using after_reads.simps(1) by metis

text \<open>The loader reaches the file system through its read operation only, once the file is open.\<close>

definition reads_fat ::
  "hw \<Rightarrow> fdc_link \<Rightarrow> allocator \<Rightarrow> fat_link \<Rightarrow> 'z vfsst_scheme fs_calls \<Rightarrow> bool" where
  "reads_fat h ln alloc fl calls \<longleftrightarrow>
     c_read calls = (\<lambda>f node offs n buf s.
       if f = l_fat_read fl then fat12_read (blkread (call_blk_read h ln)) alloc node offs n buf s else None)"

lemma reads_fat_calls: "reads_fat h ln alloc fl (fat_calls (blkread (call_blk_read h ln)) alloc ev fl)"
  by (simp add: reads_fat_def fat_calls_def)

lemma reads_fat_vfs:
  assumes "reads_fat h ln alloc fl calls"
  shows "vfs_read calls = vfs_read (fat_calls (blkread (call_blk_read h ln)) alloc ev fl)"
proof (intro ext)
  have "c_read calls = c_read (fat_calls (blkread (call_blk_read h ln)) alloc ev fl)"
    using assms by (simp add: reads_fat_def fat_calls_def)
  then show "vfs_read calls fp buf n s = vfs_read (fat_calls (blkread (call_blk_read h ln)) alloc ev fl) fp buf n s" for fp buf n s
    unfolding vfs_read_def by (simp only:)
qed

text \<open>A request the file can serve in full, an empty one included: what the loader knows afterwards.\<close>

lemma read_area:
  assumes rd: "reads_fat h ln alloc fl calls" and v: "vol_ready h ln img alloc fs es e cs node s" and op: "open_at fl fp node offs s"
    and a: "area_ok alloc (hlog s) fs es buf n" and m: "mapped (kmem s) buf n" and b: "buf \<noteq> NULL"
    and fits: "unat offs + unat want \<le> unat (de_file_size e)" "unat want \<le> n"
  obtains t cur bs where
    "vfs_read calls fp buf want s = Some (if want = 0 then -1 else want, t)"
    "fetch (kmem t) buf (unat want) = Some (take (unat want) (drop (unat offs) (file_content img fs e cs)))"
    "vol_ready h ln img alloc fs es e cs node t" "open_at fl fp node cur t" "hlog t = after_reads bs (hlog s)"
    "\<And>q k. untouched alloc (hlog s) q k \<Longrightarrow> apart buf n q k \<Longrightarrow> fetch (kmem t) q k = fetch (kmem s) q k"
    "\<And>q k. mapped (kmem s) q k \<Longrightarrow> mapped (kmem t) q k" "vfsst.more t = vfsst.more s"
proof (cases "want = 0")
  case True
  have "vfs_read calls fp buf want s = Some (-1, s)"
    using op True by (auto simp: open_at_def vfs_read_def)
  then show ?thesis using that [of s offs "[]"] True v op by simp
next
  case False
  have lim: "unat offs + unat want < 2 ^ 32" using fits(1) unat_lt_2p32 [of "de_file_size e"] by linarith
  have sz: "unat want = avail (unat (de_file_size e)) (unat offs) (unat want)" using fits(1) by (simp add: avail_def)
  obtain t where t:
    "vfs_read calls fp buf want s = Some (of_nat (unat want), t)"
    "fetch (kmem t) buf (unat want) = Some (take (unat want) (drop (unat offs) (file_content img fs e cs)))"
    "file_ready h ln img alloc fs es e cs node buf n t" "open_at fl fp node (offs + of_nat (unat want)) t"
    "\<And>q k. clear_of (alloc (hlog s) 512) buf n FLOPPY_DMA_BUFFER q k \<Longrightarrow> fetch (kmem t) q k = fetch (kmem s) q k"
    "\<exists>bs. hlog t = after_reads bs (hlog s) \<and> length bs \<le> 1"
    "\<And>q k. mapped (kmem s) q k \<Longrightarrow> mapped (kmem t) q k" "vfsst.more t = vfsst.more s"
    by (rule vfs_read_cursor [OF file_readyI [OF v a m] op False b lim sz fits(2), folded reads_fat_vfs [OF rd]]) (rule that)
  then obtain bs where bs: "hlog t = after_reads bs (hlog s)" by blast
  show ?thesis
    by (rule that [OF _ t(2) vol_ready_after [OF v t(3) bs] t(4) bs])
      (use False t(1,5,7,8) untouched_clear in \<open>simp_all del: fetch.simps\<close>)
qed

section \<open>The memory manager\<close>

text \<open>What the loader relies on: a request to map one of the regions \<open>rs\<close> for user code in the directory
  succeeds, the region can be written afterwards, through the current address space too, and nothing outside it has changed.
  The last two hold for the addresses of user programs as \<open>process_create\<close> shares the first page
  table with the kernel.\<close>

definition maps_regions :: "'z vfsst_scheme vmm \<Rightarrow> ptr \<Rightarrow> (ptr \<times> u32) set \<Rightarrow> bool" where
  "maps_regions vm pd rs \<longleftrightarrow>
     (\<forall>(a, n) \<in> rs. \<forall>s. \<exists>m.
        v_alloc_region vm pd a n (PDE_USER OR PDE_PRESENT OR PDE_WRITABLE) s = (True, s\<lparr>kmem := m\<rparr>)
        \<and> mapped m a (unat n)
        \<and> (\<forall>q j. apart a (unat n) q j \<longrightarrow> fetch m q j = fetch (kmem s) q j)
        \<and> (\<forall>q j. mapped (kmem s) q j \<longrightarrow> mapped m q j))"

section \<open>Program headers\<close>

definition seg_type :: "u8 list \<Rightarrow> u32" where "seg_type ph = bs32 ph 0"
definition seg_off :: "u8 list \<Rightarrow> u32" where "seg_off ph = bs32 ph 4"
definition seg_va :: "u8 list \<Rightarrow> u32" where "seg_va ph = bs32 ph 8"
definition seg_filesz :: "u8 list \<Rightarrow> u32" where "seg_filesz ph = bs32 ph 16"
definition seg_memsz :: "u8 list \<Rightarrow> u32" where "seg_memsz ph = bs32 ph 20"

text \<open>The pages of a segment, and what its memory must hold: its bytes of the file, and zeros.\<close>

definition seg_start :: "u8 list \<Rightarrow> ptr" where "seg_start ph = PAGE_ALIGN_UP (seg_va ph)"
definition seg_len :: "u8 list \<Rightarrow> u32" where "seg_len ph = seg_region (seg_va ph) (seg_memsz ph)"

definition seg_image :: "u8 list \<Rightarrow> u8 list \<Rightarrow> u8 list" where
  "seg_image F ph = take (unat (seg_filesz ph)) (drop (unat (seg_off ph)) F)
     @ replicate (unat (seg_memsz ph) - unat (seg_filesz ph)) 0"

definition seg_valid :: "nat \<Rightarrow> u8 list \<Rightarrow> bool" where
  "seg_valid len ph \<longleftrightarrow> seg_va ph \<noteq> NULL \<and> unat (seg_va ph) + unat (seg_memsz ph) + 0xFFF < 2 ^ 32
     \<and> seg_filesz ph \<le> seg_memsz ph \<and> unat (seg_off ph) + unat (seg_filesz ph) \<le> len"

lemma ld32_of_bytes:
  assumes "fetch m p n = Some b" and "i + 4 \<le> n"
  shows "ld32 m (p + of_nat i) = Some (bs32 b i)"
proof -
  have "m (p + of_nat j) = Some (b ! j)" if "j < n" for j using assms(1) that unfolding fetch_iff by blast
  from this [of i] this [of "i + 1"] this [of "i + 2"] this [of "i + 3"] assms(2) show ?thesis
    by (simp add: ld32_def bs32_def ac_simps)
qed

lemma ld16_of_bytes:
  assumes "fetch m p n = Some b" and "i + 2 \<le> n"
  shows "ld16 m (p + of_nat i) = Some (bs16 b i)"
proof -
  have "m (p + of_nat j) = Some (b ! j)" if "j < n" for j using assms(1) that unfolding fetch_iff by blast
  from this [of i] this [of "Suc i"] assms(2) show ?thesis
    by (simp add: bs16_def ld16_le16 add.assoc add.commute [of 1])
qed

lemma phdr_bytes:
  assumes "fetch m phdr 32 = Some ph"
  shows "p_type m phdr = Some (seg_type ph)" "p_offset m phdr = Some (seg_off ph)" "p_vaddr m phdr = Some (seg_va ph)"
    "p_filesz m phdr = Some (seg_filesz ph)" "p_memsz m phdr = Some (seg_memsz ph)"
  using ld32_of_bytes [OF assms, of 0] ld32_of_bytes [OF assms, of 4] ld32_of_bytes [OF assms, of 8] ld32_of_bytes [OF assms, of 16]
    ld32_of_bytes [OF assms, of 20]
  by (simp_all add: p_type_def p_offset_def p_vaddr_def p_filesz_def p_memsz_def seg_type_def seg_off_def seg_va_def
      seg_filesz_def seg_memsz_def)

text \<open>The memory of a segment is inside its pages.\<close>

lemma seg_covers:
  assumes "seg_valid n ph"
  obtains i where "seg_va ph = seg_start ph + of_nat i" "i + unat (seg_memsz ph) \<le> unat (seg_len ph)"
proof -
  have "unat (seg_va ph) + unat (seg_memsz ph) + 0xFFF < 2 ^ 32" using assms by (simp add: seg_valid_def)
  then show ?thesis by (rule region_covers) (rule that; simp only: seg_start_def seg_len_def)
qed

section \<open>One segment\<close>

lemma set_offset_vol:
  assumes "vol_ready h ln img alloc fs es e cs node s" and "open_at fl fp node cur s"
  obtains t where "set_offset fp offs s = Some t" "kmem t = kmem s" "hlog t = hlog s" "vfsst.more t = vfsst.more s"
    "vol_ready h ln img alloc fs es e cs node t" "open_at fl fp node offs t"
proof -
  obtain f where f: "files s fp = Some f" using assms(2) by (auto simp: open_at_def)
  let ?t = "s\<lparr>files := (files s)(fp \<mapsto> f\<lparr>f_offset := offs\<rparr>)\<rparr>"
  have "open_at fl fp node offs ?t" using assms(2) f by (auto simp: open_at_def)
  then show ?thesis using that [of ?t] f vol_ready_files [OF assms(1)] by (simp add: set_offset_def)
qed

text \<open>The part of a segment behind its bytes of the file is filled with zeros.\<close>

lemma zero_rest:
  assumes t: "fetch m va k = Some b" and m: "mapped m va n" and le: "k \<le> n" "n \<le> 2 ^ 32"
  shows "fetch (put m (va + of_nat k) (replicate (n - k) 0)) va n = Some (b @ replicate (n - k) 0)"
proof -
  let ?z = "replicate (n - k) (0 :: u8)"
  have "apart (va + of_nat k) (length ?z) va k" using apart_next [of k "n - k" va] le by simp
  then have "fetch (put m (va + of_nat k) ?z) va k = Some b" using t by (simp add: fetch_put_apart)
  moreover have "fetch (put m (va + of_nat k) ?z) (va + of_nat k) (n - k) = Some ?z"
    using fetch_put_same [of ?z m "va + of_nat k"] le by simp
  ultimately have "fetch (put m (va + of_nat k) ?z) va (k + (n - k)) = Some (b @ ?z)" by (rule fetch_append)
  then show ?thesis using le by simp
qed

lemma load_seg:
  assumes rd: "reads_fat h ln alloc fl calls" and v: "vol_ready h ln img alloc fs es e cs node s" and op: "open_at fl fp node cur s"
    and ptrs: "pd \<noteq> NULL" "phdr \<noteq> NULL"
    and ph: "fetch (kmem s) phdr 32 = Some ph" and valid: "seg_valid (unat (de_file_size e)) ph"
    and vm: "maps_regions vm pd rs" "(seg_start ph, seg_len ph) \<in> rs"
    and reg: "area_ok alloc (hlog s) fs es (seg_start ph) (unat (seg_len ph))"
    and hp: "untouched alloc (hlog s) phdr 32" "apart (seg_start ph) (unat (seg_len ph)) phdr 32"
  obtains t cur' bs where
    "elf_load_seg calls vm fp pd phdr s = Some (0, t)"
    "fetch (kmem t) (seg_va ph) (unat (seg_memsz ph)) = Some (seg_image (file_content img fs e cs) ph)"
    "vol_ready h ln img alloc fs es e cs node t" "open_at fl fp node cur' t" "hlog t = after_reads bs (hlog s)"
    "\<And>q k. untouched alloc (hlog s) q k \<Longrightarrow> apart (seg_start ph) (unat (seg_len ph)) q k \<Longrightarrow>
       fetch (kmem t) q k = fetch (kmem s) q k"
    "\<And>q k. mapped (kmem s) q k \<Longrightarrow> mapped (kmem t) q k" "vfsst.more t = vfsst.more s"
proof -
  let ?a = "seg_start ph" and ?n = "unat (seg_len ph)"
    and ?va = "seg_va ph" and ?msz = "seg_memsz ph" and ?fsz = "seg_filesz ph"
  let ?k = "unat ?fsz" and ?mn = "unat ?msz"
  have fp: "fp \<noteq> NULL" using op by (simp add: open_at_def)
  have val: "?va \<noteq> NULL" "unat ?va + ?mn + 0xFFF < 2 ^ 32" "?fsz \<le> ?msz"
    "unat (seg_off ph) + ?k \<le> unat (de_file_size e)"
    using valid by (simp_all add: seg_valid_def)
  obtain i where i: "?va = ?a + of_nat i" "i + ?mn \<le> ?n" by (rule seg_covers [OF valid])
  have sub: "apart ?va ?mn q j" if "apart ?a ?n q j" for q j
    using apart_sub [OF that i(2), of 0 j] i(1) by simp
  obtain m where m: "v_alloc_region vm pd ?a (seg_len ph) (PDE_USER OR PDE_PRESENT OR PDE_WRITABLE) s
      = (True, s\<lparr>kmem := m\<rparr>)" "mapped m ?a ?n" "\<And>q j. apart ?a ?n q j \<Longrightarrow> fetch m q j = fetch (kmem s) q j"
    "\<And>q j. mapped (kmem s) q j \<Longrightarrow> mapped m q j"
    using vm unfolding maps_regions_def by fastforce
  have v1: "vol_ready h ln img alloc fs es e cs node (s\<lparr>kmem := m\<rparr>)" by (rule vol_ready_mem [OF v reg m(3,4)])
  have op1: "open_at fl fp node cur (s\<lparr>kmem := m\<rparr>)" using op by (simp add: open_at_def)
  obtain s2 where s2: "set_offset fp (seg_off ph) (s\<lparr>kmem := m\<rparr>) = Some s2" "kmem s2 = m" "hlog s2 = hlog s"
    "vfsst.more s2 = vfsst.more s"
    "vol_ready h ln img alloc fs es e cs node s2" "open_at fl fp node (seg_off ph) s2"
    by (rule set_offset_vol [OF v1 op1]) simp
  have ar: "area_ok alloc (hlog s) fs es ?va ?mn" using area_inside [OF reg i(2)] i(1) by simp
  then have ar2: "area_ok alloc (hlog s2) fs es ?va ?mn" by (simp only: s2(3))
  have mv: "mapped (kmem s2) ?va ?mn" using mapped_sub [OF m(2) i(2)] i(1) by (simp add: s2(2))
  have le: "?k \<le> ?mn" using val(3) by (simp add: word_le_nat_alt)
  obtain r t cur' bs where t: "vfs_read calls fp ?va ?fsz s2 = Some (r, t)"
    "fetch (kmem t) ?va ?k = Some (take ?k (drop (unat (seg_off ph)) (file_content img fs e cs)))"
    "vol_ready h ln img alloc fs es e cs node t" "open_at fl fp node cur' t" "hlog t = after_reads bs (hlog s2)"
    "\<And>q k. untouched alloc (hlog s2) q k \<Longrightarrow> apart ?va ?mn q k \<Longrightarrow> fetch (kmem t) q k = fetch (kmem s2) q k"
    "\<And>q k. mapped (kmem s2) q k \<Longrightarrow> mapped (kmem t) q k" "vfsst.more t = vfsst.more s2"
    by (rule read_area [OF rd s2(5,6) ar2 mv val(1,4) le]) (rule that)
  let ?m = "put (kmem t) (?va + of_nat ?k) (replicate (?mn - ?k) 0)"
  have ph2: "fetch (kmem s2) phdr 32 = Some ph" using m(3) [OF hp(2)] ph by (simp add: s2(2))
  have ph3: "fetch (kmem t) phdr 32 = Some ph" using t(6) [OF _ sub [OF hp(2)]] hp(1) ph2 by (simp add: s2(3))
  note pb = phdr_bytes [OF ph] phdr_bytes [OF ph2] phdr_bytes [OF ph3]
  have run: "elf_load_seg calls vm fp pd phdr s = Some (0, t\<lparr>kmem := ?m\<rparr>)"
  proof (cases "?fsz < ?msz")
    case True
    have d: "unat (?msz - ?fsz) = ?mn - ?k" using val(3) by (simp add: unat_sub)
    have "mapped (kmem t) (?va + of_nat ?k) (?mn - ?k)" by (rule mapped_sub [OF t(7) [OF mv]]) (use le in simp)
    then have "memset (kmem t) (?va + ?fsz) 0 (?msz - ?fsz) = Some (?va + ?fsz, ?m)"
      using memset_put [of "kmem t" "?va + ?fsz" "?msz - ?fsz" 0] by (simp add: d)
    then show ?thesis
      using ptrs fp pb m(1) s2(1,2) t(1) True
      by (simp add: elf_load_seg_def Let_def seg_start_def seg_len_def seg_region_def)
  next
    case False
    then have "?msz = ?fsz" using val(3) by simp
    then show ?thesis
      using ptrs fp pb m(1) s2(1,2) t(1)
      by (simp add: elf_load_seg_def Let_def seg_start_def seg_len_def seg_region_def put_Nil)
  qed
  have lim: "?mn \<le> 2 ^ 32" using ar by (simp add: area_ok_def)
  have img: "fetch ?m ?va ?mn = Some (seg_image (file_content img fs e cs) ph)"
    unfolding seg_image_def by (rule zero_rest [OF t(2) t(7) [OF mv] le lim])
  have zsub: "apart (?va + of_nat ?k) (length (replicate (?mn - ?k) (0 :: u8))) q j" if "apart ?va ?mn q j" for q j
    using apart_sub [OF that, of ?k "?mn - ?k" 0 j] le by simp
  have "area_ok alloc (hlog s) fs es (?va + of_nat ?k) (length (replicate (?mn - ?k) (0 :: u8)))"
    using area_inside [OF ar, of ?k "?mn - ?k"] le by simp
  then have az: "area_ok alloc (hlog t) fs es (?va + of_nat ?k) (length (replicate (?mn - ?k) (0 :: u8)))"
    using t(5) s2(3) by (simp add: area_after)
  have vt: "vol_ready h ln img alloc fs es e cs node (t\<lparr>kmem := ?m\<rparr>)"
    by (rule vol_ready_mem [OF t(3) az fetch_put_apart mapped_put])
  show ?thesis
  proof (rule that [of "t\<lparr>kmem := ?m\<rparr>" cur' bs])
    show "open_at fl fp node cur' (t\<lparr>kmem := ?m\<rparr>)" using t(4) by (simp add: open_at_def)
    show "fetch (kmem (t\<lparr>kmem := ?m\<rparr>)) q k = fetch (kmem s) q k"
      if "untouched alloc (hlog s) q k" "apart ?a ?n q k" for q k
      using t(6) [of q k] m(3) [OF that(2)] zsub [OF sub [OF that(2)]] sub [OF that(2)] that(1) s2(2,3)
      by (simp add: fetch_put_apart)
    show "mapped (kmem (t\<lparr>kmem := ?m\<rparr>)) q k" if "mapped (kmem s) q k" for q k
      using mapped_put t(7) m(4) [OF that] s2(2) by simp
  qed (use run img vt t(5,8) s2(3,4) in simp_all)
qed

end
