(* ===== verification/ElfRun.thy ===== *)
theory ElfRun
  imports ElfMem
begin

text \<open>
  A whole run of the ELF loader: \<open>elf_load\<close> on a path that opens a file of the floppy disk. The program headers are
  read one after the other, each segment is mapped and filled, and the segments loaded before stay as
  they are, as long as the pages of different segments, the locals of the loader and the volume's
  structures do not overlap.
\<close>

unbundle bit_operations_syntax

section \<open>The file of a program\<close>

definition prog_entry :: "u8 list \<Rightarrow> u32" where "prog_entry F = bs32 F 24"
definition prog_phnum :: "u8 list \<Rightarrow> nat" where "prog_phnum F = unat (bs16 F 44)"
definition prog_phdr_at :: "u8 list \<Rightarrow> nat \<Rightarrow> nat" where
  "prog_phdr_at F i = unat (bs32 F 28) + i * unat (bs16 F 42)"
definition prog_phdr :: "u8 list \<Rightarrow> nat \<Rightarrow> u8 list" where
  "prog_phdr F i = take 32 (drop (prog_phdr_at F i) F)"

text \<open>Program header number \<open>i\<close> is of a segment to load.\<close>

definition loads :: "u8 list \<Rightarrow> nat \<Rightarrow> bool" where
  "loads F i \<longleftrightarrow> i < prog_phnum F \<and> seg_type (prog_phdr F i) = ELF_PT_LOAD"

text \<open>A program of \<open>len\<close> bytes that can be loaded: its headers and segments are inside the file, the memory of a segment
  is not in the pages of a later one, and the pages hold neither the locals of the loader nor what
  the volume needs.\<close>

definition seg_free :: "allocator \<Rightarrow> heap_log \<Rightarrow> fat12_handle \<Rightarrow> u16 list \<Rightarrow> ptr \<Rightarrow> ptr \<Rightarrow> u8 list \<Rightarrow> bool" where
  "seg_free alloc hl fs es hdr phdr ph \<longleftrightarrow>
     area_ok alloc hl fs es (seg_start ph) (unat (seg_len ph))
     \<and> apart (seg_start ph) (unat (seg_len ph)) phdr 32 \<and> apart (seg_start ph) (unat (seg_len ph)) hdr 48"

definition loadable ::
  "allocator \<Rightarrow> heap_log \<Rightarrow> fat12_handle \<Rightarrow> u16 list \<Rightarrow> ptr \<Rightarrow> ptr \<Rightarrow> nat \<Rightarrow> u8 list \<Rightarrow> bool" where
  "loadable alloc hl fs es hdr phdr len F \<longleftrightarrow>
     (\<forall>i < prog_phnum F. prog_phdr_at F i + 32 \<le> len)
     \<and> (\<forall>i. loads F i \<longrightarrow> seg_valid len (prog_phdr F i) \<and> seg_free alloc hl fs es hdr phdr (prog_phdr F i))
     \<and> (\<forall>i j. loads F i \<longrightarrow> loads F j \<longrightarrow> i < j \<longrightarrow>
          apart (seg_start (prog_phdr F j)) (unat (seg_len (prog_phdr F j)))
            (seg_va (prog_phdr F i)) (unat (seg_memsz (prog_phdr F i))))"

definition seg_regions :: "u8 list \<Rightarrow> (ptr \<times> u32) set" where
  "seg_regions F = (\<lambda>i. (seg_start (prog_phdr F i), seg_len (prog_phdr F i))) ` {i. loads F i}"

definition seg_loaded :: "mem \<Rightarrow> u8 list \<Rightarrow> nat \<Rightarrow> bool" where
  "seg_loaded m F i \<longleftrightarrow>
     fetch m (seg_va (prog_phdr F i)) (unat (seg_memsz (prog_phdr F i))) = Some (seg_image F (prog_phdr F i))"

lemma bs_take:
  "i + 4 \<le> n \<Longrightarrow> bs32 (take n b) i = bs32 b i" "i + 2 \<le> n \<Longrightarrow> bs16 (take n b) i = bs16 b i"
  by (simp_all add: bs32_def bs16_def)

lemma ehdr_bytes:
  assumes "fetch m hdr 48 = Some (take 48 F)"
  shows "e_entry m hdr = Some (prog_entry F)" "e_phoff m hdr = Some (bs32 F 28)"
    "e_phentsize m hdr = Some (bs16 F 42)" "e_phnum m hdr = Some (bs16 F 44)"
  using ld32_of_bytes [OF assms, of 24] ld32_of_bytes [OF assms, of 28] ld16_of_bytes [OF assms, of 42] ld16_of_bytes [OF assms, of 44]
  by (simp_all add: e_entry_def e_phoff_def e_phentsize_def e_phnum_def prog_entry_def bs_take)

lemma seg_inside:
  assumes "seg_valid n ph"
  shows "apart (seg_start ph) (unat (seg_len ph)) q k \<Longrightarrow> apart (seg_va ph) (unat (seg_memsz ph)) q k"
    "untouched alloc hl (seg_start ph) (unat (seg_len ph)) \<Longrightarrow> untouched alloc hl (seg_va ph) (unat (seg_memsz ph))"
proof -
  obtain i where i: "seg_va ph = seg_start ph + of_nat i" "i + unat (seg_memsz ph) \<le> unat (seg_len ph)"
    by (rule seg_covers [OF assms])
  show "apart (seg_start ph) (unat (seg_len ph)) q k \<Longrightarrow> apart (seg_va ph) (unat (seg_memsz ph)) q k"
    using apart_sub [of "seg_start ph" "unat (seg_len ph)" q k i "unat (seg_memsz ph)" 0 k] i by simp
  show "untouched alloc hl (seg_start ph) (unat (seg_len ph)) \<Longrightarrow> untouched alloc hl (seg_va ph) (unat (seg_memsz ph))"
    using untouched_inside [of alloc hl "seg_start ph" "unat (seg_len ph)" i "unat (seg_memsz ph)"] i by simp
qed

lemma loadable_after: "loadable alloc hl fs es hdr phdr len F \<Longrightarrow> loadable alloc (after_reads bs hl) fs es hdr phdr len F"
  by (simp add: loadable_def seg_free_def area_after)

section \<open>The loop over the program headers\<close>

text \<open>Reading program header \<open>i\<close>: it is in memory afterwards.\<close>

lemma read_phdr:
  assumes rd: "reads_fat h ln alloc fl calls" and v: "vol_ready h ln img alloc fs es e cs node s" and op: "open_at fl fp node cur s"
    and a: "area_ok alloc (hlog s) fs es phdr 32" "mapped (kmem s) phdr 32" "phdr \<noteq> NULL"
    and F: "F = file_content img fs e cs" and inside: "prog_phdr_at F i + 32 \<le> unat (de_file_size e)"
  obtains s1 t r cur' bs where
    "set_offset fp (bs32 F 28 + of_nat i * ucast (bs16 F 42)) s = Some s1"
    "vfs_read calls fp phdr SIZEOF_ELF_PHDR s1 = Some (r, t)"
    "fetch (kmem t) phdr 32 = Some (prog_phdr F i)"
    "vol_ready h ln img alloc fs es e cs node t" "open_at fl fp node cur' t" "hlog t = after_reads bs (hlog s)"
    "\<And>q k. untouched alloc (hlog s) q k \<Longrightarrow> apart phdr 32 q k \<Longrightarrow> fetch (kmem t) q k = fetch (kmem s) q k"
    "\<And>q k. mapped (kmem s) q k \<Longrightarrow> mapped (kmem t) q k" "vfsst.more t = vfsst.more s"
proof -
  let ?o = "bs32 F 28 + of_nat i * ucast (bs16 F 42)"
  have "?o = of_nat (prog_phdr_at F i)" by (simp add: prog_phdr_at_def)
  moreover have "prog_phdr_at F i < 2 ^ 32" using inside unat_lt_2p32 [of "de_file_size e"] by linarith
  ultimately have o: "unat ?o = prog_phdr_at F i" by (simp only: unat_of_nat32)
  obtain s1 where s1: "set_offset fp ?o s = Some s1" "kmem s1 = kmem s" "hlog s1 = hlog s" "vfsst.more s1 = vfsst.more s"
    "vol_ready h ln img alloc fs es e cs node s1" "open_at fl fp node ?o s1"
    by (rule set_offset_vol [OF v op])
  have k: "unat SIZEOF_ELF_PHDR = 32" by (simp add: SIZEOF_ELF_PHDR_def)
  have a1: "area_ok alloc (hlog s1) fs es phdr 32" "mapped (kmem s1) phdr 32" using a s1(2,3) by simp_all
  have fits: "unat ?o + unat SIZEOF_ELF_PHDR \<le> unat (de_file_size e)" "unat SIZEOF_ELF_PHDR \<le> 32"
    using inside by (simp_all add: o k)
  obtain t cur' bs where t: "vfs_read calls fp phdr SIZEOF_ELF_PHDR s1
      = Some (if SIZEOF_ELF_PHDR = 0 then -1 else SIZEOF_ELF_PHDR, t)"
    "fetch (kmem t) phdr (unat SIZEOF_ELF_PHDR) = Some (take (unat SIZEOF_ELF_PHDR) (drop (unat ?o) (file_content img fs e cs)))"
    "vol_ready h ln img alloc fs es e cs node t" "open_at fl fp node cur' t" "hlog t = after_reads bs (hlog s1)"
    "\<And>q k. untouched alloc (hlog s1) q k \<Longrightarrow> apart phdr 32 q k \<Longrightarrow> fetch (kmem t) q k = fetch (kmem s1) q k"
    "\<And>q k. mapped (kmem s1) q k \<Longrightarrow> mapped (kmem t) q k" "vfsst.more t = vfsst.more s1"
    by (rule read_area [OF rd s1(5,6) a1 a(3) fits]) (rule that)
  show ?thesis
    by (rule that [OF s1(1) t(1) _ t(3,4)])
      (use t(2,5,6,7,8) s1(2-4) in \<open>simp_all add: o k prog_phdr_def F [symmetric] del: fetch.simps\<close>)
qed

text \<open>What the loop needs when it looks at program header \<open>i\<close>, and what one round of it does.\<close>

definition loop_at ::
  "hw \<Rightarrow> fdc_link \<Rightarrow> (nat \<Rightarrow> u8 list) \<Rightarrow> allocator \<Rightarrow> fat12_handle \<Rightarrow> u16 list \<Rightarrow> u8 list \<Rightarrow> u16 list \<Rightarrow> fat_link \<Rightarrow>
   ptr \<Rightarrow> ptr \<Rightarrow> ptr \<Rightarrow> ptr \<Rightarrow> u8 list \<Rightarrow> 'z vfsst_scheme \<Rightarrow> bool" where
  "loop_at h ln img alloc fs es e cs fl node fp hdr phdr F s \<longleftrightarrow>
     vol_ready h ln img alloc fs es e cs node s \<and> (\<exists>cur. open_at fl fp node cur s)
     \<and> area_ok alloc (hlog s) fs es hdr 48 \<and> area_ok alloc (hlog s) fs es phdr 32 \<and> apart phdr 32 hdr 48
     \<and> phdr \<noteq> NULL \<and> mapped (kmem s) phdr 32 \<and> fetch (kmem s) hdr 48 = Some (take 48 F)
     \<and> loadable alloc (hlog s) fs es hdr phdr (unat (de_file_size e)) F"

definition round_frame :: "allocator \<Rightarrow> ptr \<Rightarrow> (ptr \<times> u32) set \<Rightarrow> 'z vfsst_scheme \<Rightarrow> 'z vfsst_scheme \<Rightarrow> bool" where
  "round_frame alloc phdr rs s t \<longleftrightarrow> (\<exists>bs. hlog t = after_reads bs (hlog s)) \<and> vfsst.more t = vfsst.more s
     \<and> (\<forall>q k. untouched alloc (hlog s) q k \<longrightarrow> apart phdr 32 q k \<longrightarrow> (\<forall>(a, n) \<in> rs. apart a (unat n) q k) \<longrightarrow>
          fetch (kmem t) q k = fetch (kmem s) q k)
     \<and> (\<forall>q k. mapped (kmem s) q k \<longrightarrow> mapped (kmem t) q k)"

lemma round_frame_trans:
  assumes "round_frame alloc phdr rs s t" and "round_frame alloc phdr rs' t u"
  shows "round_frame alloc phdr (rs \<union> rs') s u"
proof -
  obtain bs bs' where b: "hlog t = after_reads bs (hlog s)" "hlog u = after_reads bs' (hlog t)"
    using assms by (auto simp: round_frame_def)
  have "hlog u = after_reads (bs @ bs') (hlog s)" by (simp add: b after_reads_append)
  moreover have "untouched alloc (hlog t) q k" if "untouched alloc (hlog s) q k" for q k
    using untouched_after [OF that] by (simp add: b(1))
  moreover have "\<forall>(a, n) \<in> rs. apart a (unat n) q k" "\<forall>(a, n) \<in> rs'. apart a (unat n) q k"
    if "\<forall>(a, n) \<in> rs \<union> rs'. apart a (unat n) q k" for q k
    using that by auto
  ultimately show ?thesis using assms unfolding round_frame_def by metis
qed

lemma round_frame_mono: "round_frame alloc phdr rs s t \<Longrightarrow> rs \<subseteq> rs' \<Longrightarrow> round_frame alloc phdr rs' s t"
  unfolding round_frame_def by blast

lemma loop_at_frame:
  assumes l: "loop_at h ln img alloc fs es e cs fl node fp hdr phdr F s" and f: "round_frame alloc phdr rs s t"
    and rs: "\<forall>(a, n) \<in> rs. apart a (unat n) hdr 48"
    and v: "vol_ready h ln img alloc fs es e cs node t" "open_at fl fp node cur t"
  shows "loop_at h ln img alloc fs es e cs fl node fp hdr phdr F t"
proof -
  obtain bs where b: "hlog t = after_reads bs (hlog s)" using f by (auto simp: round_frame_def)
  have "fetch (kmem t) hdr 48 = Some (take 48 F)" "mapped (kmem t) phdr 32"
    using l f rs by (auto simp: loop_at_def round_frame_def area_ok_def)
  then show ?thesis using l v by (auto simp: loop_at_def b area_after loadable_after)
qed

definition regions_from :: "u8 list \<Rightarrow> nat \<Rightarrow> (ptr \<times> u32) set" where
  "regions_from F i = (\<lambda>j. (seg_start (prog_phdr F j), seg_len (prog_phdr F j))) ` {j. i \<le> j \<and> loads F j}"

lemma regions_from_le: "i \<le> j \<Longrightarrow> regions_from F j \<subseteq> regions_from F i"
  by (auto simp: regions_from_def)

lemma regions_from_seg: "loads F i \<Longrightarrow> (seg_start (prog_phdr F i), seg_len (prog_phdr F i)) \<in> regions_from F i"
  by (auto simp: regions_from_def)

lemma regions_from_hdr:
  assumes "loadable alloc hl fs es hdr phdr len F"
  shows "\<forall>(a, n) \<in> regions_from F i. apart a (unat n) hdr 48"
  using assms by (auto simp: regions_from_def loadable_def seg_free_def)

lemma loop_round:
  assumes rd: "reads_fat h ln alloc fl calls" and l: "loop_at h ln img alloc fs es e cs fl node fp hdr phdr F s" and F: "F = file_content img fs e cs"
    and i: "i < prog_phnum F" and vm: "maps_regions vm pd (regions_from F 0)" and pd: "pd \<noteq> NULL"
  obtains t where
    "elf_load_loop calls vm fp pd hdr phdr (of_nat i) s =
       elf_load_loop calls vm fp pd hdr phdr (of_nat (Suc i)) t"
    "loop_at h ln img alloc fs es e cs fl node fp hdr phdr F t" "round_frame alloc phdr (regions_from F i) s t"
    "loads F i \<Longrightarrow> seg_loaded (kmem t) F i"
proof -
  let ?ph = "prog_phdr F i"
  obtain cur where v: "vol_ready h ln img alloc fs es e cs node s" "open_at fl fp node cur s"
    "area_ok alloc (hlog s) fs es phdr 32" "mapped (kmem s) phdr 32" "phdr \<noteq> NULL"
    and hd: "fetch (kmem s) hdr 48 = Some (take 48 F)"
    and ok: "loadable alloc (hlog s) fs es hdr phdr (unat (de_file_size e)) F"
    using l by (auto simp: loop_at_def)
  have inside: "prog_phdr_at F i + 32 \<le> unat (de_file_size e)" using ok i by (simp add: loadable_def)
  obtain s1 t r cur' bs where t: "set_offset fp (bs32 F 28 + of_nat i * ucast (bs16 F 42)) s = Some s1"
    "vfs_read calls fp phdr SIZEOF_ELF_PHDR s1 = Some (r, t)" "fetch (kmem t) phdr 32 = Some ?ph"
    "vol_ready h ln img alloc fs es e cs node t" "open_at fl fp node cur' t" "hlog t = after_reads bs (hlog s)"
    "\<And>q k. untouched alloc (hlog s) q k \<Longrightarrow> apart phdr 32 q k \<Longrightarrow> fetch (kmem t) q k = fetch (kmem s) q k"
    "\<And>q k. mapped (kmem s) q k \<Longrightarrow> mapped (kmem t) q k" "vfsst.more t = vfsst.more s"
    by (rule read_phdr [OF rd v F inside]) (rule that)
  have fr1: "round_frame alloc phdr {} s t" using t(6-9) by (auto simp: round_frame_def)
  have l1: "loop_at h ln img alloc fs es e cs fl node fp hdr phdr F t"
    by (rule loop_at_frame [OF l fr1 _ t(4,5)]) simp
  have n: "unat (bs16 F 44) < 2 ^ LENGTH(16)" by (rule unsigned_less)
  then have "i < 2 ^ 32" using i by (simp add: prog_phnum_def)
  then have lt: "(of_nat i :: u32) < ucast (bs16 F 44)"
    using i n by (simp add: word_less_nat_alt unat_of_nat32 prog_phnum_def unsigned_ucast_eq take_bit_nat_eq_self)
  have step: "elf_load_loop calls vm fp pd hdr phdr (of_nat i) s =
      (if seg_type ?ph = ELF_PT_LOAD then do {
         (result, s) \<leftarrow> elf_load_seg calls vm fp pd phdr t;
         if result = -1 then Some (-1, s) else elf_load_loop calls vm fp pd hdr phdr (of_nat i + 1) s
       } else elf_load_loop calls vm fp pd hdr phdr (of_nat i + 1) t)"
    using t(1,2) lt phdr_bytes(1) [OF t(3)]
    by (subst elf_load_loop.simps) (simp add: ehdr_bytes [OF hd])
  show ?thesis
  proof (cases "loads F i")
    case False
    then show ?thesis using that [of t] step i l1 round_frame_mono [OF fr1] by (simp add: loads_def add.commute)
  next
    case True
    let ?rg = "(seg_start ?ph, seg_len ?ph)"
    have free: "seg_valid (unat (de_file_size e)) ?ph" "seg_free alloc (hlog s) fs es hdr phdr ?ph"
      using ok True by (simp_all add: loadable_def)
    have reg: "area_ok alloc (hlog t) fs es (seg_start ?ph) (unat (seg_len ?ph))" "untouched alloc (hlog t) phdr 32"
      "apart (seg_start ?ph) (unat (seg_len ?ph)) phdr 32"
      using free(2) v(3) by (simp_all add: seg_free_def t(6) area_after untouched_after area_ok_def [of _ _ _ _ phdr])
    have mem: "?rg \<in> regions_from F 0" using regions_from_seg [OF True] regions_from_le [of 0 i F] by blast
    obtain u cur'' bs' where u: "elf_load_seg calls vm fp pd phdr t = Some (0, u)"
      "fetch (kmem u) (seg_va ?ph) (unat (seg_memsz ?ph)) = Some (seg_image (file_content img fs e cs) ?ph)"
      "vol_ready h ln img alloc fs es e cs node u" "open_at fl fp node cur'' u" "hlog u = after_reads bs' (hlog t)"
      "\<And>q k. untouched alloc (hlog t) q k \<Longrightarrow> apart (seg_start ?ph) (unat (seg_len ?ph)) q k \<Longrightarrow>
         fetch (kmem u) q k = fetch (kmem t) q k"
      "\<And>q k. mapped (kmem t) q k \<Longrightarrow> mapped (kmem u) q k" "vfsst.more u = vfsst.more t"
      by (rule load_seg [OF rd t(4,5) pd v(5) t(3) free(1) vm mem reg]) (rule that)
    have "round_frame alloc phdr {?rg} t u" using u(5-8) by (auto simp: round_frame_def)
    from round_frame_trans [OF fr1 this] have fr: "round_frame alloc phdr (regions_from F i) s u"
      by (rule round_frame_mono) (use regions_from_seg [OF True] in simp)
    show ?thesis
    proof (rule that [of u])
      show "loop_at h ln img alloc fs es e cs fl node fp hdr phdr F u"
        by (rule loop_at_frame [OF l fr regions_from_hdr [OF ok] u(3,4)])
    qed (use step True u(1,2) fr in \<open>simp_all add: loads_def seg_loaded_def F [symmetric] add.commute\<close>)
  qed
qed

lemma loop_all:
  assumes rd: "reads_fat h ln alloc fl calls" and F: "F = file_content img fs e cs" and vm: "maps_regions vm pd (regions_from F 0)" and pd: "pd \<noteq> NULL"
  shows "loop_at h ln img alloc fs es e cs fl node fp hdr phdr F s \<Longrightarrow> i \<le> prog_phnum F \<Longrightarrow> 
    \<exists>t. elf_load_loop calls vm fp pd hdr phdr (of_nat i) s = Some (0, t) \<and>
      loop_at h ln img alloc fs es e cs fl node fp hdr phdr F t \<and> round_frame alloc phdr (regions_from F i) s t \<and>
      (\<forall>j \<ge> i. loads F j \<longrightarrow> seg_loaded (kmem t) F j)"
proof (induction "prog_phnum F - i" arbitrary: i s)
  case 0
  then have i: "i = prog_phnum F" by simp
  have hd: "fetch (kmem s) hdr 48 = Some (take 48 F)" using 0 by (simp add: loop_at_def)
  have "(of_nat i :: u32) = ucast (bs16 F 44)" by (simp add: i prog_phnum_def)
  then have "elf_load_loop calls vm fp pd hdr phdr (of_nat i) s = Some (0, s)"
    by (subst elf_load_loop.simps) (simp add: ehdr_bytes [OF hd])
  moreover have "round_frame alloc phdr (regions_from F i) s s"
    unfolding round_frame_def using after_reads.simps(1) by metis
  moreover have "\<not> loads F j" if "i \<le> j" for j using that by (simp add: i loads_def)
  ultimately show ?case using 0 by blast
next
  case (Suc k)
  then have i: "i < prog_phnum F" and kk: "k = prog_phnum F - Suc i" by simp_all
  have ok: "loadable alloc (hlog s) fs es hdr phdr (unat (de_file_size e)) F" using Suc.prems by (simp add: loop_at_def)
  obtain t where t: "elf_load_loop calls vm fp pd hdr phdr (of_nat i) s =
       elf_load_loop calls vm fp pd hdr phdr (of_nat (Suc i)) t"
    "loop_at h ln img alloc fs es e cs fl node fp hdr phdr F t" "round_frame alloc phdr (regions_from F i) s t"
    "loads F i \<Longrightarrow> seg_loaded (kmem t) F i"
    by (rule loop_round [OF rd Suc.prems(1) F i vm pd]) (rule that)
  obtain u where u: "elf_load_loop calls vm fp pd hdr phdr (of_nat (Suc i)) t
      = Some (0, u)" "loop_at h ln img alloc fs es e cs fl node fp hdr phdr F u"
    "round_frame alloc phdr (regions_from F (Suc i)) t u" "\<forall>j \<ge> Suc i. loads F j \<longrightarrow> seg_loaded (kmem u) F j"
    using Suc.hyps(1) [OF _ t(2)] Suc_leI [OF i] kk by blast
  have fr: "round_frame alloc phdr (regions_from F i) s u"
    using round_frame_trans [OF t(3) u(3)] regions_from_le [of i "Suc i" F] by (simp add: Un_absorb2)
  have "seg_loaded (kmem u) F i" if li: "loads F i"
  proof -
    let ?ph = "prog_phdr F i"
    have ok': "loadable alloc (hlog t) fs es hdr phdr (unat (de_file_size e)) F" using t(2) by (simp add: loop_at_def)
    have g: "seg_valid (unat (de_file_size e)) ?ph" "seg_free alloc (hlog t) fs es hdr phdr ?ph"
      using ok' li by (simp_all add: loadable_def)
    have "untouched alloc (hlog t) (seg_va ?ph) (unat (seg_memsz ?ph))" "apart phdr 32 (seg_va ?ph) (unat (seg_memsz ?ph))"
      using seg_inside [OF g(1)] g(2) by (auto simp: seg_free_def area_ok_def apart_sym [of phdr])
    moreover have "\<forall>(a, n) \<in> regions_from F (Suc i). apart a (unat n) (seg_va ?ph) (unat (seg_memsz ?ph))"
      using ok' li by (auto simp: regions_from_def loadable_def)
    ultimately show ?thesis using t(4) [OF li] u(3) by (simp add: seg_loaded_def round_frame_def)
  qed
  then have "\<forall>j \<ge> i. loads F j \<longrightarrow> seg_loaded (kmem u) F j" using u(4) by (metis Suc_leI le_neq_implies_less)
  then show ?case using t(1) u(1,2) fr by auto
qed

section \<open>A whole run\<close>

text \<open>The locals of the loader and the variable of the caller for the entry point, for an open file that is a program.\<close>

definition loader_ready ::
  "hw \<Rightarrow> fdc_link \<Rightarrow> (nat \<Rightarrow> u8 list) \<Rightarrow> allocator \<Rightarrow> fat12_handle \<Rightarrow> u16 list \<Rightarrow> u8 list \<Rightarrow> u16 list \<Rightarrow> fat_link \<Rightarrow>
   ptr \<Rightarrow> ptr \<Rightarrow> elf_env \<Rightarrow> ptr \<Rightarrow> 'z vfsst_scheme \<Rightarrow> bool" where
  "loader_ready h ln img alloc fs es e cs fl node fp ee entry s \<longleftrightarrow>
     (let F = file_content img fs e cs in
        vol_ready h ln img alloc fs es e cs node s \<and> open_at fl fp node 0 s
        \<and> area_ok alloc (hlog s) fs es (ee_hdr ee) 48 \<and> area_ok alloc (hlog s) fs es (ee_phdr ee) 32
        \<and> apart (ee_phdr ee) 32 (ee_hdr ee) 48 \<and> ee_hdr ee \<noteq> NULL \<and> ee_phdr ee \<noteq> NULL
        \<and> mapped (kmem s) (ee_hdr ee) 48 \<and> mapped (kmem s) (ee_phdr ee) 32 \<and> mapped (kmem s) entry 4
        \<and> 48 \<le> unat (de_file_size e) \<and> take 6 F = [0x7F, 69, 76, 70, 1, 1] \<and> bs16 F 16 = ELF_TYPE_EXEC
        \<and> loadable alloc (hlog s) fs es (ee_hdr ee) (ee_phdr ee) (unat (de_file_size e)) F
        \<and> (\<forall>i. loads F i \<longrightarrow> apart entry 4 (seg_va (prog_phdr F i)) (unat (seg_memsz (prog_phdr F i)))))"

text \<open>The header is read and accepted, and the loop can start.\<close>

lemma read_header:
  assumes rd: "reads_fat h ln alloc fl calls" and F: "F = file_content img fs e cs"
    and r: "loader_ready h ln img alloc fs es e cs fl node fp ee entry s"
  obtains t where "vfs_read calls fp (ee_hdr ee) SIZEOF_ELF_HEADER s = Some (SIZEOF_ELF_HEADER, t)"
    "elf_check_hdr (kmem t) (ee_hdr ee) = Some True"
    "loop_at h ln img alloc fs es e cs fl node fp (ee_hdr ee) (ee_phdr ee) F t" "\<exists>bs. hlog t = after_reads bs (hlog s)" "vfsst.more t = vfsst.more s" "\<And>q k. mapped (kmem s) q k \<Longrightarrow> mapped (kmem t) q k"
proof -
  have k: "unat SIZEOF_ELF_HEADER = 48" "SIZEOF_ELF_HEADER \<noteq> 0" by (simp_all add: SIZEOF_ELF_HEADER_def)
  have v: "vol_ready h ln img alloc fs es e cs node s" "open_at fl fp node 0 s" "area_ok alloc (hlog s) fs es (ee_hdr ee) 48"
    "mapped (kmem s) (ee_hdr ee) 48" "ee_hdr ee \<noteq> NULL" and six: "take 6 F = [0x7F, 69, 76, 70, 1, 1]" "bs16 F 16 = 2"
    using r by (simp_all add: loader_ready_def Let_def F ELF_TYPE_EXEC_def)
  have fits: "unat (0 :: u32) + unat SIZEOF_ELF_HEADER \<le> unat (de_file_size e)" "unat SIZEOF_ELF_HEADER \<le> 48"
    using r by (simp_all add: loader_ready_def Let_def k)
  obtain t cur bs where t: "vfs_read calls fp (ee_hdr ee) SIZEOF_ELF_HEADER s =
      Some (if SIZEOF_ELF_HEADER = 0 then -1 else SIZEOF_ELF_HEADER, t)"
    "fetch (kmem t) (ee_hdr ee) (unat SIZEOF_ELF_HEADER) =
      Some (take (unat SIZEOF_ELF_HEADER) (drop (unat (0 :: u32)) (file_content img fs e cs)))"
    "vol_ready h ln img alloc fs es e cs node t" "open_at fl fp node cur t" "hlog t = after_reads bs (hlog s)"
    "\<And>q k. mapped (kmem s) q k \<Longrightarrow> mapped (kmem t) q k" "vfsst.more t = vfsst.more s"
    by (rule read_area [OF rd v fits]) (rule that)
  have hd: "fetch (kmem t) (ee_hdr ee) 48 = Some (take 48 F)" using t(2) by (simp add: k F)
  have "loop_at h ln img alloc fs es e cs fl node fp (ee_hdr ee) (ee_phdr ee) F t"
    using r t(3-6) hd by (auto simp: loader_ready_def Let_def loop_at_def area_after loadable_after F)
  moreover have "take 6 (take 48 F) = [0x7F, 69, 76, 70, 1, 1]" "le16 (take 48 F ! 16) (take 48 F ! 17) = 2"
    using six by (simp_all add: bs16_def min_def)
  ultimately show ?thesis
    using that [of t] t(1,5-7) k(2) elf_check_hdr_bytes [OF hd] by auto
qed

lemma elf_load_run:
  assumes rd: "reads_fat h ln alloc fl calls" and F: "F = file_content img fs e cs"
    and op: "vfs_open calls alloc (ee_slash ee) path 0 s = Some (fp, s0)"
    and ptrs: "path \<noteq> NULL" "pd \<noteq> NULL" "entry \<noteq> NULL"
    and r: "loader_ready h ln img alloc fs es e cs fl node fp ee entry s0"
    and vm: "maps_regions vm pd (regions_from F 0)"
  obtains t where "elf_load calls vm alloc ee path pd entry s = Some (0, t)"
    "\<And>i. loads F i \<Longrightarrow> seg_loaded (kmem t) F i" "ld32 (kmem t) entry = Some (prog_entry F)"
    "\<exists>bs. hlog t = after_reads bs (hlog s0)" "vfsst.more t = vfsst.more s0"
    "\<And>q k. mapped (kmem s0) q k \<Longrightarrow> mapped (kmem t) q k"
proof -
  obtain t where t: "vfs_read calls fp (ee_hdr ee) SIZEOF_ELF_HEADER s0 = Some (SIZEOF_ELF_HEADER, t)"
    "elf_check_hdr (kmem t) (ee_hdr ee) = Some True" and l: "loop_at h ln img alloc fs es e cs fl node fp (ee_hdr ee) (ee_phdr ee) F t"
    and ht: "\<exists>bs. hlog t = after_reads bs (hlog s0)" "vfsst.more t = vfsst.more s0"
      "\<And>q k. mapped (kmem s0) q k \<Longrightarrow> mapped (kmem t) q k"
    by (rule read_header [OF rd F r]) (rule that)
  obtain u where u: "elf_load_loop calls vm fp pd (ee_hdr ee) (ee_phdr ee) 0 t = Some (0, u)"
    and lu: "loop_at h ln img alloc fs es e cs fl node fp (ee_hdr ee) (ee_phdr ee) F u"
    and fr: "round_frame alloc (ee_phdr ee) (regions_from F 0) t u" and sl: "\<forall>j. loads F j \<longrightarrow> seg_loaded (kmem u) F j"
    using loop_all [OF rd F vm ptrs(2) l, of 0] by auto
  have "mapped (kmem s0) entry 4" using r by (simp add: loader_ready_def Let_def)
  then have mu: "mapped (kmem u) entry 4" using fr ht(3) by (simp add: round_frame_def)
  have e: "e_entry (kmem u) (ee_hdr ee) = Some (prog_entry F)" by (rule ehdr_bytes(1)) (use lu in \<open>simp add: loop_at_def\<close>)
  let ?m = "put (kmem u) entry (bytes32 (prog_entry F))"
  have fp: "fp \<noteq> NULL" using r by (simp add: loader_ready_def Let_def open_at_def)
  have "elf_load calls vm alloc ee path pd entry s = Some (0, u\<lparr>kmem := ?m\<rparr>)"
    using op fp ptrs t u(1) e st32_put [OF mu] by (simp add: elf_load_def)
  moreover have "seg_loaded ?m F i" if "loads F i" for i
    using sl r that by (simp add: seg_loaded_def loader_ready_def Let_def F fetch_put_apart)
  moreover have "ld32 ?m entry = Some (prog_entry F)"
    by (rule ld32_fetch) (use fetch_put_same [of "bytes32 (prog_entry F)" "kmem u" entry] in simp)
  moreover have "\<exists>bs. hlog u = after_reads bs (hlog s0)" using fr ht(1) after_reads_append unfolding round_frame_def by metis
  moreover have "vfsst.more u = vfsst.more s0" using fr ht(2) by (simp add: round_frame_def)
  moreover have "mapped ?m q k" if "mapped (kmem s0) q k" for q k
    using fr ht(3) [OF that] mapped_put by (simp add: round_frame_def)
  ultimately show ?thesis using that [of "u\<lparr>kmem := ?m\<rparr>"] by simp
qed


section \<open>A program to run it on\<close>

definition elf_ehdr :: "u8 list" where
  "elf_ehdr = [0x7F, 69, 76, 70, 1, 1] @ replicate 10 0 @ [2, 0, 3, 0, 1, 0, 0, 0, 0x10, 0, 2, 0, 48, 0, 0, 0]
     @ replicate 10 0 @ [32, 0, 2, 0, 0, 0]"

definition elf_phdr1 :: "u8 list" where
  "elf_phdr1 = [1, 0, 0, 0, 0x58, 2, 0, 0, 0, 0x20, 2, 0, 0, 0x20, 2, 0, 8, 0, 0, 0, 8, 0, 0, 0,
     7, 0, 0, 0, 0, 0x10, 0, 0]"

definition elf_disk :: "nat \<Rightarrow> u8 list" where
  "elf_disk n = (if n = 33 then elf_ehdr @ demo_phdr @ elf_phdr1 @ replicate 400 33 else demo_disk n)"

definition elf_file :: "u8 list" where
  "elf_file = elf_ehdr @ demo_phdr @ elf_phdr1 @ replicate 400 33 @ replicate 512 34 @ replicate 76 35"

definition elf_places :: elf_env where
  "elf_places = \<lparr>ee_slash = 0x7500, ee_hdr = 0x7100, ee_phdr = 0x7200\<rparr>"

text \<open>A memory manager that maps fresh pages of zeros, and an allocator with one block for each size asked for.\<close>

definition region_vmm :: "'z vfsst_scheme vmm" where
  "region_vmm = \<lparr>v_create = \<lambda>s. (0x3000, s), v_kerneldir = \<lambda>s. 0x3000, v_clone = \<lambda>s. (NULL, s), v_switch = \<lambda>d s. s,
     v_alloc_region = \<lambda>d a n fl s. (True, s\<lparr>kmem := \<lambda>p.
       if kmem s p = None \<and> unat (p - a) < unat n then Some 0 else kmem s p\<rparr>), v_free_region = \<lambda>d a n s. s\<rparr>"

definition block_alloc :: allocator where
  "block_alloc hl n = (if n = 512 then 0xA000 else if n = 4096 then 0xE000 else if n = 52 then 0x7720
     else if n = 36 then 0xC00 else if n = 40 then 0xD80 else 0xB00)"

definition elf_calls :: "'z vfsst_scheme fs_calls" where
  "elf_calls = (fat_calls (blkread (call_blk_read (sim_floppy elf_disk) demo_link)) block_alloc demo_env demo_fat_link)
     \<lparr>c_open := \<lambda>f node path flags s. Some (0x100, s)\<rparr>"

text \<open>A kernel with that disk mounted at \<open>/a\<close>: its memory, allocator log and open files vary, and it may be
  extended by the state of the processes.\<close>

definition elf_mem :: mem where
  "elf_mem = put (put (put (put (put (kmem demo_open) 0x7400 [47, 97, 47, 98, 0]) 0x7500 [47, 0]) 0x7600 [0, 2, 0, 0])
     0x7700 [97, 0]) 0x7780 [47, 0]"

definition elf_kernel :: "mem \<Rightarrow> heap_log \<Rightarrow> (ptr \<Rightarrow> file_t option) \<Rightarrow> 'z \<Rightarrow> 'z vfsst_scheme" where
  "elf_kernel m hl fl r = vfsst.extend (demo_open\<lparr>kmem := m, hlog := hl,
     vfss := [0x200 \<mapsto> \<lparr>fs_type_of = 0x500, vcovered = 0x7700, vroot = 0x7780, fs_data = 0x700\<rparr>],
     vnodes := (vnodes demo_open)(0x7780 \<mapsto> \<lparr>vfs_mountedhere = NULL, vfs_ptr = 0x200, vtype = V_DIRECTORY, vops = 0x300,
       vflags = 0, vdata = NULL\<rparr>),
     mountpoints := 0x7600, curr_size := 1, files := fl\<rparr>) r"

definition opened_file :: "ptr \<Rightarrow> file_t option" where
  "opened_file = [0xB00 \<mapsto> \<lparr>f_vnode_ptr = 0x100, f_offset = 0, f_flags = 0\<rparr>]"

text \<open>What the memory of that kernel holds, above and outside the area of its strings.\<close>

definition elf_memory :: "mem \<Rightarrow> bool" where
  "elf_memory m \<longleftrightarrow> cstr m 0x7500 [47] \<and> cstr m 0x7700 [97] \<and> cstr m 0x7780 [47] \<and> ld32 m 0x7600 = Some 0x200
     \<and> (\<forall>q k. apart 0x7400 0x400 q k \<longrightarrow> fetch m q k = fetch (kmem demo_open) q k)
     \<and> (\<forall>p n. p < 0x100000 - of_nat n \<longrightarrow> n < 0x100000 \<longrightarrow> mapped m p n)"

lemma region_vmm_maps: "maps_regions region_vmm pd rs"
  unfolding maps_regions_def
proof (intro ballI, clarify)
  fix a :: ptr and n :: u32 and s :: "'z vfsst_scheme"
  let ?m = "\<lambda>p. if kmem s p = None \<and> unat (p - a) < unat n then Some 0 else kmem s p"
  have "v_alloc_region region_vmm pd a n (PDE_USER OR PDE_PRESENT OR PDE_WRITABLE) s = (True, s\<lparr>kmem := ?m\<rparr>)"
    by (simp add: region_vmm_def)
  moreover have "mapped ?m a (unat n)"
    using unat_lt_2p32 [of n] by (auto simp: mapped_iff unat_of_nat32)
  moreover have "fetch ?m q j = fetch (kmem s) q j" if ap: "apart a (unat n) q j" for q j
  proof -
    have "?m (q + of_nat i) = kmem s (q + of_nat i)" if i: "i < j" for i
    proof -
      have "\<not> unat (q + of_nat i - a) < unat n"
        using apart_offsets [OF ap _ i, of "unat (q + of_nat i - a)"] by auto
      then show ?thesis by simp
    qed
    then show ?thesis by (rule fetch_cong)
  qed
  moreover have "mapped ?m q j" if "mapped (kmem s) q j" for q j using that by (auto simp: mapped_iff)
  ultimately show "\<exists>m. v_alloc_region region_vmm pd a n (PDE_USER OR PDE_PRESENT OR PDE_WRITABLE) s = (True, s\<lparr>kmem := m\<rparr>) \<and>
      mapped m a (unat n) \<and> (\<forall>q j. apart a (unat n) q j \<longrightarrow> fetch m q j = fetch (kmem s) q j) \<and>
      (\<forall>q j. mapped (kmem s) q j \<longrightarrow> mapped m q j)"
    by blast
qed

lemma elf_content: "file_content elf_disk demo_handle demo_entry [2, 3, 4] = elf_file"
  by (simp add: file_content_def demo_entry_fields sector_of_def demo_handle_def elf_disk_def demo_disk_def elf_file_def
      elf_ehdr_def demo_phdr_def elf_phdr1_def)

lemma elf_file_facts:
  "take 6 elf_file = [0x7F, 69, 76, 70, 1, 1]" "bs16 elf_file 16 = 2" "prog_phnum elf_file = 2" "prog_entry elf_file = 0x20010"
  "prog_phdr elf_file 0 = demo_phdr" "prog_phdr elf_file 1 = elf_phdr1"
  "prog_phdr_at elf_file 0 = 48" "prog_phdr_at elf_file 1 = 80"
proof -
  let ?b = elf_ehdr
  have len: "length ?b = 48" "length demo_phdr = 32" "length elf_phdr1 = 32" by (simp_all add: elf_ehdr_def demo_phdr_def elf_phdr1_def)
  then have t: "take 48 elf_file = ?b" by (simp add: elf_file_def)
  have b: "bs16 ?b 16 = 2" "bs16 ?b 44 = 2" "bs32 ?b 24 = 0x20010" "bs32 ?b 28 = 48" "bs16 ?b 42 = 32" by code_simp+
  have f: "bs16 elf_file 16 = 2" "bs16 elf_file 44 = 2" "bs32 elf_file 24 = 0x20010" "bs32 elf_file 28 = 48" "bs16 elf_file 42 = 32"
    using b bs_take(2) [of 16 48 elf_file] bs_take(2) [of 44 48 elf_file] bs_take(1) [of 24 48 elf_file]
      bs_take(1) [of 28 48 elf_file] bs_take(2) [of 42 48 elf_file]
    by (simp_all add: t)
  show "take 6 elf_file = [0x7F, 69, 76, 70, 1, 1]" by (simp add: elf_file_def elf_ehdr_def)
  show "bs16 elf_file 16 = 2" "prog_phnum elf_file = 2" "prog_entry elf_file = 0x20010"
    "prog_phdr_at elf_file 0 = 48" "prog_phdr_at elf_file 1 = 80"
    by (simp_all add: f prog_phnum_def prog_entry_def prog_phdr_at_def)
  then show "prog_phdr elf_file 0 = demo_phdr" "prog_phdr elf_file 1 = elf_phdr1"
    by (simp_all add: prog_phdr_def elf_file_def len)
qed

lemma put_in_strings:
  assumes "elf_memory m" and "i + length bs \<le> 0x400"
  shows "apart 0x7400 0x400 q k \<Longrightarrow> fetch (put m (0x7400 + of_nat i) bs) q k = fetch (kmem demo_open) q k"
    and "p < 0x100000 - of_nat n \<Longrightarrow> n < 0x100000 \<Longrightarrow> mapped (put m (0x7400 + of_nat i) bs) p n"
proof -
  show "fetch (put m (0x7400 + of_nat i) bs) q k = fetch (kmem demo_open) q k" if ap: "apart 0x7400 0x400 q k"
    using apart_sub [OF ap assms(2), of 0 k] assms(1) ap by (simp add: fetch_put_apart elf_memory_def)
  show "mapped (put m (0x7400 + of_nat i) bs) p n" if "p < 0x100000 - of_nat n" "n < 0x100000"
    using assms(1) that by (intro mapped_put) (simp add: elf_memory_def)
qed

lemma elf_mem_ok: "elf_memory elf_mem" "cstr elf_mem 0x7400 (47 # [97] @ 47 # [98])"
proof -
  have "fetch elf_mem q k = fetch (kmem demo_open) q k" if "apart 0x7400 0x400 q k" for q k
  proof -
    have "apart (0x7400 + of_nat i) (length l) q k" if "i + length l \<le> 0x400" for i and l :: "u8 list"
      using apart_sub [OF \<open>apart 0x7400 0x400 q k\<close> that, of 0 k] by simp
    from this [of 0 "[47, 97, 47, 98, 0]"] this [of "0x100" "[47, 0]"] this [of "0x200" "[0, 2, 0, 0]"]
      this [of "0x300" "[97, 0]"] this [of "0x380" "[47, 0]"]
    show ?thesis by (simp add: elf_mem_def fetch_put_apart)
  qed
  moreover have "mapped elf_mem p n" if "p < 0x100000 - of_nat n" "n < 0x100000" for p n
    unfolding elf_mem_def demo_open_kmem demo_kmem by (intro mapped_put floppy_mach_mapped that)
  moreover have "cstr elf_mem 0x7500 [47]" "cstr elf_mem 0x7700 [97]" "cstr elf_mem 0x7780 [47]" "ld32 elf_mem 0x7600 = Some 0x200"
    by (simp_all add: elf_mem_def put_def ld32_def le32_def)
  ultimately show "elf_memory elf_mem" by (simp add: elf_memory_def)
  show "cstr elf_mem 0x7400 (47 # [97] @ 47 # [98])" by (simp add: elf_mem_def put_def)
qed

lemma elf_cut:
  assumes "elf_memory m"
  shows "elf_memory (cut_path 0x7400 [97] m)"
proof -
  have e: "cut_path 0x7400 [97] m = put m (0x7400 + of_nat 2) [0]" by (intro ext) (simp add: cut_path_def put_def unat_eq_0)
  have "cstr (cut_path 0x7400 [97] m) 0x7500 [47]" "cstr (cut_path 0x7400 [97] m) 0x7700 [97]" "cstr (cut_path 0x7400 [97] m) 0x7780 [47]"
    "ld32 (cut_path 0x7400 [97] m) 0x7600 = Some 0x200"
    using assms by (simp_all add: elf_memory_def cut_path_def ld32_def)
  then show ?thesis using put_in_strings [OF assms, of 2 "[0]"] by (simp add: elf_memory_def e)
qed

lemma elf_kernel_sel:
  "kmem (elf_kernel m hl fl r) = m" "hlog (elf_kernel m hl fl r) = hl" "files (elf_kernel m hl fl r) = fl"
  "vfsst.more (elf_kernel m hl fl r) = r" "mountpoints (elf_kernel m hl fl r) = 0x7600" "curr_size (elf_kernel m hl fl r) = 1"
  "vfss (elf_kernel m hl fl r) = [0x200 \<mapsto> \<lparr>fs_type_of = 0x500, vcovered = 0x7700, vroot = 0x7780, fs_data = 0x700\<rparr>]"
  "vnode_opss (elf_kernel m hl fl r) = vnode_opss demo_open" "inodes (elf_kernel m hl fl r) = inodes demo_open"
  "handles (elf_kernel m hl fl r) = handles demo_open"
  "vnodes (elf_kernel m hl fl r) = (vnodes demo_open)(0x7780 \<mapsto> \<lparr>vfs_mountedhere = NULL, vfs_ptr = 0x200,
     vtype = V_DIRECTORY, vops = 0x300, vflags = 0, vdata = NULL\<rparr>)"
  by (simp_all add: elf_kernel_def vfsst.defs)

lemma elf_open:
  assumes m: "elf_memory m" "cstr m 0x7400 (47 # [97] @ 47 # [98])"
  shows "vfs_open elf_calls block_alloc 0x7500 0x7400 0 (elf_kernel m hl Map.empty r) =
    Some (0xB00, elf_kernel (cut_path 0x7400 [97] m) (Malloc SIZEOF_FILE 0xB00 # hl) opened_file r)"
proof -
  let ?s = "elf_kernel m hl Map.empty r" and ?c = "cut_path 0x7400 [97] m" and
    ?n = "\<lparr>vfs_mountedhere = NULL, vfs_ptr = 0x200, vtype = V_DIRECTORY, vops = 0x300, vflags = 0, vdata = NULL\<rparr>"
  note sel = elf_kernel_sel [of m hl Map.empty r]
  have path: "cstr (kmem ?s) 0x7400 (47 # [97] @ 47 # [98])" "cstr (kmem ?s) 0x7500 [47]"
    using m by (simp_all add: sel elf_memory_def)
  have c: "elf_memory ?c" by (rule elf_cut [OF m(1)])
  have o: "curr_size ?s = of_nat (length [Some ([97 :: u8], 0x7780 :: ptr)])" "vnodes ?s 0x7780 = Some ?n"
    "vnode_opss ?s 0x300 = Some \<lparr>vo_open = 0xC0102200, vo_close = 0xC0102300, vo_read = 0xC0102400,
         vo_write = 0xC0102500, vo_readdir = 0\<rparr>"
    by (simp_all add: sel demo_open_defs)
  have tbl: "mount_table (cut_path 0x7400 [97] (kmem ?s)) (vfss ?s) (mountpoints ?s) [Some ([97], 0x7780)]"
    using c by (simp add: mount_table_def mount_entry_def sel elf_memory_def)
  have upd: "?s\<lparr>kmem := ?c, hlog := Malloc SIZEOF_FILE 0xB00 # hl, files := opened_file\<rparr> =
      elf_kernel ?c (Malloc SIZEOF_FILE 0xB00 # hl) opened_file r"
    by (simp add: elf_kernel_def vfsst.defs)
  show ?thesis
    unfolding upd [symmetric]
    using vfs_open_found [OF _ path(1) _ _ path(2) tbl o(1) _ _ _ o(2), where calls = elf_calls and alloc = block_alloc
        and flags = 0] o(3)
    by (simp add: elf_calls_def block_alloc_def SIZEOF_FILE_def sel(1-3) opened_file_def)
qed

lemma elf_kernel_inv:
  assumes "\<And>n. length (dk n) = 512"
  shows "fd_inv (sim_floppy dk) demo_link dk (block_dev demo_handle) (elf_kernel m hl fl r)"
proof -
  have "settled (elf_kernel m hl fl r)"
    using floppy_mach_settled
    by (simp add: settled_def irqs_installed_def timer_installed_def elf_kernel_def vfsst.defs demo_open_defs)
  then show ?thesis
    using assms
    by (simp add: fd_inv_def sim_floppy_ok sim_floppy_ticking fdc_ready_def elf_kernel_def vfsst.defs demo_open_defs demo_link_def)
qed

lemma elf_vol_ready:
  assumes m: "elf_memory m"
  shows "vol_ready (sim_floppy elf_disk) demo_link elf_disk block_alloc demo_handle demo_es demo_entry [2, 3, 4] 0x100
    (elf_kernel m hl fl r)"
proof -
  let ?s = "elf_kernel m hl fl r"
  note sel = elf_kernel_sel [of m hl fl r]
  have "length (elf_disk n) = 512" for n
    by (simp add: elf_disk_def elf_ehdr_def demo_phdr_def elf_phdr1_def demo_disk_def)
  then have inv: "fd_inv (sim_floppy elf_disk) demo_link elf_disk (block_dev demo_handle) ?s" by (rule elf_kernel_inv)
  note rd = demo_ready [unfolded file_ready_def]
  have bps: "bpb_bytes_per_sector (kmem demo_open) (bpb demo_handle) = Some 512" using rd by simp
  have kept: "fetch m q k = fetch (kmem demo_open) q k" if "apart 0x7400 0x400 q k" for q k
    using m that by (simp add: elf_memory_def)
  have b: "fetch m (bpb demo_handle + 11) 2 = fetch (kmem demo_open) (bpb demo_handle + 11) 2"
    "fetch m (bpb demo_handle + 13) 1 = fetch (kmem demo_open) (bpb demo_handle + 13) 1"
    "fetch m (fat_table demo_handle) (length (pack12 demo_es)) =
      fetch (kmem demo_open) (fat_table demo_handle) (length (pack12 demo_es))"
    by (rule kept; use demo_es_facts(1) in \<open>simp add: apart_def demo_handle_def\<close>)+
  have "bpb_bytes_per_sector m (bpb demo_handle) = Some 512"
    using bps ld16_frame [OF b(1)] by (simp only: bpb_bytes_per_sector_def)
  moreover have "fat_holds m demo_handle demo_es" "fetch m (bpb demo_handle + 13) 1 = Some [1]"
    using demo_sector_buffer b(2,3)
    by (simp_all add: sector_buffer_def read_state_def fat_holds_def del: fetch.simps pack12.simps One_nat_def)
  moreover have "file_at ?s 0x100 demo_handle demo_entry"
    by (simp add: file_at_def sel demo_open_objects demo_defs demo_entry_fields)
  moreover have "unused 0xA000 ?s" by (simp add: unused_def sel demo_open_objects demo_defs)
  moreover have "mapped m 0xA000 512" using m by (simp add: elf_memory_def)
  moreover have "untouched block_alloc hl (fat_table demo_handle) (length (pack12 demo_es))"
    "untouched block_alloc hl (bpb demo_handle + 11) 3" for hl
    using demo_es_facts(1) by (simp_all add: untouched_def block_alloc_def apart_def demo_handle_def FLOPPY_DMA_BUFFER_def)
  ultimately show ?thesis
    using rd inv
    by (simp add: vol_ready_def block_alloc_def Let_def apart_def FLOPPY_DMA_BUFFER_def sel del: fetch.simps pack12.simps One_nat_def)
qed

lemma elf_regions:
  "seg_start demo_phdr = 0x20000" "seg_len demo_phdr = 0x1000" "seg_start elf_phdr1 = 0x22000" "seg_len elf_phdr1 = 0x1000"
  "seg_va demo_phdr = 0x20010" "seg_memsz demo_phdr = 300" "seg_va elf_phdr1 = 0x22000" "seg_memsz elf_phdr1 = 8"
  "seg_filesz demo_phdr = 100" "seg_off demo_phdr = 500" "seg_filesz elf_phdr1 = 8" "seg_off elf_phdr1 = 600"
  "seg_type demo_phdr = ELF_PT_LOAD" "seg_type elf_phdr1 = ELF_PT_LOAD"
  by code_simp+

lemmas elf_headers = elf_file_facts elf_file_facts(6) [unfolded One_nat_def]

lemma elf_loads: "loads elf_file i \<longleftrightarrow> i = 0 \<or> i = 1"
  using elf_file_facts(3,5,6) elf_regions(13,14) by (auto simp: loads_def less_Suc_eq numeral_2_eq_2)

lemma elf_loadable: "loadable block_alloc hl demo_handle demo_es 0x7100 0x7200 1100 elf_file"
proof -
  have free: "seg_free block_alloc hl demo_handle demo_es 0x7100 0x7200 demo_phdr"
    "seg_free block_alloc hl demo_handle demo_es 0x7100 0x7200 elf_phdr1"
    using demo_es_facts(1)
    by (simp_all add: seg_free_def area_ok_def untouched_def elf_regions apart_def block_alloc_def demo_handle_def
        FLOPPY_DMA_BUFFER_def)
  have valid: "seg_valid 1100 demo_phdr" "seg_valid 1100 elf_phdr1"
    by (simp_all add: seg_valid_def elf_regions word_le_nat_alt)
  have ap: "apart (seg_start elf_phdr1) (unat (seg_len elf_phdr1)) (seg_va demo_phdr) (unat (seg_memsz demo_phdr))"
    by (simp add: elf_regions apart_def)
  have at: "prog_phdr_at elf_file i + 32 \<le> 1100" if "i < prog_phnum elf_file" for i
    using that elf_file_facts(3,7,8) by (cases i) auto
  show ?thesis
    unfolding loadable_def using free valid ap at by (auto simp: elf_loads elf_headers)
qed

lemma elf_loader_ready:
  assumes mem: "elf_memory m"
  shows "loader_ready (sim_floppy elf_disk) demo_link elf_disk block_alloc demo_handle demo_es demo_entry [2, 3, 4] demo_fat_link
     0x100 0xB00 elf_places 0x7300 (elf_kernel m hl opened_file r)"
proof -
  have op: "open_at demo_fat_link 0xB00 0x100 0 (elf_kernel m hl opened_file r)"
    by (simp add: open_at_def elf_kernel_sel opened_file_def demo_open_defs demo_fat_link_def)
  have areas: "area_ok block_alloc hl demo_handle demo_es 0x7100 48" "area_ok block_alloc hl demo_handle demo_es 0x7200 32" for hl
    using demo_es_facts(1)
    by (simp_all add: area_ok_def untouched_def apart_def block_alloc_def demo_handle_def FLOPPY_DMA_BUFFER_def)
  have m: "mapped m 0x7100 48" "mapped m 0x7200 32" "mapped m 0x7300 4"
    using mem by (simp_all add: elf_memory_def)
  have e: "apart 0x7300 4 (seg_va (prog_phdr elf_file i)) (unat (seg_memsz (prog_phdr elf_file i)))" if "loads elf_file i" for i
    using that by (auto simp: elf_loads elf_headers elf_regions apart_def)
  have ap: "apart 0x7200 32 0x7100 48" by (simp add: apart_def)
  show ?thesis
    using elf_vol_ready [OF mem] op areas m e ap elf_loadable elf_file_facts(1,2)
    by (simp add: loader_ready_def Let_def elf_content elf_places_def demo_entry_fields ELF_TYPE_EXEC_def elf_kernel_sel)
qed

lemma elf_calls_read: "reads_fat (sim_floppy elf_disk) demo_link block_alloc demo_fat_link elf_calls"
  by (simp add: reads_fat_def elf_calls_def fat_calls_def)

lemma elf_images:
  "seg_image elf_file demo_phdr = replicate 12 33 @ replicate 88 34 @ replicate 200 0"
  "seg_image elf_file elf_phdr1 = replicate 8 34"
proof -
  have len: "length elf_ehdr = 48" "length demo_phdr = 32" "length elf_phdr1 = 32"
    by (simp_all add: elf_ehdr_def demo_phdr_def elf_phdr1_def)
  show "seg_image elf_file demo_phdr = replicate 12 33 @ replicate 88 34 @ replicate 200 0"
    "seg_image elf_file elf_phdr1 = replicate 8 34"
    by (simp_all add: seg_image_def elf_regions elf_file_def len)
qed


end
