(* ===== verification/FatPath.thy ===== *)
theory FatPath
  imports ElfRun Fat12Dir
begin

text \<open>
  From a path to the bytes of a file: \<open>vfs_open\<close> resolves \<open>/mount/name\<close> to the FAT12 volume mounted under the first
  name, \<open>fat12_open\<close> finds the second in its root directory on the floppy disk, and the file that
  results can be read (\<open>vol_ready\<close>).
\<close>

unbundle bit_operations_syntax

section \<open>A path on a mounted volume\<close>

text \<open>\<open>/tok/name\<close> leads to the root of the FAT12 volume \<open>fs\<close>. The string is cut after \<open>tok\<close> on the way.\<close>

definition mounted_at ::
  "fat_link \<Rightarrow> fat_env \<Rightarrow> fat12_handle \<Rightarrow> ptr \<Rightarrow> ptr \<Rightarrow> u8 list \<Rightarrow> u8 list \<Rightarrow> ptr \<Rightarrow> 'z vfsst_scheme \<Rightarrow> bool" where
  "mounted_at fl ev fs slash path tok name root s \<longleftrightarrow>
     path \<noteq> NULL \<and> cstr (kmem s) path (47 # tok @ 47 # name) \<and> tok \<noteq> [] \<and> 47 \<notin> set tok \<and> cstr (kmem s) slash [47]
     \<and> name \<noteq> [] \<and> length name < 28 \<and> path + 1 + of_nat (length tok) + 1 \<noteq> NULL
     \<and> (\<exists>ts n ops. mount_table (cut_path path tok (kmem s)) (vfss s) (mountpoints s) ts
          \<and> curr_size s = of_nat (length ts) \<and> length ts < 2 ^ 32 \<and> mp_lookup ts tok NULL = root
          \<and> vnodes s root = Some n \<and> vnode_opss s (vops n) = Some ops \<and> vo_open ops = l_fat_open fl)
     \<and> on_volume ev fs root (s\<lparr>kmem := cut_path path tok (kmem s)\<rparr>)
     \<and> (\<exists>ops. vnode_opss s (e_vnode_ops ev) = Some ops \<and> vo_read ops = l_fat_read fl)"

text \<open>The allocations for the node, its record and the open file, in a memory \<open>m\<close>.\<close>

definition open_log :: "ptr \<Rightarrow> ptr \<Rightarrow> ptr \<Rightarrow> heap_log \<Rightarrow> heap_log" where
  "open_log new ind fp hl = Malloc SIZEOF_FILE fp # Malloc SIZEOF_INODE ind # Malloc SIZEOF_VNODE new # hl"

definition open_blocks ::
  "allocator \<Rightarrow> fat_env \<Rightarrow> ptr \<Rightarrow> u8 list \<Rightarrow> ptr \<Rightarrow> ptr \<Rightarrow> ptr \<Rightarrow> heap_log \<Rightarrow> mem \<Rightarrow> bool" where
  "open_blocks alloc ev npath name new ind fp hl m \<longleftrightarrow>
     open_areas ev npath (Suc (length name)) m
     \<and> new = alloc hl SIZEOF_VNODE \<and> new \<noteq> NULL \<and> mapped m new 28 \<and> apart new 28 npath (Suc (length name))
     \<and> ind = alloc (Malloc SIZEOF_VNODE new # hl) SIZEOF_INODE \<and> ind \<noteq> NULL
     \<and> fp = alloc (Malloc SIZEOF_INODE ind # Malloc SIZEOF_VNODE new # hl) SIZEOF_FILE \<and> fp \<noteq> NULL
     \<and> (\<forall>bs. alloc (after_reads bs (open_log new ind fp hl)) 512 \<notin> {new, ind})"

text \<open>The volume before the file is opened: what \<open>vol_ready\<close> says of it, for the allocations that follow.\<close>

definition vol_mounted ::
  "allocator \<Rightarrow> fat12_handle \<Rightarrow> u16 list \<Rightarrow> heap_log \<Rightarrow> 'z fsst_scheme \<Rightarrow> bool" where
  "vol_mounted alloc fs es hl s \<longleftrightarrow>
     bpb_bytes_per_sector (kmem s) (bpb fs) = Some 512 \<and> fat_holds (kmem s) fs es \<and> fetch (kmem s) (bpb fs + 13) 1 = Some [1]
     \<and> (\<forall>bs. let rb = alloc (after_reads bs hl) 512
             in rb \<noteq> NULL \<and> unused rb s \<and> mapped (kmem s) rb 512 \<and> apart rb 512 FLOPPY_DMA_BUFFER 512)
     \<and> untouched alloc hl (fat_table fs) (length (pack12 es)) \<and> untouched alloc hl (bpb fs + 11) 3"

definition clear_of_open :: "fat_env \<Rightarrow> ptr \<Rightarrow> ptr \<Rightarrow> nat \<Rightarrow> bool" where
  "clear_of_open ev new q k \<longleftrightarrow> apart new 28 q k \<and> apart (e_fat_name ev) 11 q k \<and> apart (e_dir_entries ev) 512 q k"

lemma open_frame_fetch:
  "open_frame ev new ind s t \<Longrightarrow> clear_of_open ev new q k \<Longrightarrow> apart FLOPPY_DMA_BUFFER 512 q k \<Longrightarrow>
     fetch (kmem t) q k = fetch (kmem s) q k"
  by (simp add: open_frame_def clear_of_open_def)

lemma vol_opened:
  assumes v: "vol_mounted alloc fs es hl s" and f: "open_frame ev new ind s t" and i: "fd_inv h ln img (block_dev fs) t"
    and c: "clear_of_open ev new (fat_table fs) (length (pack12 es))" "clear_of_open ev new (bpb fs + 11) 3"
    and b: "\<forall>bs. alloc (after_reads bs hl) 512 \<notin> {new, ind}"
    and n: "file_at t new fs e" "file_chain 2880 es fs e cs" "contiguous_to (length cs) cs"
  shows "vol_ready h ln img alloc fs es e cs new (t\<lparr>hlog := hl, files := fm\<rparr>)"
proof -
  have u: "untouched alloc hl (fat_table fs) (length (pack12 es))" "untouched alloc hl (bpb fs + 11) 3"
    using v by (simp_all add: vol_mounted_def)
  then have fl: "apart FLOPPY_DMA_BUFFER 512 (fat_table fs) (length (pack12 es))" "apart FLOPPY_DMA_BUFFER 512 (bpb fs + 11) 3"
    by (simp_all add: untouched_def)
  have tab: "fetch (kmem t) (fat_table fs) (length (pack12 es)) = fetch (kmem s) (fat_table fs) (length (pack12 es))"
    by (rule open_frame_fetch [OF f c(1) fl(1)])
  have sub: "clear_of_open ev new (bpb fs + 11 + of_nat j) k" "apart FLOPPY_DMA_BUFFER 512 (bpb fs + 11 + of_nat j) k"
    if "j + k \<le> 3" for j k
    using c(2) fl(2) apart_inside [OF _ that] by (simp_all add: clear_of_open_def)
  have two: "fetch (kmem t) (bpb fs + 11) 2 = fetch (kmem s) (bpb fs + 11) 2"
    "fetch (kmem t) (bpb fs + 13) 1 = fetch (kmem s) (bpb fs + 13) 1"
    using open_frame_fetch [OF f sub [of 0 2]] open_frame_fetch [OF f sub [of 2 1]]
    by (simp_all add: add.assoc del: fetch.simps One_nat_def)
  have "bpb_bytes_per_sector (kmem t) (bpb fs) = Some 512"
    using v ld16_frame [OF two(1)] by (simp add: vol_mounted_def bpb_bytes_per_sector_def)
  moreover have "fat_holds (kmem t) fs es" "fetch (kmem t) (bpb fs + 13) 1 = Some [1]"
    using v tab two(2) by (simp_all add: vol_mounted_def fat_holds_def del: fetch.simps pack12.simps One_nat_def)
  moreover have "unused (alloc (after_reads bs hl) 512) (t\<lparr>hlog := hl, files := fm\<rparr>)" for bs
    using v f b by (auto simp: vol_mounted_def Let_def unused_def open_frame_def)
  moreover have "mapped (kmem t) (alloc (after_reads bs hl) 512) 512" for bs
    using v f by (auto simp: vol_mounted_def Let_def open_frame_def)
  moreover have "fd_inv h ln img (block_dev fs) (t\<lparr>hlog := hl, files := fm\<rparr>)"
    by (rule fd.inv_same [OF i]) (simp add: same_dev_def)
  moreover have "file_at (t\<lparr>hlog := hl, files := fm\<rparr>) new fs e"
    by (rule file_at_cong [THEN iffD2, OF _ _ _ _ n(1)]) simp_all
  ultimately show ?thesis
    using v u n(2,3) by (simp add: vol_ready_def vol_mounted_def Let_def del: fetch.simps One_nat_def)
qed

section \<open>Opening by path\<close>

lemma vfs_open_fat:
  assumes m: "mounted_at fl ev fs slash path tok name root s" and inv: "fd_inv h ln img (block_dev fs) s"
    and sp: "s' = s\<lparr>kmem := cut_path path tok (kmem s)\<rparr>" "npath = path + 1 + of_nat (length tok) + 1"
    and size: "unat (root_dir_start fs) + unat (root_dir_sectors fs) \<le> 2880"
    and bl: "open_blocks alloc ev npath name new ind fp (hlog s) (kmem s')"
    and entry: "dir_find (to_8_3 name) (root_entries img (unat (root_dir_start fs)) (unat (root_dir_sectors fs))) = Some p"
      "e = root_entries img (unat (root_dir_start fs)) (unat (root_dir_sectors fs)) ! p" "de_attributes e AND FAT12_DIR = 0"
      "file_chain 2880 es fs e cs" "contiguous_to (length cs) cs"
    and vol: "vol_mounted alloc fs es (open_log new ind fp (hlog s)) s'"
      "clear_of_open ev new (fat_table fs) (length (pack12 es))" "clear_of_open ev new (bpb fs + 11) 3"
  obtains t where "vfs_open (fat_calls (blkread (call_blk_read h ln)) alloc ev fl) alloc slash path flags s = Some (fp, t)"
    "vol_ready h ln img alloc fs es e cs new t" "open_at fl fp new 0 t" "hlog t = open_log new ind fp (hlog s)"
    "\<And>q k. mapped (kmem s') q k \<Longrightarrow> mapped (kmem t) q k"
proof -
  let ?c = "fat_calls (blkread (call_blk_read h ln)) alloc ev fl"
  have path: "path \<noteq> NULL" "cstr (kmem s) path (47 # tok @ 47 # name)" "tok \<noteq> []" "47 \<notin> set tok" "cstr (kmem s) slash [47]"
    and nm: "name \<noteq> []" "length name < 28" and on: "on_volume ev fs root s'"
    using m sp(1) by (simp_all add: mounted_at_def)
  obtain ts n ops where tbl: "mount_table (cut_path path tok (kmem s)) (vfss s) (mountpoints s) ts"
    "curr_size s = of_nat (length ts)" "length ts < 2 ^ 32" "mp_lookup ts tok NULL = root"
    "vnodes s root = Some n" "vnode_opss s (vops n) = Some ops" "vo_open ops = l_fat_open fl"
    using m by (auto simp: mounted_at_def)
  obtain rops where rops: "vnode_opss s (e_vnode_ops ev) = Some rops" "vo_read rops = l_fat_read fl"
    using m by (auto simp: mounted_at_def)
  have inv': "fd_inv h ln img (block_dev fs) s'" unfolding sp(1) by (rule fd.inv_same [OF inv]) (simp add: same_dev_def)
  have np: "cstr (kmem s') npath name" using first_token(4) [OF path] by (simp add: sp)
  have nn: "npath \<noteq> NULL" using m by (simp add: mounted_at_def sp(2))
  have hl: "hlog s' = hlog s" by (simp add: sp(1))
  have ob: "open_areas ev npath (Suc (length name)) (kmem s')" "new = alloc (hlog s') SIZEOF_VNODE" "new \<noteq> NULL"
    "mapped (kmem s') new 28" "apart new 28 npath (Suc (length name))"
    "alloc (Malloc SIZEOF_VNODE new # hlog s') SIZEOF_INODE \<noteq> NULL" and ind: "ind = alloc (Malloc SIZEOF_VNODE new # hlog s') SIZEOF_INODE"
    and fpa: "alloc (Malloc SIZEOF_INODE ind # Malloc SIZEOF_VNODE new # hlog s) SIZEOF_FILE = fp" "fp \<noteq> NULL"
    and rb: "\<forall>bs. alloc (after_reads bs (open_log new ind fp (hlog s))) 512 \<notin> {new, ind}"
    using bl unfolding open_blocks_def hl by (elim conjE; (metis | assumption))+
  obtain u where u: "fat12_open (blkread (call_blk_read h ln)) alloc ev root npath flags s' = Some (new, u)"
    "opened ev fs name (root_entries img (unat (root_dir_start fs)) (unat (root_dir_sectors fs))) new p u"
    "fd_inv h ln img (block_dev fs) u" "open_frame ev new ind s' u"
    using fat12_open_result [OF inv' on size nn np nm ob(1-6) refl, of flags] by (auto simp: entry(1) ind)
  have call: "c_open ?c (vo_open ops) root npath flags s' = Some (new, u)" using u(1) by (simp add: fat_calls_def tbl(7))
  have hu: "hlog u = Malloc SIZEOF_INODE ind # Malloc SIZEOF_VNODE new # hlog s" using u(4) by (simp add: open_frame_def hl)
  have root: "root \<noteq> NULL" using on by (simp add: on_volume_def)
  let ?f = "\<lparr>f_vnode_ptr = new, f_offset = 0, f_flags = flags\<rparr>"
  let ?t = "u\<lparr>hlog := open_log new ind fp (hlog s), files := (files u)(fp \<mapsto> ?f)\<rparr>"
  have op: "vfs_open ?c alloc slash path flags s = Some (fp, ?t)"
    using vfs_open_found [where s = s and ?s1.0 = u and calls = ?c and alloc = alloc, OF path tbl(1-4) root tbl(5,6) call [unfolded sp] fpa(1) [folded hu] fpa(2)]
    by (simp add: open_log_def hu)
  obtain nd where nd: "vnodes u new = Some nd" "vops nd = e_vnode_ops ev" "file_at u new fs e"
    using u(2) entry(2,3) by (auto simp: opened_def)
  have more: "vnode_opss u = vnode_opss s" using more_files(2) [of u s'] u(4) by (simp add: open_frame_def sp(1))
  show ?thesis
  proof (rule that [OF op])
    show "vol_ready h ln img alloc fs es e cs new ?t"
      by (rule vol_opened [OF vol(1) u(4,3) vol(2,3) rb nd(3) entry(4,5)])
    show "open_at fl fp new 0 ?t" using nd(1,2) rops fpa(2) ob(3) by (simp add: open_at_def more)
    show "mapped (kmem ?t) q k" if "mapped (kmem s') q k" for q k using u(4) that by (simp add: open_frame_def)
  qed simp
qed


section \<open>A file to read\<close>

definition path_env :: fat_env where
  "path_env = \<lparr>e_fs_type = 0x500, e_vnode_ops = 0x300, e_slash = 0x7500, e_dir_entries = 0x8000, e_fat_name = 0x7800\<rparr>"

definition path_mem :: mem where
  "path_mem = put elf_mem (0x7400 + of_nat 0) [47, 97, 47, 72, 73, 46, 84, 88, 84, 0]"

lemma path_mem_ok: "elf_memory path_mem" "cstr path_mem 0x7400 (47 # [97] @ 47 # [72, 73, 46, 84, 88, 84])"
proof -
  have "cstr path_mem 0x7500 [47]" "cstr path_mem 0x7700 [97]" "cstr path_mem 0x7780 [47]" "ld32 path_mem 0x7600 = Some 0x200"
    using elf_mem_ok(1) by (simp_all add: path_mem_def put_def elf_memory_def ld32_def)
  then show "elf_memory path_mem"
    using put_in_strings [where i = 0 and bs = "[47, 97, 47, 72, 73, 46, 84, 88, 84, 0]", OF elf_mem_ok(1)]
    by (simp add: elf_memory_def path_mem_def)
  show "cstr path_mem 0x7400 (47 # [97] @ 47 # [72, 73, 46, 84, 88, 84])" by (simp add: path_mem_def put_def)
qed

definition path_start :: vfsst where
  "path_start = elf_kernel path_mem [] Map.empty ()"

definition path_cut :: vfsst where
  "path_cut = path_start\<lparr>kmem := cut_path 0x7400 [97] path_mem\<rparr>"

lemma path_cut_kernel: "path_cut = elf_kernel (cut_path 0x7400 [97] path_mem) [] Map.empty ()"
  by (simp add: path_cut_def path_start_def elf_kernel_def vfsst.defs)

lemma path_mounted: "mounted_at demo_fat_link path_env demo_handle 0x7500 0x7400 [97] [72, 73, 46, 84, 88, 84] 0x7780 path_start"
proof -
  note c = elf_cut [OF path_mem_ok(1)]
  have tbl: "mount_table (cut_path 0x7400 [97] path_mem) (vfss path_start) (mountpoints path_start) [Some ([97], 0x7780)]"
    using c by (simp add: mount_table_def mount_entry_def path_start_def elf_kernel_sel elf_memory_def)
  have on: "on_volume path_env demo_handle 0x7780 path_cut"
    using c by (simp add: on_volume_def path_cut_kernel elf_kernel_sel elf_memory_def path_env_def demo_open_objects demo_defs)
  show ?thesis
    unfolding mounted_at_def
    using tbl on path_mem_ok
    by (intro conjI exI [of _ "[Some ([97], 0x7780)]"])
      (simp_all add: path_start_def path_cut_def elf_kernel_sel path_env_def demo_open_defs demo_fat_link_def elf_memory_def)
qed

lemma path_blocks:
  "open_blocks block_alloc path_env 0x7403 [72, 73, 46, 84, 88, 84] 0x7720 0xD80 0xB00 (hlog path_start) (kmem path_cut)"
proof -
  have "mapped (kmem path_cut) 0x8000 512" "mapped (kmem path_cut) 0x7800 11" "mapped (kmem path_cut) 0x7720 28"
    using elf_cut [OF path_mem_ok(1)] by (simp_all add: path_cut_kernel elf_kernel_sel elf_memory_def)
  then show ?thesis
    by (simp add: open_blocks_def open_areas_def path_env_def apart_def FLOPPY_DMA_BUFFER_def block_alloc_def
        SIZEOF_VNODE_def SIZEOF_INODE_def SIZEOF_FILE_def)
qed

lemma path_entry:
  "dir_find (to_8_3 [72, 73, 46, 84, 88, 84]) (root_entries dir_disk (unat (root_dir_start demo_handle)) (unat (root_dir_sectors demo_handle)))
    = Some 1"
  "demo_file_entry = root_entries dir_disk (unat (root_dir_start demo_handle)) (unat (root_dir_sectors demo_handle)) ! 1"
  "de_attributes demo_file_entry AND FAT12_DIR = 0" "de_first_cluster_low demo_file_entry = 2" "de_file_size demo_file_entry = 1100"
proof -
  have u: "unat (root_dir_start demo_handle) = 19" "unat (root_dir_sectors demo_handle) = 14" by (simp_all add: demo_handle_def)
  show "dir_find (to_8_3 [72, 73, 46, 84, 88, 84]) (root_entries dir_disk (unat (root_dir_start demo_handle))
      (unat (root_dir_sectors demo_handle))) = Some 1"
    "demo_file_entry = root_entries dir_disk (unat (root_dir_start demo_handle)) (unat (root_dir_sectors demo_handle)) ! 1"
    unfolding u by (simp_all only: dir_find_demo)
  show "de_attributes demo_file_entry AND FAT12_DIR = 0" "de_first_cluster_low demo_file_entry = 2" "de_file_size demo_file_entry = 1100"
    by code_simp+
qed

lemma path_chain: "file_chain 2880 demo_es demo_handle demo_file_entry [2, 3, 4]" "contiguous_to (length [2 :: u16, 3, 4]) [2, 3, 4]"
proof -
  have r: "file_chain 2880 demo_es demo_handle demo_entry [2, 3, 4]" "contiguous_to (length [2 :: u16, 3, 4]) [2, 3, 4]"
    using demo_ready unfolding file_ready_def by blast+
  then show "file_chain 2880 demo_es demo_handle demo_file_entry [2, 3, 4]"
    by (simp add: file_chain_def demo_entry_fields path_entry(4,5))
  show "contiguous_to (length [2 :: u16, 3, 4]) [2, 3, 4]" by (rule r(2))
qed

lemma path_vol: "vol_mounted block_alloc demo_handle demo_es hl path_cut"
  using elf_vol_ready [OF elf_cut [OF path_mem_ok(1)], of hl Map.empty "()"]
  by (simp add: vol_mounted_def vol_ready_def path_cut_kernel unused_def elf_kernel_sel Let_def del: fetch.simps pack12.simps One_nat_def)

lemma path_content:
  "file_content dir_disk demo_handle demo_file_entry [2, 3, 4] = replicate 512 33 @ replicate 512 34 @ replicate 76 35"
  by (simp add: file_content_def path_entry(5) sector_of_def demo_handle_def dir_disk_def)


end
