(* ===== verification/SchedProps.thy ===== *)
theory SchedProps
  imports SchedDemo
begin

text \<open>
  The properties of the scheduler: the linked queues refine lists, every run keeps the invariant,
  the threads of the highest priority take turns, and the threads of priority 10 never run.
\<close>

section \<open>Refinement\<close>

text \<open>C18: posting a live thread that is in no queue appends it to the list of its priority, whatever the
  queue contains, marks it ready and changes nothing else but the links of the queue and the interrupt flag, which
  is set.\<close>

theorem scheduler_post_refines:
  assumes "sched_rel s Q" and "thrs s th = Some t" and "th \<noteq> NULL" and "th \<notin> queued Q"
    and "tstate t \<noteq> STATE_TERMINATED" and "unat (tpriority t) < 11"
  shows "\<exists>s'. scheduler_post th s = Some s' \<and> sched_rel s' (enq (unat (tpriority t)) th Q) \<and>
    sched_frame s s' \<and> iflag s' \<and> cores s' = (cores s)(th \<mapsto> core (t\<lparr>tstate := STATE_READY\<rparr>))"
  by (rule post_enq [OF assms])

theorem scheduler_post_refines_witness:
  "\<exists>s'. scheduler_post 0x1000 demo_sched = Some s' \<and>
    sched_rel s' [[], [], [], [], [], [0x1100, 0x1200, 0x1000], [], [], [], [], [0x1300]]"
proof -
  have t: "thrs demo_sched 0x1000 = Some (demo_thread 5 STATE_RUNNING 0x1100 NULL)"
    "tstate (demo_thread 5 STATE_RUNNING 0x1100 NULL) \<noteq> STATE_TERMINATED"
    "unat (tpriority (demo_thread 5 STATE_RUNNING 0x1100 NULL)) = 5"
    by (simp_all add: demo_sched_defs)
  show ?thesis
    using scheduler_post_refines [OF demo_rel t(1) _ _ t(2)] unfolding t(3) demo_queued
    by (auto simp: enq_def demo_queues_def)
qed

text \<open>C19: putting a thread back and searching for the next one, as the clock tick does when a slice has
  expired, rotates the threads of the highest priority by one: the next thread is the oldest in the queue, the
  one put back is the last, and no thread is lost or doubled.\<close>

theorem scheduler_requeue_rotates:
  assumes "sched_rel s Q" and "thread_prio s x = Some p" and "x \<notin> queued Q" and "top_at p Q"
    and "rotate1 (x # Q ! p) = y # ys"
  shows "\<exists>s'. requeue scheduler_post (sched_pick PROCESS_PRI_MAX) x s = Some (y, s') \<and>
    sched_rel s' (Q[p := ys]) \<and> thread_prio s' = thread_prio s \<and> y \<notin> queued (Q[p := ys])"
  by (rule rq.requeue_rotates [OF assms])

theorem scheduler_requeue_rotates_witness:
  "\<exists>s'. requeue scheduler_post (sched_pick PROCESS_PRI_MAX) 0x1000 demo_sched = Some (0x1100, s') \<and>
    sched_rel s' [[], [], [], [], [], [0x1200, 0x1000], [], [], [], [], [0x1300]]"
proof -
  have "thread_prio demo_sched 0x1000 = Some 5" by (simp add: thread_prio_def demo_sched_defs)
  from scheduler_requeue_rotates [OF demo_rel this _ demo_top, of "0x1100" "[0x1200, 0x1000]"] obtain s' where
    s': "requeue scheduler_post (sched_pick PROCESS_PRI_MAX) 0x1000 demo_sched = Some (0x1100, s')"
      "sched_rel s' (demo_queues[5 := [0x1200, 0x1000]])"
    by (auto simp: demo_queued demo_running)
  then show ?thesis by (simp add: demo_queues_def)
qed

section \<open>Every run\<close>

text \<open>C7: after any sequence of clock ticks, of new threads posted and of threads ended, the state is one
  that satisfies the invariant of the scheduler (the queues are well formed and hold ready threads of their
  priority once each, none of them the running one, each with a full slice and a live process), and the next clock
  tick does not fault.\<close>

theorem scheduler_runs_safely:
  assumes "sched_inv s Q" and "vmm_frame vm" and "(kstep vm)\<^sup>*\<^sup>* s s'"
  shows "\<exists>Q'. sched_inv s' Q' \<and> (\<forall>ctx. \<exists>r s''. scheduler_tick vm ctx s' = Some (r, s''))"
proof -
  obtain Q' where Q': "sched_inv s' Q'" using run_inv [OF assms(3,1,2)] by blast
  have "\<exists>r s''. scheduler_tick vm ctx s' = Some (r, s'')" for ctx using tick_inv [OF Q' assms(2)] by blast
  then show ?thesis using Q' by blast
qed

theorem scheduler_runs_safely_witness:
  "\<exists>r s1 Q1. scheduler_tick demo_vmm 0x6000 demo_sched = Some (r, s1) \<and> sched_inv s1 Q1 \<and>
     (\<exists>r s2. scheduler_tick demo_vmm 0x6100 s1 = Some (r, s2))"
proof -
  obtain r s1 where t: "scheduler_tick demo_vmm 0x6000 demo_sched = Some (r, s1)"
    using tick_inv [OF demo_sched_inv demo_vmm_frame] by blast
  then have "(kstep demo_vmm)\<^sup>*\<^sup>* demo_sched s1" by (intro r_into_rtranclp kstep.tick)
  from scheduler_runs_safely [OF demo_sched_inv demo_vmm_frame this] show ?thesis using t by blast
qed

text \<open>C23: a thread of priority 10, the highest of \<open>include/proc/process.h\<close>, that waits in its queue never
  gets the processor, whatever the kernel does: no sequence of ticks, new threads and ended threads makes it the
  running one.\<close>

theorem priority_10_never_runs:
  assumes "sched_inv s Q" and "vmm_frame vm" and "(kstep vm)\<^sup>*\<^sup>* s s'" and "x \<in> set (Q ! 10)"
  shows "current_thread s' \<noteq> x"
proof -
  obtain Q' where Q': "sched_inv s' Q'" "set (Q ! 10) \<subseteq> set (Q' ! 10)"
    using run_inv [OF assms(3,1,2)] by blast
  then have "x \<in> queued Q'" using queued_nth [of 10 Q' x] inv_len [OF Q'(1)] assms(4) by auto
  then show ?thesis using inv_rel(2) [OF Q'(1)] by blast
qed

theorem priority_10_never_runs_witness:
  "\<exists>r s1. scheduler_tick demo_vmm 0x6000 demo_sched = Some (r, s1) \<and> current_thread s1 \<noteq> 0x1300"
proof -
  obtain r s1 where t: "scheduler_tick demo_vmm 0x6000 demo_sched = Some (r, s1)"
    using tick_inv [OF demo_sched_inv demo_vmm_frame] by blast
  then have "(kstep demo_vmm)\<^sup>*\<^sup>* demo_sched s1" by (intro r_into_rtranclp kstep.tick)
  from priority_10_never_runs [OF demo_sched_inv demo_vmm_frame this, of "0x1300"] show ?thesis
    using t by (simp add: demo_running)
qed

text \<open>C6: among threads of the same priority with none ready between it and 10, the processor goes round:
  every one of them becomes the running thread after a whole number of slices, at most as many as threads wait, and
  a slice is exactly five clock ticks.\<close>

theorem scheduler_round_robin:
  assumes "sched_inv s Q" and "vmm_frame vm" and "running s p (unat SLICE)" and "top_at p Q"
    and "x \<in> insert (current_thread s) (set (Q ! p))"
  shows "\<exists>n \<le> length (Q ! p). \<forall>cs. length cs = unat SLICE * n \<longrightarrow>
    (\<exists>s'. run_ticks vm cs s = Some s' \<and> current_thread s' = x)"
proof -
  let ?l = "current_thread s # Q ! p"
  have sl: "unat SLICE = 5" by (simp add: SLICE_def)
  obtain n where n: "n < length ?l" "?l ! n = x" using assms(5) by (metis in_set_conv_nth list.set(2))
  then have "hd (rotate n ?l) = x" by (subst hd_rotate_conv_nth) simp_all
  then have "\<exists>s'. run_ticks vm cs s = Some s' \<and> current_thread s' = x" if "length cs = 5 * n" for cs
    using rounds [OF assms(1,2) assms(3) [unfolded sl] assms(4) that] by simp
  moreover have "n \<le> length (Q ! p)" using n(1) by simp
  ultimately show ?thesis unfolding sl by blast
qed

theorem scheduler_round_robin_witness:
  "\<exists>n \<le> 2. \<exists>s'. run_ticks demo_vmm (replicate (5 * n) 0x6000) demo_sched = Some s' \<and> current_thread s' = 0x1200"
proof -
  have "running demo_sched 5 (unat SLICE)" using demo_running by (simp add: SLICE_def)
  from scheduler_round_robin [OF demo_sched_inv demo_vmm_frame this demo_top, of "0x1200"] obtain n where
    n: "n \<le> 2" "\<forall>cs. length cs = unat SLICE * n \<longrightarrow>
      (\<exists>s'. run_ticks demo_vmm cs demo_sched = Some s' \<and> current_thread s' = 0x1200)"
    by (auto simp: demo_running numeral_2_eq_2)
  have "length (replicate (5 * n) (0x6000 :: ptr)) = unat SLICE * n" by (simp add: SLICE_def)
  then show ?thesis using n by blast
qed

text \<open>C38: when the slice of a thread expires and no other thread below priority 10 is ready, the tick
  returns to it, but leaves it marked ready and not running.\<close>

theorem lone_thread_left_ready:
  assumes "sched_inv s Q" and "vmm_frame vm" and "running s p 1" and "\<forall>j < 10. Q ! j = []"
  shows "\<exists>s' t. scheduler_tick vm ctx s = Some (Returned, s') \<and> current_thread s' = current_thread s \<and>
    thrs s' (current_thread s) = Some t \<and> tstate t = STATE_READY"
proof -
  let ?c = "current_thread s"
  obtain t where t: "thrs s ?c = Some t" "unat (tpriority t) = p" "time_slice t = 1" "p < 10"
    using assms(3) inv_current [OF assms(1)] by (auto simp: running_def word_unat_eq_iff)
  have "top_at p (enq p ?c Q)" using assms(4) t(4) inv_len [OF assms(1)] by (auto simp: top_at_def enq_nth)
  moreover have "enq p ?c Q ! p = [?c]" using assms(4) t(4) inv_len [OF assms(1)] by (simp add: enq_nth)
  ultimately have pk: "apick 10 (enq (unat (tpriority t)) ?c Q) = (?c, (enq p ?c Q)[p := []])"
    using apick_top [of p _ 10 ?c "[]"] t(2,4) by simp
  obtain s' where s': "scheduler_tick vm ctx s = Some (Returned, s')" "current_thread s' = ?c"
    "cores s' ?c = Some (core (t\<lparr>trap_frame := ctx, time_slice := SLICE, tstate := STATE_READY\<rparr>))"
    using tick_expired [OF assms(1,2) t(1,3) pk, of ctx] by auto
  then obtain u where u: "thrs s' ?c = Some u"
    "core u = core (t\<lparr>trap_frame := ctx, time_slice := SLICE, tstate := STATE_READY\<rparr>)"
    using cores_Some by blast
  have "tstate u = STATE_READY" using arg_cong [OF u(2), of tstate] by simp
  then show ?thesis using s' u(1) by blast
qed

definition demo_lone :: procst where
  "demo_lone = demo_sched\<lparr>thrs := [0x1000 \<mapsto> (demo_thread 5 STATE_RUNNING NULL NULL)\<lparr>time_slice := 1\<rparr>],
     queue := replicate 11 NULL, queue_tail := replicate 11 NULL\<rparr>"

lemma demo_lone_inv: "sched_inv demo_lone (replicate 11 [])"
proof -
  have q: "queued (replicate 11 []) = {}" by (auto simp: queued_def)
  have "sched_rel demo_lone (replicate 11 [])"
    unfolding sched_rel_def rq_ok_def by (simp add: demo_lone_def demo_sched_defs)
  then show ?thesis unfolding sched_inv_def q
    by (simp add: demo_lone_def demo_sched_defs cores_def runnable_def proc_at_def)
qed

theorem lone_thread_left_ready_witness:
  "\<exists>s' t. scheduler_tick demo_vmm 0x6000 demo_lone = Some (Returned, s') \<and> thrs s' 0x1000 = Some t \<and>
    tstate t = STATE_READY"
proof -
  have "running demo_lone 5 1" "current_thread demo_lone = 0x1000"
    by (simp_all add: running_def demo_lone_def demo_sched_defs)
  then show ?thesis using lone_thread_left_ready [OF demo_lone_inv demo_vmm_frame, of 5 "0x6000"] by auto
qed

text \<open>C27: when both allocations succeed, initialisation establishes the invariant: all eleven queues are
  empty and the running thread is the kernel's, of priority 5, with a full slice.\<close>

theorem scheduler_init_establishes:
  assumes "alloc (hlog s) SIZEOF_PROCESS = kp" and "kp \<noteq> NULL"
    and "alloc (Malloc SIZEOF_PROCESS kp # hlog s) SIZEOF_THREAD = kt" and "kt \<noteq> NULL"
  shows "\<exists>s'. scheduler_init vm alloc junk s = Some s' \<and> sched_inv s' (replicate 11 []) \<and>
    current_thread s' = kt \<and> current_proc s' = kp \<and> running s' 5 (unat SLICE)"
proof -
  have q: "queued (replicate 11 []) = {}" by (auto simp: queued_def)
  have r: "sched_rel t (replicate 11 [])" if "queue t = replicate 11 NULL" "queue_tail t = replicate 11 NULL" for t :: "'a procst_scheme"
    using that by (simp add: sched_rel_def rq_ok_def)
  have p: "PROCESS_PRI_MAX + 1 = 11" by (simp add: PROCESS_PRI_MAX_def)
  show ?thesis
    using assms ready_not_terminated unfolding scheduler_init_def Let_def p
    by (simp add: malloc_def sched_inv_def q r cores_def thr_put_def proc_put_def runnable_def proc_at_def
        running_def SLICE_def)
qed

theorem scheduler_init_establishes_witness:
  "\<exists>s'. scheduler_init demo_vmm (pool [0x2000, 0x1000]) (0, 0, 0) blank_kernel = Some s' \<and>
     sched_inv s' (replicate 11 []) \<and> current_thread s' = 0x1000"
  using scheduler_init_establishes [of "pool [0x2000, 0x1000]" blank_kernel "0x2000" "0x1000" demo_vmm "(0, 0, 0)"]
  by (auto simp: pool_def blank_kernel_def)

end
