(* ===== verification/ThreadList.thy ===== *)
theory ThreadList
  imports SchedDemo
begin

text \<open>
  Destroying a thread: the two walks of \<open>thread_destroy\<close> on the linked lists they run over, the
  ready queue of the thread's priority and the list of threads of its process.
\<close>

section \<open>The ready queue\<close>

definition links :: "'z procst_scheme \<Rightarrow> ptr \<Rightarrow> (ptr \<times> u32 \<times> u32) option" where
  "links s x = map_option (\<lambda>t. (next_ready t, tpriority t, tstate t)) (thrs s x)"

lemma rq_list_links:
  "(\<And>x. x \<in> set xs \<Longrightarrow> map_option next_ready (h' x) = map_option next_ready (h x)) \<Longrightarrow>
   rq_list h' p xs = rq_list h p xs"
proof (induction xs arbitrary: p)
  case (Cons a xs)
  then have "map_option next_ready (h' a) = map_option next_ready (h a)" by simp
  then show ?case using Cons by (cases "h a"; cases "h' a") auto
qed simp

lemma links_ready: "links s' x = links s x \<Longrightarrow> ready_at s' i x = ready_at s i x"
  unfolding links_def ready_at_def by (cases "thrs s x"; cases "thrs s' x") auto

lemma links_next: "links s' x = links s x \<Longrightarrow> map_option next_ready (thrs s' x) = map_option next_ready (thrs s x)"
  unfolding links_def by (cases "thrs s x"; cases "thrs s' x") auto

lemma rel_links:
  assumes rel: "sched_rel s Q" and q: "queue s' = queue s" "queue_tail s' = queue_tail s"
    and l: "\<And>x. x \<in> queued Q \<Longrightarrow> links s' x = links s x"
  shows "sched_rel s' Q"
  unfolding sched_rel_def
proof (intro conjI allI impI)
  fix i :: nat
  assume i: "i < 11"
  have "links s' x = links s x" if "x \<in> set (Q ! i)" for x
    using l [OF queued_nth [OF _ that]] rel i by (simp add: sched_rel_def)
  then have "rq_list (thrs s') h (Q ! i) = rq_list (thrs s) h (Q ! i)"
    "(\<forall>x \<in> set (Q ! i). ready_at s' i x) = (\<forall>x \<in> set (Q ! i). ready_at s i x)" for h
    using rq_list_links [of "Q ! i" "thrs s'" "thrs s"] links_next [of s' _ s] links_ready [of s' _ s i] by simp_all
  then show "rq_ok s' i (Q ! i)" using rel i q by (simp add: sched_rel_def rq_ok_def)
qed (use rel q in \<open>auto simp: sched_rel_def\<close>)

lemma rel_ok: "sched_rel s Q \<Longrightarrow> i < 11 \<Longrightarrow> rq_ok s i (Q ! i)"
  by (simp add: sched_rel_def)

lemma rq_list_at:
  "rq_list h p (as @ x # bs) \<Longrightarrow> x \<noteq> NULL \<and> (\<exists>t. h x = Some t \<and> rq_list h (next_ready t) bs)"
  by (induction as arbitrary: p) (auto split: option.splits)

lemma rq_walk_finds:
  "rq_list h p (as @ y # x # bs) \<Longrightarrow> distinct (as @ y # x # bs) \<Longrightarrow> rq_walk h x pv p = Some (y, x)"
proof (induction as arbitrary: p pv)
  case Nil
  then obtain t where t: "h y = Some t" "p = y" "y \<noteq> NULL" "next_ready t = x" "y \<noteq> x"
    by (auto split: option.splits)
  have "rq_walk h x pv y = rq_walk h x y x"
    using t rq_walk.simps [of h x pv y] by simp
  then show ?case using t(2) rq_walk.simps [of h x y x] by simp
next
  case (Cons a as)
  then obtain t where t: "h a = Some t" "p = a" "a \<noteq> NULL" "a \<noteq> x" "rq_list h (next_ready t) (as @ y # x # bs)"
    by (auto split: option.splits)
  then show ?case using Cons rq_walk.simps [of h x pv a] by simp
qed

lemma rq_list_cut:
  "rq_list h p (as @ y # x # bs) \<Longrightarrow> distinct (as @ y # x # bs) \<Longrightarrow> h y = Some u \<Longrightarrow> h x = Some t \<Longrightarrow>
   rq_list (h(y \<mapsto> u\<lparr>next_ready := next_ready t\<rparr>)) p (as @ y # bs)"
proof (induction as arbitrary: p)
  case Nil
  then have "rq_list (h(y \<mapsto> u\<lparr>next_ready := next_ready t\<rparr>)) (next_ready t) bs = rq_list h (next_ready t) bs"
    by (intro rq_list_cong) auto
  then show ?case using Nil by (auto simp: fun_upd_def split: option.splits)
next
  case (Cons a as)
  then show ?case by (auto split: option.splits)
qed

lemma rq_unlink_spec:
  assumes rel: "sched_rel s Q" and t: "thrs s x = Some t" and q: "Q ! unat (tpriority t) = as @ x # bs"
    and p: "unat (tpriority t) < 11"
  shows "\<exists>s'. rq_unlink x t s = Some s' \<and> s' = s\<lparr>queue := queue s', thrs := thrs s'\<rparr> \<and> cores s' = cores s \<and>
    length (queue s') = 11 \<and> (\<forall>j. j \<noteq> unat (tpriority t) \<longrightarrow> queue s' ! j = queue s ! j) \<and>
    rq_list (thrs s') (queue s' ! unat (tpriority t)) (as @ bs) \<and> (\<forall>w. w \<notin> set as \<longrightarrow> thrs s' w = thrs s w)"
proof -
  let ?p = "unat (tpriority t)"
  have ok: "rq_list (thrs s) (queue s ! ?p) (as @ x # bs)" "distinct (as @ x # bs)"
    and len: "length (queue s) = 11"
    using rel_ok [OF rel p] rel q by (auto simp: sched_rel_def rq_ok_def)
  have xn: "x \<noteq> NULL" and tail: "rq_list (thrs s) (next_ready t) bs" using rq_list_at [OF ok(1)] t by auto
  show ?thesis
  proof (cases as rule: rev_cases)
    case Nil
    then have "queue s ! ?p = x" using ok by simp
    then have "rq_unlink x t s = Some (s\<lparr>queue := (queue s)[?p := next_ready t]\<rparr>)"
      using p len by (simp add: rq_unlink_def rq_get_def Let_def)
    then show ?thesis using Nil p len tail by (auto simp: cores_def)
  next
    case (snoc as' y)
    have ok': "rq_list (thrs s) (queue s ! ?p) (as' @ y # x # bs)" "distinct (as' @ y # x # bs)"
      using ok snoc by simp_all
    have hd: "queue s ! ?p \<noteq> x" using ok' by (cases as') auto
    obtain u where u: "thrs s y = Some u" "y \<noteq> NULL" using rq_list_at [OF ok'(1)] by blast
    let ?s = "thr_put y (u\<lparr>next_ready := next_ready t\<rparr>) s"
    have "rq_unlink x t s = Some ?s"
      using p len hd rq_walk_finds [OF ok'] xn u t by (simp add: rq_unlink_def rq_get_def thr_at_def Let_def)
    moreover have "rq_list (thrs ?s) (queue ?s ! ?p) (as @ bs)"
      using rq_list_cut [OF ok' u(1) t] snoc by simp
    moreover have "cores ?s = cores s" using u(1) by (auto simp: cores_def core_def fun_eq_iff)
    ultimately show ?thesis using snoc len by (auto simp: thr_put_def)
  qed
qed

section \<open>The threads of a process\<close>

fun tlist :: "(ptr \<Rightarrow> thread option) \<Rightarrow> ptr \<Rightarrow> ptr list \<Rightarrow> bool" where
  "tlist h p [] \<longleftrightarrow> p = NULL"
| "tlist h p (x # xs) \<longleftrightarrow> p = x \<and> x \<noteq> NULL \<and>
     (case h x of None \<Rightarrow> False | Some t \<Rightarrow> tlist h (tnext t) xs)"

lemma tlist_cong:
  "(\<And>x. x \<in> set xs \<Longrightarrow> map_option tnext (h' x) = map_option tnext (h x)) \<Longrightarrow> tlist h' p xs = tlist h p xs"
proof (induction xs arbitrary: p)
  case (Cons a xs)
  then have "map_option tnext (h' a) = map_option tnext (h a)" by simp
  then show ?case using Cons by (cases "h a"; cases "h' a") auto
qed simp

lemma tlist_at: "tlist h p (as @ x # bs) \<Longrightarrow> x \<noteq> NULL \<and> (\<exists>t. h x = Some t \<and> tlist h (tnext t) bs)"
  by (induction as arbitrary: p) (auto split: option.splits)

lemma threads_walk_finds:
  "tlist h p (as @ y # x # bs) \<Longrightarrow> distinct (as @ y # x # bs) \<Longrightarrow> threads_walk h x p = Some y"
proof (induction as arbitrary: p)
  case Nil
  then show ?case using threads_walk.simps [of h x y] by (auto split: option.splits)
next
  case (Cons a as)
  then obtain t where t: "h a = Some t" "p = a" "a \<noteq> NULL" "tlist h (tnext t) (as @ y # x # bs)"
    by (auto split: option.splits)
  have "tnext t \<noteq> x" using t(4) Cons.prems(2) by (cases as) auto
  then show ?case using Cons t threads_walk.simps [of h x a] by simp
qed

lemma tlist_cut:
  "tlist h p (as @ y # x # bs) \<Longrightarrow> distinct (as @ y # x # bs) \<Longrightarrow> h y = Some u \<Longrightarrow> h x = Some t \<Longrightarrow>
   tlist (h(y \<mapsto> u\<lparr>tnext := tnext t\<rparr>)) p (as @ y # bs)"
proof (induction as arbitrary: p)
  case Nil
  then have "tlist (h(y \<mapsto> u\<lparr>tnext := tnext t\<rparr>)) (tnext t) bs = tlist h (tnext t) bs"
    by (intro tlist_cong) auto
  then show ?case using Nil by (auto simp: fun_upd_def split: option.splits)
next
  case (Cons a as)
  then show ?case by (auto split: option.splits)
qed

definition proc_threads :: "'z procst_scheme \<Rightarrow> ptr \<Rightarrow> ptr list \<Rightarrow> bool" where
  "proc_threads s q ts \<longleftrightarrow>
     (case proc_at s q of None \<Rightarrow> False | Some p \<Rightarrow> tlist (thrs s) (threads p) ts \<and> distinct ts)"

lemma proc_unlink_spec:
  assumes pt: "proc_threads s (tparent t) (as @ x # bs)" and x: "thrs s x = Some v"
  shows "\<exists>s'. proc_unlink x t s = Some s' \<and> s' = s\<lparr>procs := procs s', thrs := thrs s'\<rparr> \<and>
    (\<forall>w. links s' w = links s w) \<and> thrs s' x = Some v \<and> proc_threads s' (tparent t) (as @ bs)"
proof -
  obtain p where p: "proc_at s (tparent t) = Some p" "tlist (thrs s) (threads p) (as @ x # bs)" "distinct (as @ x # bs)"
    using pt by (auto simp: proc_threads_def split: option.splits)
  have pn: "tparent t \<noteq> NULL" using p(1) by (auto simp: proc_at_def)
  have xn: "x \<noteq> NULL" and tail: "tlist (thrs s) (tnext v) bs" using tlist_at [OF p(2)] x by auto
  show ?thesis
  proof (cases as rule: rev_cases)
    case Nil
    let ?s = "proc_put (tparent t) (p\<lparr>threads := tnext v\<rparr>) s"
    have "threads p = x" using p Nil by simp
    then have "proc_unlink x t s = Some ?s" using p(1) xn x by (simp add: proc_unlink_def thr_at_def)
    moreover have "proc_threads ?s (tparent t) (as @ bs)"
      using Nil tail p pn by (simp add: proc_threads_def proc_at_def proc_put_def)
    ultimately show ?thesis using x by (auto simp: proc_put_def links_def)
  next
    case (snoc as' y)
    have ok: "tlist (thrs s) (threads p) (as' @ y # x # bs)" "distinct (as' @ y # x # bs)" using p snoc by simp_all
    have hd: "threads p \<noteq> x" using ok by (cases as') auto
    obtain u where u: "thrs s y = Some u" "y \<noteq> NULL" using tlist_at [OF ok(1)] by blast
    let ?s = "thr_put y (u\<lparr>tnext := tnext v\<rparr>) s"
    have "proc_unlink x t s = Some ?s"
      using p(1) hd threads_walk_finds [OF ok] xn x u by (simp add: proc_unlink_def thr_at_def)
    moreover have "proc_threads ?s (tparent t) (as @ bs)"
      using tlist_cut [OF ok u(1) x] p(1,3) pn snoc by (simp add: proc_threads_def proc_at_def)
    moreover have "thrs ?s x = Some v" using ok(2) x by auto
    ultimately show ?thesis using u by (auto simp: thr_put_def links_def)
  qed
qed

section \<open>Destroying\<close>

lemma destroy_steps:
  assumes rel: "sched_rel s Q" and t: "thrs s x = Some t" and q: "Q ! unat (tpriority t) = as @ x # bs"
    and p: "unat (tpriority t) < 11" and pt: "proc_threads s (tparent t) (cs @ x # ds)"
  shows "\<exists>s1 s'. rq_unlink x t (cli s) = Some s1 \<and> thread_destroy x s = Some (0, s') \<and>
    queue s' = queue s1 \<and> queue_tail s' = queue_tail s1 \<and> thrs s' x = None \<and> (\<forall>w. w \<noteq> x \<longrightarrow> links s' w = links s1 w) \<and>
    hlog s' = Freed x # Freed (kernel t) # hlog s \<and> proc_threads s' (tparent t) (cs @ ds)"
proof -
  have rel0: "sched_rel (cli s) Q" by (rule sched_rel_cong [OF rel]) (simp_all add: cli_def)
  have t0: "thrs (cli s) x = Some t" using t by (simp add: cli_def)
  obtain s1 where s1: "rq_unlink x t (cli s) = Some s1" "s1 = (cli s)\<lparr>queue := queue s1, thrs := thrs s1\<rparr>"
    "cores s1 = cores (cli s)" "\<forall>w. w \<notin> set as \<longrightarrow> thrs s1 w = thrs (cli s) w"
    using rq_unlink_spec [OF rel0 t0 q p] by blast
  have "x \<notin> set as" using rel_ok [OF rel p] q by (auto simp: rq_ok_def)
  then have x1: "thrs s1 x = Some t" using s1(4) t0 by simp
  have pr: "procs s1 = procs s" "hlog s1 = hlog s"
    using arg_cong [OF s1(2), of procs] arg_cong [OF s1(2), of hlog] by (simp_all add: cli_def)
  obtain pp where pp: "proc_at s (tparent t) = Some pp" "tlist (thrs s) (threads pp) (cs @ x # ds)" "distinct (cs @ x # ds)"
    using pt by (auto simp: proc_threads_def split: option.splits)
  have "map_option tnext (thrs s1 w) = map_option tnext (thrs s w)" for w
    using fun_cong [OF s1(3), of w] unfolding cores_def cli_def
    by (cases "thrs s w"; cases "thrs s1 w") (auto dest: arg_cong [where f = tnext])
  then have "tlist (thrs s1) (threads pp) (cs @ x # ds)"
    using pp(2) tlist_cong [of "cs @ x # ds" "thrs s1" "thrs s"] by simp
  then have "proc_threads s1 (tparent t) (cs @ x # ds)"
    using pp(1,3) pr(1) by (simp add: proc_threads_def proc_at_def split: if_splits)
  from proc_unlink_spec [OF this x1] obtain s2 where s2: "proc_unlink x t s1 = Some s2"
    "s2 = s1\<lparr>procs := procs s2, thrs := thrs s2\<rparr>" "\<forall>w. links s2 w = links s1 w" "proc_threads s2 (tparent t) (cs @ ds)"
    by blast
  let ?s = "sti (thr_free x (free (kernel t) s2))"
  have xn: "x \<noteq> NULL" and tn: "threads pp \<noteq> NULL" using tlist_at [OF pp(2)] pp(2) by (auto, cases cs, auto)
  have st: "tstate t \<noteq> STATE_RUNNING"
    using rel_ready [OF rel p, of x] q t by (simp add: ready_at_def STATE_READY_def STATE_RUNNING_def)
  have "tparent t \<noteq> NULL" "proc_at (cli s) (tparent t) = Some pp" using pp(1) by (auto simp: proc_at_def cli_def)
  then have "thread_destroy x s = Some (0, ?s)"
    using xn tn st t0 s1(1) s2(1) by (simp add: thread_destroy_def thr_at_def Let_def)
  moreover have "queue ?s = queue s1" "queue_tail ?s = queue_tail s1" "hlog ?s = Freed x # Freed (kernel t) # hlog s"
    using arg_cong [OF s2(2), of queue] arg_cong [OF s2(2), of queue_tail] arg_cong [OF s2(2), of hlog] pr(2)
    by (simp_all add: sti_def thr_free_def free_def)
  moreover have "thrs ?s x = None" "\<forall>w. w \<noteq> x \<longrightarrow> links ?s w = links s1 w"
    using s2(3) by (simp_all add: sti_def thr_free_def free_def links_def)
  moreover have "proc_threads ?s (tparent t) (cs @ ds)"
  proof -
    obtain p2 where p2: "proc_at s2 (tparent t) = Some p2" "tlist (thrs s2) (threads p2) (cs @ ds)"
      using s2(4) by (auto simp: proc_threads_def split: option.splits)
    have "tlist ((thrs s2)(x := None)) (threads p2) (cs @ ds) = tlist (thrs s2) (threads p2) (cs @ ds)"
      by (rule tlist_cong) (use pp(3) in auto)
    then show ?thesis
      using p2 pp(3) by (simp add: proc_threads_def sti_def thr_free_def free_def proc_at_def split: if_splits)
  qed
  ultimately show ?thesis using s1(1) by blast
qed

text \<open>C20: destroying a thread that waits in a ready queue, and is not the last of several in it,
  succeeds: it takes the thread out of the queue and out of the list of its process, keeps the order of
  the others and the queues well formed, and frees its kernel stack and its structure, once each.\<close>

theorem thread_destroy_unlinks:
  assumes rel: "sched_rel s Q" and t: "thrs s x = Some t" and q: "Q ! unat (tpriority t) = as @ x # bs"
    and p: "unat (tpriority t) < 11" and last: "bs \<noteq> [] \<or> as = []"
    and pt: "proc_threads s (tparent t) (cs @ x # ds)"
  shows "\<exists>s'. thread_destroy x s = Some (0, s') \<and> sched_rel s' (Q[unat (tpriority t) := as @ bs]) \<and>
    proc_threads s' (tparent t) (cs @ ds) \<and> thrs s' x = None \<and> hlog s' = Freed x # Freed (kernel t) # hlog s"
proof -
  let ?p = "unat (tpriority t)"
  have rel0: "sched_rel (cli s) Q" by (rule sched_rel_cong [OF rel]) (simp_all add: cli_def)
  have t0: "thrs (cli s) x = Some t" using t by (simp add: cli_def)
  obtain s1 where s1: "rq_unlink x t (cli s) = Some s1" "s1 = (cli s)\<lparr>queue := queue s1, thrs := thrs s1\<rparr>"
    "cores s1 = cores (cli s)" "length (queue s1) = 11" "\<forall>j. j \<noteq> ?p \<longrightarrow> queue s1 ! j = queue (cli s) ! j"
    "rq_list (thrs s1) (queue s1 ! ?p) (as @ bs)" "\<forall>w. w \<notin> set as \<longrightarrow> thrs s1 w = thrs (cli s) w"
    using rq_unlink_spec [OF rel0 t0 q p] by blast
  have tl: "queue_tail s1 = queue_tail (cli s)" using arg_cong [OF s1(2), of queue_tail] by simp
  have ok: "rq_ok (cli s) ?p (as @ x # bs)" using rel_ok [OF rel0 p] q by simp
  have "rq_ok s1 ?p (as @ bs)"
    using ok s1(6) last tl ready_at_cores [of s1 _ "cli s"] s1(3)
    by (cases "bs = []") (auto simp: rq_ok_def)
  then have rel1: "sched_rel s1 (Q[?p := as @ bs])"
  proof (rule rel_update [OF rel0 p _ s1(4)])
    fix j w
    assume j: "j < 11" "j \<noteq> ?p" "w \<in> set (Q ! j)"
    then have "w \<notin> set as" using rel_disjoint [OF rel0 p j(1), of w] q by auto
    then show "thrs s1 w = thrs (cli s) w" using s1(7) by blast
  qed (use s1(5) tl rel0 in \<open>simp_all add: sched_rel_def\<close>)
  obtain s' where s': "thread_destroy x s = Some (0, s')" "queue s' = queue s1" "queue_tail s' = queue_tail s1"
    "thrs s' x = None" "\<forall>w. w \<noteq> x \<longrightarrow> links s' w = links s1 w" "hlog s' = Freed x # Freed (kernel t) # hlog s"
    "proc_threads s' (tparent t) (cs @ ds)"
    using destroy_steps [OF rel t q p pt] s1(1) by auto
  have "x \<notin> queued (Q[?p := as @ bs])"
  proof
    assume "x \<in> queued (Q[?p := as @ bs])"
    then obtain j where "j < 11" "x \<in> set (Q[?p := as @ bs] ! j)"
      using rel by (auto simp: queued_iff sched_rel_def)
    then show False
      using rel_disjoint [OF rel0 p, of j x] ok q rel
      by (cases "j = ?p") (auto simp: nth_list_update rq_ok_def sched_rel_def)
  qed
  then have "sched_rel s' (Q[?p := as @ bs])" using s'(5) by (intro rel_links [OF rel1 s'(2,3)]) auto
  then show ?thesis using s' by blast
qed

theorem thread_destroy_unlinks_witness:
  "\<exists>s'. thread_destroy 0x1100 demo_sched = Some (0, s') \<and> sched_rel s' (demo_queues[5 := [0x1200]]) \<and>
    proc_threads s' 0x2000 [0x1000, 0x1200, 0x1300]"
proof -
  have t: "thrs demo_sched 0x1100 = Some (demo_thread 5 STATE_READY 0x1200 0x1200)"
    "unat (tpriority (demo_thread 5 STATE_READY 0x1200 0x1200)) = 5" "tparent (demo_thread 5 STATE_READY 0x1200 0x1200) = 0x2000"
    by (simp_all add: demo_sched_defs)
  have "proc_threads demo_sched 0x2000 ([0x1000] @ 0x1100 # [0x1200, 0x1300])"
    by (simp add: proc_threads_def proc_at_def demo_sched_defs)
  then show ?thesis
    using thread_destroy_unlinks [OF demo_rel t(1), of "[]" "[0x1200]" "[0x1000]" "[0x1200, 0x1300]"] unfolding t
    by (auto simp: demo_running)
qed

text \<open>C24: when the thread destroyed is the last of several in its ready queue, the tail of the queue
  still points to the freed structure, and posting any live thread of that priority dereferences it: the fault.\<close>

theorem thread_destroy_dangling_tail:
  assumes rel: "sched_rel s Q" and t: "thrs s x = Some t" and q: "Q ! unat (tpriority t) = as @ [x]"
    and p: "unat (tpriority t) < 11" and several: "as \<noteq> []"
    and pt: "proc_threads s (tparent t) (cs @ x # ds)"
  shows "\<exists>s'. thread_destroy x s = Some (0, s') \<and>
    (\<forall>z u. z \<noteq> NULL \<longrightarrow> thrs s' z = Some u \<longrightarrow> tpriority u = tpriority t \<longrightarrow> tstate u \<noteq> STATE_TERMINATED \<longrightarrow>
       scheduler_post z s' = None)"
proof -
  let ?p = "unat (tpriority t)"
  have rel0: "sched_rel (cli s) Q" by (rule sched_rel_cong [OF rel]) (simp_all add: cli_def)
  have t0: "thrs (cli s) x = Some t" using t by (simp add: cli_def)
  obtain s1 where s1: "rq_unlink x t (cli s) = Some s1" "s1 = (cli s)\<lparr>queue := queue s1, thrs := thrs s1\<rparr>"
    "length (queue s1) = 11" "rq_list (thrs s1) (queue s1 ! ?p) as"
    using rq_unlink_spec [OF rel0 t0 q p] by auto
  have tl: "queue_tail s1 = queue_tail s" using arg_cong [OF s1(2), of queue_tail] by (simp add: cli_def)
  obtain s' where s': "thread_destroy x s = Some (0, s')" "queue s' = queue s1" "queue_tail s' = queue_tail s1"
    "thrs s' x = None"
    using destroy_steps [OF rel t q p pt] s1(1) by auto
  have x: "queue_tail s ! ?p = x" "length (queue_tail s) = 11"
    using rel_ok [OF rel p] q rel by (auto simp: rq_ok_def sched_rel_def)
  have h: "queue s1 ! ?p \<noteq> NULL" using s1(4) several by (cases as) auto
  have "scheduler_post z s' = None"
    if "z \<noteq> NULL" "thrs s' z = Some u" "tpriority u = tpriority t" "tstate u \<noteq> STATE_TERMINATED" for z u
  proof -
    have "z \<noteq> x" using that(2) s'(4) by auto
    then show ?thesis
      using that h x s' s1(3) tl p by (simp add: scheduler_post_def cli_def thr_at_def thr_put_def rq_get_def Let_def)
  qed
  then show ?thesis using s'(1) by blast
qed

theorem thread_destroy_dangling_tail_witness:
  "\<exists>s'. thread_destroy 0x1200 demo_sched = Some (0, s') \<and>
    (\<forall>u. thrs s' 0x1000 = Some u \<longrightarrow> tpriority u = 5 \<longrightarrow> tstate u \<noteq> STATE_TERMINATED \<longrightarrow> scheduler_post 0x1000 s' = None)"
proof -
  have t: "thrs demo_sched 0x1200 = Some (demo_thread 5 STATE_READY 0x1300 NULL)"
    "tpriority (demo_thread 5 STATE_READY 0x1300 NULL) = 5" "tparent (demo_thread 5 STATE_READY 0x1300 NULL) = 0x2000"
    by (simp_all add: demo_sched_defs)
  have u: "unat (5 :: u32) = 5" by simp
  have "proc_threads demo_sched 0x2000 ([0x1000, 0x1100] @ 0x1200 # [0x1300])"
    by (simp add: proc_threads_def proc_at_def demo_sched_defs)
  then show ?thesis
    using thread_destroy_dangling_tail [OF demo_rel t(1), of "[0x1100]" "[0x1000, 0x1100]" "[0x1300]"] unfolding t u
    by (auto simp: demo_running)
qed

end
