(* ===== verification/ProcProps.thy ===== *)
theory ProcProps
  imports ThreadList
begin

text \<open>
  Creating processes and threads: a process that has been created is found again by its number, and the
  registers of a new thread are the ones its entry point asks for.
\<close>

section \<open>The process table\<close>

lemma table_find_insert:
  assumes "proc_at s pr = Some p" and "Pid p = pid"
    and "\<And>q. q \<in> set qs \<Longrightarrow> q \<noteq> NULL \<Longrightarrow> \<exists>r. proc_at s q = Some r \<and> Pid r \<noteq> pid"
  shows "table_find s (table_insert qs pr) pid = (if NULL \<in> set qs then Some pr else None)"
  using assms(3)
proof (induction qs)
  case (Cons q qs)
  have "pr \<noteq> NULL" using assms(1) by (auto simp: proc_at_def)
  then show ?case using Cons assms(1,2) by (cases "q = NULL") fastforce+
qed simp

lemma process_create_run:
  assumes "pr \<noteq> NULL" and create: "v_create vm (s\<lparr>current_pid := current_pid s + 1\<rparr>) = (d, s1)"
    and dirs: "d \<noteq> NULL" "pdirs s1 d = Some dt" "v_kerneldir vm s1 \<noteq> NULL" "pdirs s1 (v_kerneldir vm s1) = Some kt"
    and nm: "cstr (kmem s1) name nm" "mapped (kmem s1) (pr + 4) 32" "apart (pr + 4) 31 name (Suc (length nm))"
  shows "process_create vm pr name prio s = Some ((proc_put pr
    \<lparr>Pid = current_pid s, threads = NULL, priority = prio, dir = d, pstate = STATE_READY\<rparr>
    (s1\<lparr>pdirs := (pdirs s1)(d \<mapsto> take 1 kt @ take 767 (drop 1 dt) @ take 256 (drop 768 kt)),
      kmem := put (kmem s1) (pr + 4) (pad_to 31 nm @ [0])\<rparr>))\<lparr>process_table := table_insert (process_table s1) pr\<rparr>)"
proof -
  let ?m = "put (kmem s1) (pr + 4) (pad_to 31 nm)"
  have "mapped (kmem s1) (pr + 4) 31" using mapped_mono [OF nm(2)] by simp
  then have copy: "strncpy (kmem s1) (pr + 4) name 31 = Some (pr + 4, ?m)"
    using strncpy_put [of "kmem s1" name nm "pr + 4" 31] nm by simp
  have last: "st8 ?m (pr + 4 + 31) 0 = Some (put (kmem s1) (pr + 4) (pad_to 31 nm @ [0]))"
    using st8_put_snoc [of "pad_to 31 nm" "kmem s1" "pr + 4" 0] nm(2) [unfolded mapped_iff, rule_format, of 31] by simp
  show ?thesis
    using assms(1) create dirs copy last by (simp add: process_create_def Let_def proc_put_def)
qed

text \<open>C26: a process that has been created is the one found by its number, as long as the table had room;
  when its 128 entries were taken the process exists but is not found, and the code then falls off the end of
  \<open>process_find_by_pid\<close> without a result. The number is the next one, the name the first 31 bytes of the
  one given, padded with NUL.\<close>

theorem process_create_find:
  assumes "pr \<noteq> NULL" and create: "v_create vm (s\<lparr>current_pid := current_pid s + 1\<rparr>) = (d, s1)"
    and frame: "process_table s1 = process_table s" "procs s1 = procs s" "current_pid s1 = current_pid s + 1"
    and dirs: "d \<noteq> NULL" "pdirs s1 d = Some dt" "v_kerneldir vm s1 \<noteq> NULL" "pdirs s1 (v_kerneldir vm s1) = Some kt"
    and nm: "cstr (kmem s1) name nm" "mapped (kmem s1) (pr + 4) 32" "apart (pr + 4) 31 name (Suc (length nm))"
    and others: "\<And>q. q \<in> set (process_table s) \<Longrightarrow> q \<noteq> NULL \<Longrightarrow>
      q \<noteq> pr \<and> (\<exists>r. proc_at s q = Some r \<and> Pid r \<noteq> current_pid s)"
  shows "\<exists>s'. process_create vm pr name prio s = Some s' \<and> current_pid s' = current_pid s + 1 \<and>
    process_find_by_pid (current_pid s) s' = (if NULL \<in> set (process_table s) then Some pr else None) \<and>
    fetch (kmem s') (pr + 4) 32 = Some (pad_to 31 nm @ [0])"
proof -
  let ?dir = "take 1 kt @ take 767 (drop 1 dt) @ take 256 (drop 768 kt)"
  let ?p = "\<lparr>Pid = current_pid s, threads = NULL, priority = prio, dir = d, pstate = STATE_READY\<rparr>"
  let ?s = "proc_put pr ?p (s1\<lparr>pdirs := (pdirs s1)(d \<mapsto> ?dir), kmem := put (kmem s1) (pr + 4) (pad_to 31 nm @ [0])\<rparr>)"
  let ?s' = "?s\<lparr>process_table := table_insert (process_table s) pr\<rparr>"
  have run: "process_create vm pr name prio s = Some ?s'"
    using process_create_run [OF assms(1) create dirs nm] by (simp only: frame(1))
  have pid: "Pid ?p = current_pid s" by simp
  have "proc_at ?s' pr = Some ?p" using assms(1) by (simp add: proc_at_def proc_put_def)
  moreover have "\<exists>r. proc_at ?s' q = Some r \<and> Pid r \<noteq> current_pid s" if "q \<in> set (process_table s)" "q \<noteq> NULL" for q
    using others [OF that] frame(2) by (auto simp: proc_at_def proc_put_def)
  ultimately have "table_find ?s' (table_insert (process_table s) pr) (current_pid s) =
      (if NULL \<in> set (process_table s) then Some pr else None)"
    by (intro table_find_insert [OF _ pid])
  then have "process_find_by_pid (current_pid s) ?s' = (if NULL \<in> set (process_table s) then Some pr else None)"
    by (simp add: process_find_by_pid_def)
  moreover have "fetch (kmem ?s') (pr + 4) 32 = Some (pad_to 31 nm @ [0])"
    using fetch_put_same [of "pad_to 31 nm @ [0]" "kmem s1" "pr + 4"] by (simp add: proc_put_def)
  moreover have "current_pid ?s' = current_pid s + 1" using frame(3) by (simp add: proc_put_def)
  ultimately show ?thesis using run by blast
qed

theorem process_create_find_witness:
  "\<exists>s'. process_create demo_vmm 0x4000 0x9000 5
      (demo_sched\<lparr>current_pid := 7, pdirs := [0x3000 \<mapsto> replicate 1024 0]\<rparr>) = Some s' \<and>
    process_find_by_pid 7 s' = Some 0x4000"
proof -
  let ?s = "demo_sched\<lparr>current_pid := 7, pdirs := [0x3000 \<mapsto> replicate 1024 0]\<rparr>"
  have c: "v_create demo_vmm (?s\<lparr>current_pid := current_pid ?s + 1\<rparr>) = (0x3000, ?s\<lparr>current_pid := 8\<rparr>)"
    by (simp add: demo_vmm_def)
  have t: "process_table ?s = replicate 128 NULL" "current_pid ?s = 7" by (simp_all add: demo_sched_defs)
  have nm: "cstr (kmem ?s) 0x9000 []" "apart (0x4000 + 4) 31 (0x9000 :: ptr) (Suc (length []))"
    by (simp_all add: demo_sched_kmem blank_kernel_def apart_def)
  have mp: "mapped (kmem ?s) (0x4000 + 4) 32" by (simp add: demo_sched_kmem blank_mapped)
  show ?thesis
    using process_create_find [OF _ c, of "0x4000" "replicate 1024 0" "replicate 1024 0" "0x9000" "[]" 5] nm mp t
    by (auto simp: demo_vmm_def)
qed

section \<open>The first registers of a thread\<close>

lemma mapped_at: "mapped m p n \<Longrightarrow> unat o' + j \<le> n \<Longrightarrow> mapped m (p + o') j"
  using mapped_sub [of m p n "unat o'" j] by simp

lemma ld32_same: "ld32 (put m c (bytes32 v)) c = Some v"
  by (rule ld32_fetch) (use fetch_put_same [of "bytes32 v" m c] in simp)

lemma ld32_bytes: "ld32 m a = (case fetch m a 4 of None \<Rightarrow> None | Some bs \<Rightarrow> Some (le32 (bs ! 0) (bs ! 1) (bs ! 2) (bs ! 3)))"
  by (simp add: ld32_def numeral_eq_Suc add.assoc split: Option.bind_split)

lemma ld32_apart: "apart c (length bs) a 4 \<Longrightarrow> ld32 (put m c bs) a = ld32 m a"
  by (simp add: ld32_bytes fetch_put_apart)

lemma ld32_other: "4 \<le> unat (b - a) \<Longrightarrow> 4 \<le> unat (a - b) \<Longrightarrow> ld32 (put m (c + a) (bytes32 v)) (c + b) = ld32 m (c + b)"
  by (rule ld32_apart) (simp add: apart_def)

text \<open>A sequence of stores at offsets from one address: each word read back is the last one written there.\<close>

fun puts32 :: "mem \<Rightarrow> ptr \<Rightarrow> (u32 \<times> u32) list \<Rightarrow> mem" where
  "puts32 m c [] = m"
| "puts32 m c ((a, v) # ws) = puts32 (put m (c + a) (bytes32 v)) c ws"

definition offs_apart :: "u32 \<Rightarrow> u32 \<Rightarrow> bool" where
  "offs_apart a b \<longleftrightarrow> a = b \<or> 4 \<le> unat (b - a) \<and> 4 \<le> unat (a - b)"

lemma ld32_puts:
  "list_all (\<lambda>w. offs_apart (fst w) b) ws \<Longrightarrow>
   ld32 (puts32 m c ws) (c + b) = (case map_of (rev ws) b of Some v \<Rightarrow> Some v | None \<Rightarrow> ld32 m (c + b))"
proof (induction ws arbitrary: m)
  case (Cons w ws)
  obtain a v where w: "w = (a, v)" by fastforce
  have "ld32 (put m (c + a) (bytes32 v)) (c + b) = (if a = b then Some v else ld32 m (c + b))"
    using Cons.prems w by (auto simp: offs_apart_def ld32_same ld32_other)
  then show ?case using Cons w by (auto simp: map_add_def split: option.splits)
qed simp

lemma ld32_puts_none:
  "list_all (\<lambda>w. fst w \<noteq> b \<and> offs_apart (fst w) b) ws \<Longrightarrow> ld32 (puts32 m c ws) (c + b) = ld32 m (c + b)"
proof -
  assume ws: "list_all (\<lambda>w. fst w \<noteq> b \<and> offs_apart (fst w) b) ws"
  then have "map_of (rev ws) b = None" by (auto simp: map_of_eq_None_iff list_all_iff)
  then show ?thesis using ws by (subst ld32_puts) (auto simp: list_all_iff)
qed

definition user_entry :: "ptr \<Rightarrow> bool" where
  "user_entry entry \<longleftrightarrow> entry \<noteq> NULL \<and> entry < 0xC0000000"

text \<open>What the assembly restores from a saved frame: code, data and stack selectors, flags, and where
  execution starts.\<close>

definition frame_ok :: "mem \<Rightarrow> ptr \<Rightarrow> ptr \<Rightarrow> ptr \<Rightarrow> bool" where
  "frame_ok m ctx entry tp \<longleftrightarrow>
     ld32 m (ctx + ctx_eip) = Some entry \<and> ld32 m (ctx + ctx_esp) = Some tp \<and>
     ld32 m (ctx + ctx_useresp) = Some tp \<and> ld32 m (ctx + ctx_eflags) = Some 0x202 \<and>
     ld32 m (ctx + ctx_cs) = Some (if user_entry entry then 0x1B else 0x08) \<and>
     ld32 m (ctx + ctx_ds) = Some (if user_entry entry then 0x23 else 0x10) \<and>
     ld32 m (ctx + ctx_ss) = Some (if user_entry entry then 0x23 else 0x10)"

lemmas ctx_offsets = ctx_ds_def ctx_esp_def ctx_eax_def ctx_eip_def ctx_cs_def ctx_eflags_def ctx_useresp_def
  ctx_ss_def SIZEOF_CONTEXT_def

lemma ld32_zeros:
  assumes "unat b + 4 \<le> n" and "n \<le> 2 ^ 32"
  shows "ld32 (put m c (replicate n 0)) (c + b) = Some 0"
proof (rule ld32_fetch)
  have "fetch (put m c (replicate n 0)) c n = Some (replicate n 0)"
    using fetch_put_same [of "replicate n 0" m c] assms(2) by simp
  from fetch_sub [OF this assms(1)] have "fetch (put m c (replicate n 0)) (c + b) 4 = Some (replicate 4 0)"
    using assms(1) by simp
  moreover have "bytes32 0 = replicate 4 0" by (simp add: bytes32_def numeral_eq_Suc)
  ultimately show "fetch (put m c (replicate n 0)) (c + b) 4 = Some (bytes32 0)" by simp
qed

lemma seg_offsets:
  "unat ctx_ds + 4 \<le> 64" "unat ctx_esp + 4 \<le> 64" "unat ctx_eip + 4 \<le> 64" "unat ctx_cs + 4 \<le> 64"
  "unat ctx_eflags + 4 \<le> 64" "unat ctx_useresp + 4 \<le> 64" "unat ctx_ss + 4 \<le> 64"
  by (simp_all add: ctx_offsets)

lemma frame_written:
  assumes map: "mapped m ctx 64"
  shows "\<exists>m'. do { (_, m) \<leftarrow> memset m ctx 0 SIZEOF_CONTEXT; m \<leftarrow> st32 m (ctx + ctx_eip) entry;
      m \<leftarrow> st32 m (ctx + ctx_esp) tp; m \<leftarrow> st32 m (ctx + ctx_useresp) tp; ctx_segments m ctx entry } = Some m' \<and>
    frame_ok m' ctx entry tp \<and> ld32 m' (ctx + ctx_eax) = Some 0 \<and>
    ld32 m' (ctx + 64) = ld32 m (ctx + 64) \<and> ld32 m' (ctx + 68) = ld32 m (ctx + 68)"
proof -
  let ?m0 = "put m ctx (replicate 64 0)"
  let ?m1 = "put ?m0 (ctx + ctx_eip) (bytes32 entry)"
  let ?m2 = "put ?m1 (ctx + ctx_esp) (bytes32 tp)"
  let ?m3 = "put ?m2 (ctx + ctx_useresp) (bytes32 tp)"
  define cs :: u32 where "cs = (if entry = NULL \<or> entry \<ge> 0xC0000000 then 0x08 else 0x1B)"
  define ds :: u32 where "ds = (if entry = NULL \<or> entry \<ge> 0xC0000000 then 0x10 else 0x23)"
  let ?m4 = "put ?m3 (ctx + ctx_cs) (bytes32 cs)"
  let ?m5 = "put ?m4 (ctx + ctx_ds) (bytes32 ds)"
  let ?m6 = "put ?m5 (ctx + ctx_ss) (bytes32 ds)"
  let ?m7 = "put ?m6 (ctx + ctx_eflags) (bytes32 0x202)"
  have at: "mapped m (ctx + b) 4" if "unat b + 4 \<le> 64" for b using mapped_at [OF map that] .
  have store: "st32 m' (ctx + b) v = Some (put m' (ctx + b) (bytes32 v))"
    if "unat b + 4 \<le> 64" "mapped m (ctx + b) 4 \<Longrightarrow> mapped m' (ctx + b) 4" for m' b v
    by (rule st32_put [OF that(2) [OF at [OF that(1)]]])
  have s1: "st32 ?m0 (ctx + ctx_eip) entry = Some ?m1" by (rule store) (rule seg_offsets, intro mapped_put)
  have s2: "st32 ?m1 (ctx + ctx_esp) tp = Some ?m2" by (rule store) (rule seg_offsets, intro mapped_put)
  have s3: "st32 ?m2 (ctx + ctx_useresp) tp = Some ?m3" by (rule store) (rule seg_offsets, intro mapped_put)
  have s4: "st32 ?m3 (ctx + ctx_cs) cs = Some ?m4" by (rule store) (rule seg_offsets, intro mapped_put)
  have s5: "st32 ?m4 (ctx + ctx_ds) ds = Some ?m5" by (rule store) (rule seg_offsets, intro mapped_put)
  have s6: "st32 ?m5 (ctx + ctx_ss) ds = Some ?m6" by (rule store) (rule seg_offsets, intro mapped_put)
  have s7: "st32 ?m6 (ctx + ctx_eflags) 0x202 = Some ?m7" by (rule store) (rule seg_offsets, intro mapped_put)
  have ms: "memset m ctx 0 SIZEOF_CONTEXT = Some (ctx, ?m0)"
    using memset_put [of m ctx SIZEOF_CONTEXT 0] map by (simp add: SIZEOF_CONTEXT_def)
  have seg: "ctx_segments ?m3 ctx entry = Some ?m7"
    by (simp only: ctx_segments_def Let_def s4 s5 s6 s7 bind.bind_lunit flip: cs_def ds_def)
  have run: "do { (_, m) \<leftarrow> memset m ctx 0 SIZEOF_CONTEXT; m \<leftarrow> st32 m (ctx + ctx_eip) entry;
      m \<leftarrow> st32 m (ctx + ctx_esp) tp; m \<leftarrow> st32 m (ctx + ctx_useresp) tp; ctx_segments m ctx entry } = Some ?m7"
    by (simp only: ms s1 s2 s3 seg bind.bind_lunit prod.case)
  have zero: "ld32 ?m0 (ctx + 32) = Some 0" by (rule ld32_zeros) simp_all
  have out: "ld32 ?m0 (ctx + 64) = ld32 m (ctx + 64)" "ld32 ?m0 (ctx + 68) = ld32 m (ctx + 68)"
    by (rule ld32_apart, simp add: apart_def)+
  have seven: "?m7 = puts32 ?m0 ctx [(ctx_eip, entry), (ctx_esp, tp), (ctx_useresp, tp), (ctx_cs, cs), (ctx_ds, ds),
      (ctx_ss, ds), (ctx_eflags, 0x202)]" by (simp only: puts32.simps)
  have sel: "cs = (if user_entry entry then 0x1B else 0x08)" "ds = (if user_entry entry then 0x23 else 0x10)"
    by (auto simp: cs_def ds_def user_entry_def)
  have fr: "frame_ok ?m7 ctx entry tp"
    unfolding frame_ok_def seven sel [symmetric]
    by (simp add: ld32_puts ld32_puts [where b = 0, simplified] offs_apart_def ctx_offsets del: puts32.simps)
  have keep: "ld32 ?m7 (ctx + b) = ld32 ?m0 (ctx + b)" if "b = 32 \<or> b = 64 \<or> b = 68" for b
    unfolding seven using that by (intro ld32_puts_none) (auto simp: offs_apart_def ctx_offsets)
  show ?thesis
  proof (rule exI [of _ ?m7], intro conjI)
    show "ld32 ?m7 (ctx + ctx_eax) = Some 0" unfolding ctx_eax_def by (rule trans [OF keep zero]) simp
    show "ld32 ?m7 (ctx + 64) = ld32 m (ctx + 64)" by (rule trans [OF keep out(1)]) simp
    show "ld32 ?m7 (ctx + 68) = ld32 m (ctx + 68)" by (rule trans [OF keep out(2)]) simp
    show "frame_ok ?m7 ctx entry tp" by (rule fr)
    show "do { (_, m) \<leftarrow> memset m ctx 0 SIZEOF_CONTEXT; m \<leftarrow> st32 m (ctx + ctx_eip) entry;
      m \<leftarrow> st32 m (ctx + ctx_esp) tp; m \<leftarrow> st32 m (ctx + ctx_useresp) tp; ctx_segments m ctx entry } = Some ?m7"
      by (rule run)
  qed
qed

lemma thread_stack_frame:
  assumes map: "mapped m k 4096"
  shows "\<exists>ctx m'. thread_stack ex m k entry arg = Some (ctx, m') \<and>
    ctx + 64 = k + 4096 - (if entry = NULL then 0 else 8) \<and> frame_ok m' ctx entry (ctx + 64) \<and>
    ld32 m' (ctx + ctx_eax) = Some 0 \<and>
    (entry \<noteq> NULL \<longrightarrow> ld32 m' (ctx + 64) = Some ex \<and> ld32 m' (ctx + 68) = Some arg)"
proof (cases "entry = NULL")
  case True
  have "mapped m (k + 4032) 64" using mapped_at [OF map, of 4032 64] by simp
  from frame_written [OF this, of entry "k + 4096"] obtain m' where
    m': "do { (_, m) \<leftarrow> memset m (k + 4032) 0 SIZEOF_CONTEXT; m \<leftarrow> st32 m (k + 4032 + ctx_eip) entry;
      m \<leftarrow> st32 m (k + 4032 + ctx_esp) (k + 4096); m \<leftarrow> st32 m (k + 4032 + ctx_useresp) (k + 4096);
      ctx_segments m (k + 4032) entry } = Some m'" "frame_ok m' (k + 4032) entry (k + 4096)"
      "ld32 m' (k + 4032 + ctx_eax) = Some 0" by blast
  have c: "k + 4 * 1024 - SIZEOF_CONTEXT = k + 4032" "k + 4 * 1024 = k + 4096"
    "k + 4096 - SIZEOF_CONTEXT = k + 4032" by (simp_all add: SIZEOF_CONTEXT_def)
  have "thread_stack ex m k entry arg = do { m' \<leftarrow> do { (_, m) \<leftarrow> memset m (k + 4032) 0 SIZEOF_CONTEXT; m \<leftarrow> st32 m (k + 4032 + ctx_eip) entry;
      m \<leftarrow> st32 m (k + 4032 + ctx_esp) (k + 4096); m \<leftarrow> st32 m (k + 4032 + ctx_useresp) (k + 4096);
      ctx_segments m (k + 4032) entry }; Some (k + 4032, m') }"
    using True unfolding thread_stack_def Let_def c by (simp add: c case_prod_unfold bind_assoc)
  then have ts: "thread_stack ex m k entry arg = Some (k + 4032, m')" unfolding m'(1) by simp
  show ?thesis using ts m'(2,3) True by (intro exI [of _ "k + 4032"] exI [of _ m']) (simp add: add.commute)
next
  case False
  let ?m = "put (put m (k + 4092) (bytes32 arg)) (k + 4088) (bytes32 ex)"
  have "mapped m (k + 4092) 4" "mapped m (k + 4088) 4" "mapped m (k + 4024) 64"
    using mapped_at [OF map, of 4092 4] mapped_at [OF map, of 4088 4] mapped_at [OF map, of 4024 64] by simp_all
  then have st: "st32 m (k + 4092) arg = Some (put m (k + 4092) (bytes32 arg))"
    "st32 (put m (k + 4092) (bytes32 arg)) (k + 4088) ex = Some ?m" "mapped ?m (k + 4024) 64"
    by (simp_all add: st32_put mapped_put)
  from frame_written [OF st(3), of entry "k + 4088"] obtain m' where
    m': "do { (_, m) \<leftarrow> memset ?m (k + 4024) 0 SIZEOF_CONTEXT; m \<leftarrow> st32 m (k + 4024 + ctx_eip) entry;
      m \<leftarrow> st32 m (k + 4024 + ctx_esp) (k + 4088); m \<leftarrow> st32 m (k + 4024 + ctx_useresp) (k + 4088);
      ctx_segments m (k + 4024) entry } = Some m'" "frame_ok m' (k + 4024) entry (k + 4088)"
      "ld32 m' (k + 4024 + ctx_eax) = Some 0"
      "ld32 m' (k + 4024 + 64) = ld32 ?m (k + 4024 + 64)" "ld32 m' (k + 4024 + 68) = ld32 ?m (k + 4024 + 68)" by blast
  have top: "k + 4024 + 64 = k + 4088" "k + 4024 + 68 = k + 4092" by simp_all
  have w: "ld32 ?m (k + 4024 + 64) = Some ex" "ld32 ?m (k + 4024 + 68) = Some arg"
    unfolding top by (rule ld32_same, subst ld32_other) (simp_all add: ld32_same)
  have c: "k + 4 * 1024 - 4 = k + 4092" "k + 4 * 1024 - 8 = k + 4088" "k + 4088 - SIZEOF_CONTEXT = k + 4024"
    by (simp_all add: SIZEOF_CONTEXT_def)
  have "thread_stack ex m k entry arg = do { m' \<leftarrow> do { (_, m) \<leftarrow> memset ?m (k + 4024) 0 SIZEOF_CONTEXT; m \<leftarrow> st32 m (k + 4024 + ctx_eip) entry;
      m \<leftarrow> st32 m (k + 4024 + ctx_esp) (k + 4088); m \<leftarrow> st32 m (k + 4024 + ctx_useresp) (k + 4088);
      ctx_segments m (k + 4024) entry }; Some (k + 4024, m') }"
    using False unfolding thread_stack_def Let_def c by (simp add: st c case_prod_unfold bind_assoc)
  then have ts: "thread_stack ex m k entry arg = Some (k + 4024, m')" unfolding m'(1) by simp
  show ?thesis using ts m'(2-5) w False by (intro exI [of _ "k + 4024"] exI [of _ m']) (simp add: add.commute)
qed

text \<open>The stack of a thread is written inside its own area.\<close>

definition writes_in :: "ptr \<Rightarrow> nat \<Rightarrow> mem \<Rightarrow> mem \<Rightarrow> bool" where
  "writes_in k n m m' \<longleftrightarrow> (\<forall>q j. apart k n q j \<longrightarrow> fetch m' q j = fetch m q j) \<and> (\<forall>q j. mapped m q j \<longrightarrow> mapped m' q j)"

lemma writes_in_refl: "writes_in k n m m"
  by (simp add: writes_in_def)

lemma writes_in_trans: "writes_in k n m m' \<Longrightarrow> writes_in k n m' m'' \<Longrightarrow> writes_in k n m m''"
  by (simp add: writes_in_def)

lemma writes_in_put:
  assumes "i + length bs \<le> n"
  shows "writes_in k n m (put m (k + of_nat i) bs)"
proof -
  have "apart (k + of_nat i) (length bs) q j" if "apart k n q j" for q j using apart_sub [OF that assms, of 0 j] by simp
  then show ?thesis by (simp add: writes_in_def fetch_put_apart mapped_put)
qed

lemma writes_in_st32:
  assumes "st32 m1 (k + b) v = Some m2" and "unat b + 4 \<le> n" and "mapped m k n" and w: "writes_in k n m m1"
  shows "writes_in k n m m2"
proof -
  have "mapped m1 (k + b) 4" using mapped_at [OF assms(3,2)] w by (simp add: writes_in_def)
  then have "m2 = put m1 (k + of_nat (unat b)) (bytes32 v)" using assms(1) st32_put by simp
  then show ?thesis using writes_in_trans [OF w writes_in_put [of "unat b" "bytes32 v"]] assms(2) by simp
qed

lemma thread_stack_keeps:
  assumes ts: "thread_stack ex m k entry arg = Some (ctx, m')" and map: "mapped m k 4096"
  shows "writes_in k 4096 m m'"
proof -
  let ?d = "if entry = NULL then 4032 else 4024 :: u32"
  obtain m1 where m1: "writes_in k 4096 m m1" and rest: "do { (_, m) \<leftarrow> memset m1 (k + ?d) 0 SIZEOF_CONTEXT;
      m \<leftarrow> st32 m (k + ?d + ctx_eip) entry; m \<leftarrow> st32 m (k + ?d + ctx_esp) (k + ?d + 64);
      m \<leftarrow> st32 m (k + ?d + ctx_useresp) (k + ?d + 64); ctx_segments m (k + ?d) entry } = Some m'"
  proof (cases "entry = NULL")
    case True
    then show ?thesis using that [of m] writes_in_refl ts
      by (auto simp: thread_stack_def Let_def SIZEOF_CONTEXT_def bind_eq_Some_conv algebra_simps split: prod.splits)
  next
    case False
    obtain m0 m1 where s: "st32 m (k + 4092) arg = Some m0" "st32 m0 (k + 4088) ex = Some m1" and
      r: "do { (_, m) \<leftarrow> memset m1 (k + 4024) 0 SIZEOF_CONTEXT; m \<leftarrow> st32 m (k + 4024 + ctx_eip) entry;
        m \<leftarrow> st32 m (k + 4024 + ctx_esp) (k + 4088); m \<leftarrow> st32 m (k + 4024 + ctx_useresp) (k + 4088);
        ctx_segments m (k + 4024) entry } = Some m'"
      using ts False by (auto simp: thread_stack_def Let_def SIZEOF_CONTEXT_def bind_eq_Some_conv algebra_simps split: prod.splits)
    have "writes_in k 4096 m m1"
      by (rule writes_in_st32 [OF s(2) _ map writes_in_st32 [OF s(1) _ map writes_in_refl]]) simp_all
    then show ?thesis using that [of m1] r False by (simp add: algebra_simps)
  qed
  have "mapped m1 (k + of_nat (unat ?d)) 64" using m1 mapped_at [OF map, of ?d 64] by (simp add: writes_in_def)
  then have "memset m1 (k + ?d) 0 SIZEOF_CONTEXT = Some (k + ?d, put m1 (k + of_nat (unat ?d)) (replicate 64 0))"
    using memset_put [of m1 "k + ?d" SIZEOF_CONTEXT 0] by (simp add: SIZEOF_CONTEXT_def)
  moreover have "writes_in k 4096 m (put m1 (k + of_nat (unat ?d)) (replicate 64 0))"
    by (rule writes_in_trans [OF m1 writes_in_put]) simp
  moreover have st: "writes_in k 4096 m m2" if "st32 m1 (k + ?d + b) v = Some m2" "unat b + 4 \<le> 64" "writes_in k 4096 m m1"
    for m1 m2 b v
  proof (rule writes_in_st32 [OF _ _ map that(3), of "?d + b" v])
    show "st32 m1 (k + (?d + b)) v = Some m2" using that(1) by (simp only: add.assoc)
    show "unat (?d + b) + 4 \<le> 4096" using that(2) by (simp add: unat_word_ariths)
  qed
  ultimately show ?thesis
    using rest seg_offsets by (auto simp: ctx_segments_def Let_def bind_eq_Some_conv)
qed

lemma thread_create_run:
  assumes a: "alloc (hlog s) SIZEOF_THREAD = th" "th \<noteq> NULL"
    and k: "alloc (Malloc SIZEOF_THREAD th # hlog s) (4 * 1024) = k" "k \<noteq> NULL"
    and p: "proc_at s pr = Some p" and c: "thread_stack ex (kmem s) k entry arg = Some (ctx, m)"
  shows "thread_create alloc ex pr entry arg s = Some (th, thr_put th
    \<lparr>tid = current_tid s, tpriority = PROCESS_PRI_DEFAULT, tstate = STATE_READY, tparent = pr, kernel = k,
    time_slice = SLICE, trap_frame = ctx, tnext = threads p, next_ready = NULL\<rparr>
    ((proc_put pr (p\<lparr>threads := th\<rparr>) (s\<lparr>current_tid := current_tid s + 1,
      hlog := Malloc (4 * 1024) k # Malloc SIZEOF_THREAD th # hlog s\<rparr>))\<lparr>kmem := m\<rparr>))"
  using a k p c by (auto simp: thread_create_def malloc_def Let_def proc_at_def proc_put_def split: if_splits)



end
