(* ===== verification/Spawn.thy ===== *)
theory Spawn
  imports ElfRun ProcProps
begin

text \<open>
  Starting a program: \<open>process_spawn\<close> creates a process, loads the program into its address space and posts a thread
  that starts at the entry point of the file. Loading leaves the processes, the threads and the ready
  queues as they are.
\<close>

unbundle bit_operations_syntax

section \<open>Loading and the kernel's process state\<close>

lemma more_procs:
  fixes s t :: "'z procst_scheme"
  assumes "vfsst.more t = vfsst.more s"
  shows "procs t = procs s" and "thrs t = thrs s" and "queue t = queue s" and "queue_tail t = queue_tail s"
    and "current_tid t = current_tid s" and "current_thread t = current_thread s" and "process_table t = process_table s"
  using assms by (cases t, cases s, simp)+

text \<open>The new process, and what its thread needs: both allocations succeed, the stack is mapped memory
  outside the segments and the thread is in no queue.\<close>

definition spawn_ready ::
  "allocator \<Rightarrow> ptr \<Rightarrow> process \<Rightarrow> ptr \<Rightarrow> ptr \<Rightarrow> ptr list list \<Rightarrow> u8 list \<Rightarrow> 'z procst_scheme \<Rightarrow> bool" where
  "spawn_ready alloc pr p th k Q F s \<longleftrightarrow>
     proc_at s pr = Some p \<and> sched_rel s Q \<and> th \<notin> queued Q \<and> th \<noteq> NULL \<and> k \<noteq> NULL
     \<and> (\<forall>bs. alloc (after_reads bs (hlog s)) SIZEOF_THREAD = th
          \<and> alloc (Malloc SIZEOF_THREAD th # after_reads bs (hlog s)) (4 * 1024) = k)
     \<and> mapped (kmem s) k 4096
     \<and> (\<forall>i. loads F i \<longrightarrow> apart k 4096 (seg_va (prog_phdr F i)) (unat (seg_memsz (prog_phdr F i))))"

text \<open>The thread that is created and posted for an entry point.\<close>

lemma thread_started:
  assumes r: "spawn_ready alloc pr p th k Q F s" and h: "hlog t = after_reads bs (hlog s)"
    and m: "vfsst.more t = vfsst.more s" "mapped (kmem t) k 4096" and e: "entry \<noteq> NULL"
  obtains t1 t2 u where "thread_create alloc ex pr entry arg t = Some (th, t1)"
    "scheduler_post th (proc_put pr (p\<lparr>threads := th\<rparr>) t1) = Some t2" "proc_at t1 pr = Some (p\<lparr>threads := th\<rparr>)"
    "proc_at t2 pr = Some (p\<lparr>threads := th\<rparr>)" "thrs t2 th = Some u" "tparent u = pr" "sched_rel t2 (enq 5 th Q)"
    "frame_ok (kmem t2) (trap_frame u) entry (trap_frame u + 64)" "ld32 (kmem t2) (trap_frame u + 64) = Some ex"
    "writes_in k 4096 (kmem t) (kmem t2)"
proof -
  note sel = more_procs [OF m(1)]
  have q: "th \<notin> queued Q" "th \<noteq> NULL" "k \<noteq> NULL" "sched_rel s Q" and ps: "proc_at s pr = Some p"
    and al: "alloc (hlog t) SIZEOF_THREAD = th" "alloc (Malloc SIZEOF_THREAD th # hlog t) (4 * 1024) = k"
    using r h by (simp_all add: spawn_ready_def)
  have p: "proc_at t pr = Some p" using ps by (simp add: proc_at_def sel split: if_splits)
  have pn: "pr \<noteq> NULL" using p by (auto simp: proc_at_def)
  obtain ctx m' where c: "thread_stack ex (kmem t) k entry arg = Some (ctx, m')" "frame_ok m' ctx entry (ctx + 64)"
    "ld32 m' (ctx + 64) = Some ex"
    using thread_stack_frame [OF m(2), of ex entry arg] e by auto
  let ?u = "\<lparr>tid = current_tid t, tpriority = PROCESS_PRI_DEFAULT, tstate = STATE_READY, tparent = pr, kernel = k,
    time_slice = SLICE, trap_frame = ctx, tnext = threads p, next_ready = NULL\<rparr>"
  let ?t1 = "thr_put th ?u ((proc_put pr (p\<lparr>threads := th\<rparr>) (t\<lparr>current_tid := current_tid t + 1,
      hlog := Malloc (4 * 1024) k # Malloc SIZEOF_THREAD th # hlog t\<rparr>))\<lparr>kmem := m'\<rparr>)"
  let ?x = "proc_put pr (p\<lparr>threads := th\<rparr>) ?t1"
  have "sched_rel t Q" by (rule sched_rel_cong [OF q(4)]) (simp_all add: sel)
  then have "sched_rel ?x Q"
    by (rule sched_rel_cong [OF rel_thr_put [OF _ q(1), of t ?u]]) (simp_all add: thr_put_def proc_put_def)
  moreover have x: "thrs ?x th = Some ?u" "tstate ?u \<noteq> STATE_TERMINATED" "unat (tpriority ?u) < 11" "unat (tpriority ?u) = 5"
    by (simp_all add: thr_put_def proc_put_def ready_not_terminated PROCESS_PRI_DEFAULT_def)
  ultimately obtain t2 where t2: "scheduler_post th ?x = Some t2" "sched_rel t2 (enq 5 th Q)" "sched_frame ?x t2"
    "cores t2 = (cores ?x)(th \<mapsto> core (?u\<lparr>tstate := STATE_READY\<rparr>))"
    using post_enq [OF _ x(1) q(2,1) x(2,3)] by auto
  obtain u where u: "thrs t2 th = Some u" "core u = core (?u\<lparr>tstate := STATE_READY\<rparr>)"
    using cores_Some [of t2 th] t2(4) by auto
  have f: "tparent u = pr" "trap_frame u = ctx"
    using arg_cong [OF u(2), of tparent] arg_cong [OF u(2), of trap_frame] by simp_all
  note fr = sched_frame_sel [OF t2(3)]
  have "kmem t2 = m'" using fr(5) by (simp add: thr_put_def proc_put_def)
  moreover have "proc_at t2 pr = Some (p\<lparr>threads := th\<rparr>)" using fr(2) pn by (simp add: proc_at_def proc_put_def)
  ultimately show ?thesis
    using that [OF thread_create_run [OF al(1) q(2) al(2) q(3) p c(1)] t2(1) _ _ u(1) f(1) t2(2)] c(2,3) f(2) pn
      thread_stack_keeps [OF c(1) m(2)]
    by (simp add: proc_at_def proc_put_def thr_put_def)
qed


section \<open>A program to start\<close>

definition spawn_more :: "(ptr \<Rightarrow> process option) \<Rightarrow> ptr list \<Rightarrow> u32 \<Rightarrow> unit procst_ext" where
  "spawn_more ps tab pid = procst.fields NULL NULL tab pid 1 (replicate 11 NULL) (replicate 11 NULL) ps Map.empty
     [0x3000 \<mapsto> replicate 1024 0] True (gdts blank_kernel)"

definition spawn_start :: procst where
  "spawn_start = elf_kernel elf_mem [] Map.empty (spawn_more Map.empty (replicate 128 NULL) 7)"

definition spawn_named :: mem where
  "spawn_named = put elf_mem (0x7400 + of_nat 0x324) (pad_to 31 [47, 97, 47, 98] @ [0])"

definition spawn_proc :: process where
  "spawn_proc = \<lparr>Pid = 7, threads = NULL, priority = 5, dir = 0x3000, pstate = STATE_READY\<rparr>"

definition spawn_created :: procst where
  "spawn_created = elf_kernel spawn_named [Malloc SIZEOF_PROCESS 0x7720] Map.empty
     (spawn_more [0x7720 \<mapsto> spawn_proc] (0x7720 # replicate 127 NULL) 8)"

definition spawn_opened :: procst where
  "spawn_opened = elf_kernel (cut_path 0x7400 [97] spawn_named) [Malloc SIZEOF_FILE 0xB00, Malloc SIZEOF_PROCESS 0x7720] opened_file
     (spawn_more [0x7720 \<mapsto> spawn_proc] (0x7720 # replicate 127 NULL) 8)"

definition spawn_places :: spawn_env where
  "spawn_places = \<lparr>se_elf = elf_places, se_entry = 0x7300, se_exit = 0xC0105000\<rparr>"

lemma spawn_named_ok: "elf_memory spawn_named" "cstr spawn_named 0x7400 (47 # [97] @ 47 # [98])"
proof -
  have "cstr spawn_named 0x7500 [47]" "cstr spawn_named 0x7700 [97]" "cstr spawn_named 0x7780 [47]" "ld32 spawn_named 0x7600 = Some 0x200"
    using elf_mem_ok(1) by (simp_all add: spawn_named_def put_def elf_memory_def ld32_def)
  then show "elf_memory spawn_named"
    using put_in_strings [where i = "0x324" and bs = "pad_to 31 [47, 97, 47, 98] @ [0]", OF elf_mem_ok(1)] by (simp add: elf_memory_def spawn_named_def)
  show "cstr spawn_named 0x7400 (47 # [97] @ 47 # [98])"
    using elf_mem_ok(2) by (simp add: spawn_named_def put_def)
qed

lemma spawn_create:
  "process_create region_vmm 0x7720 0x7400 PROCESS_PRI_DEFAULT (spawn_start\<lparr>hlog := [Malloc SIZEOF_PROCESS 0x7720]\<rparr>)
    = Some spawn_created"
proof -
  let ?s = "spawn_start\<lparr>hlog := [Malloc SIZEOF_PROCESS 0x7720]\<rparr>"
  have c: "v_create region_vmm (?s\<lparr>current_pid := current_pid ?s + 1\<rparr>) = (0x3000, ?s\<lparr>current_pid := current_pid ?s + 1\<rparr>)"
    by (simp add: region_vmm_def)
  have d: "pdirs (?s\<lparr>current_pid := current_pid ?s + 1\<rparr>) 0x3000 = Some (replicate 1024 0)"
    "v_kerneldir region_vmm (?s\<lparr>current_pid := current_pid ?s + 1\<rparr>) \<noteq> NULL"
    "pdirs (?s\<lparr>current_pid := current_pid ?s + 1\<rparr>) (v_kerneldir region_vmm (?s\<lparr>current_pid := current_pid ?s + 1\<rparr>)) =
      Some (replicate 1024 0)"
    by (simp_all add: spawn_start_def elf_kernel_def vfsst.defs spawn_more_def procst.defs region_vmm_def)
  have n: "cstr (kmem ?s) 0x7400 [47, 97, 47, 98]" "mapped (kmem ?s) (0x7720 + 4) 32" "kmem ?s = elf_mem"
    using elf_mem_ok by (simp_all add: spawn_start_def elf_kernel_sel elf_memory_def)
  have ap: "apart (0x7720 + 4) 31 (0x7400 :: ptr) (Suc (length [47 :: u8, 97, 47, 98]))" by (simp add: apart_def)
  have pt: "process_table spawn_start = replicate 128 NULL" "current_pid spawn_start = 7"
    "pdirs spawn_start = [0x3000 \<mapsto> replicate 1024 0]"
    by (simp_all add: spawn_start_def elf_kernel_def vfsst.defs spawn_more_def procst.defs)
  have tab: "table_insert (replicate 128 NULL) 0x7720 = 0x7720 # replicate 127 NULL"
    using replicate_Suc [of 127 NULL] by simp
  have dr: "(0 :: u32) # replicate 767 0 @ replicate 256 0 = replicate 1024 0"
    using replicate_Suc [of 1023 "0 :: u32"] by (simp flip: replicate_add)
  have "spawn_created = (proc_put 0x7720 spawn_proc (?s\<lparr>current_pid := 8, pdirs := [0x3000 \<mapsto> replicate 1024 0],
      kmem := spawn_named\<rparr>))\<lparr>process_table := 0x7720 # replicate 127 NULL\<rparr>"
    by (simp add: spawn_created_def spawn_start_def elf_kernel_def vfsst.defs spawn_more_def procst.defs proc_put_def)
  then show ?thesis
    using process_create_run [OF _ c _ d _ _ ap, of PROCESS_PRI_DEFAULT] n
    by (simp add: pt tab dr spawn_proc_def spawn_named_def PROCESS_PRI_DEFAULT_def)
qed

lemma spawn_opened_sel:
  "kmem spawn_opened = cut_path 0x7400 [97] spawn_named" "procs spawn_opened = [0x7720 \<mapsto> spawn_proc]"
  "queue spawn_opened = replicate 11 NULL" "queue_tail spawn_opened = replicate 11 NULL" "thrs spawn_opened = Map.empty"
  by (simp_all add: spawn_opened_def elf_kernel_def vfsst.defs spawn_more_def procst.defs)

lemma spawn_opened_ready:
  "spawn_ready block_alloc 0x7720 spawn_proc 0xC00 0xE000 (replicate 11 []) elf_file spawn_opened"
proof -
  have "mapped (kmem spawn_opened) 0xE000 4096"
    using elf_cut [OF spawn_named_ok(1)] by (simp add: spawn_opened_sel elf_memory_def)
  moreover have "sched_rel spawn_opened (replicate 11 [])" by (simp add: sched_rel_def rq_ok_def spawn_opened_sel)
  moreover have "apart 0xE000 4096 (seg_va (prog_phdr elf_file i)) (unat (seg_memsz (prog_phdr elf_file i)))"
    if "loads elf_file i" for i
    using that by (auto simp: elf_loads elf_headers elf_regions apart_def)
  ultimately show ?thesis
    by (simp add: spawn_ready_def proc_at_def spawn_opened_sel queued_def block_alloc_def SIZEOF_THREAD_def)
qed


end
