(* ===== verification/KFormat.thy ===== *)
theory KFormat
  imports KString
begin

text \<open>
  Formatted output, \<open>libc/vsprintf.c\<close>: the state machine of \<open>vsnprintf\<close> and the routines that
  format a number, a character and a string. What is written is a pair of memory and position. The
  arrays \<open>nbuf\<close> and \<open>altb\<close> of \<open>fmt_int\<close> do not leave it and are lists. The arguments are
  the words the caller pushed, two for a \<open>long long\<close>; taking one that was not passed is
  \<open>None\<close>, and so is an overflow of \<open>int\<close>. \<open>null_str\<close> is the address of the literal \<open>(null)\<close>.
\<close>

unbundle bit_operations_syntax

section \<open>Characters and flags\<close>

type_synonym out = "mem \<times> u32"

definition F_ALTERNATE :: u32 where "F_ALTERNATE = 1"
definition F_ZEROPAD :: u32 where "F_ZEROPAD = 2"
definition F_LEFT :: u32 where "F_LEFT = 4"
definition F_SPACE :: u32 where "F_SPACE = 8"
definition F_PLUS :: u32 where "F_PLUS = 16"
definition F_SIGNED :: u32 where "F_SIGNED = 32"
definition F_SMALL :: u32 where "F_SMALL = 64"

definition L_CHAR :: u32 where "L_CHAR = 1"
definition L_SHORT :: u32 where "L_SHORT = 2"
definition L_LONG :: u32 where "L_LONG = 3"
definition L_LLONG :: u32 where "L_LLONG = 4"
definition L_DOUBLE :: u32 where "L_DOUBLE = 5"

definition is_digit :: "u8 \<Rightarrow> bool" where
  "is_digit c \<longleftrightarrow> 48 \<le> c \<and> c \<le> 57"

partial_function (option) get_atoi :: "mem \<Rightarrow> ptr \<Rightarrow> int \<Rightarrow> (int \<times> ptr) option" where
  "get_atoi m str n = do {
     c \<leftarrow> m str;
     if is_digit c then
       (if long_ok (n * 10) \<and> long_ok (n * 10 + int (unat c))
        then get_atoi m (str + 1) (n * 10 + int (unat c) - 48) else None)
     else Some (n, str)
   }"

definition bputc :: "ptr \<Rightarrow> u32 \<Rightarrow> u8 \<Rightarrow> out \<Rightarrow> out option" where
  "bputc buf mx c out = do {
     m \<leftarrow> (if snd out < mx then st8 (fst out) (buf + snd out) c else Some (fst out));
     Some (m, snd out + 1)
   }"

text \<open>The loops that write the characters of a local array, or one character repeatedly.\<close>

fun bputs :: "ptr \<Rightarrow> u32 \<Rightarrow> u8 list \<Rightarrow> out \<Rightarrow> out option" where
  "bputs buf mx [] out = Some out"
| "bputs buf mx (c # cs) out = do { out \<leftarrow> bputc buf mx c out; bputs buf mx cs out }"

definition bpad :: "ptr \<Rightarrow> u32 \<Rightarrow> int \<Rightarrow> u8 \<Rightarrow> out \<Rightarrow> out option" where
  "bpad buf mx npad c = bputs buf mx (replicate (nat npad) c)"

section \<open>Numbers, characters and strings\<close>

definition digit_char :: "bool \<Rightarrow> u32 \<Rightarrow> u8" where
  "digit_char small d = (if d < 10 then 48 + ucast d else if small then 87 + ucast d else 55 + ucast d)"

text \<open>The digits in the order they are stored, the last one first. The caller has returned when the base
  is below 2.\<close>

function fmt_digits :: "bool \<Rightarrow> u32 \<Rightarrow> u32 \<Rightarrow> u8 list" where
  "fmt_digits small base n =
     digit_char small (n mod base) #
     (if 0 < n div base \<and> 2 \<le> base then fmt_digits small base (n div base) else [])"
  by pat_completeness auto
termination
proof (relation "measure (\<lambda>(small, base, n). unat n)")
  fix small :: bool and base n :: u32
  assume a: "0 < n div base \<and> 2 \<le> base"
  then have "2 \<le> unat base" "0 < unat n div unat base"
    by (auto simp: word_less_nat_alt word_le_nat_alt unat_div_distrib)
  then have "unat n \<noteq> 0" "2 \<le> unat base" by (auto intro: ccontr)
  then show "((small, base, n div base), (small, base, n)) \<in> measure (\<lambda>(small, base, n). unat n)"
    by (simp add: unat_div_distrib)
qed simp

declare fmt_digits.simps [simp del]

definition fmt_int :: "ptr \<Rightarrow> u32 \<Rightarrow> int \<Rightarrow> int \<Rightarrow> int \<Rightarrow> u32 \<Rightarrow> out \<Rightarrow> out option" where
  "fmt_int buf mx num base width flags out =
     (if base < 2 \<or> 16 < base then Some out
      else
        let small = (flags AND F_SMALL \<noteq> 0);
            flags = (if flags AND F_LEFT \<noteq> 0 then flags AND NOT F_ZEROPAD else flags);
            neg = (flags AND F_SIGNED \<noteq> 0 \<and> num < 0)
        in
        if neg \<and> num = - (2 ^ 63) then None
        else do {
          let n = (of_int (if neg then - num else num) :: u32);
          let sign = (if neg then [45] else if flags AND F_PLUS \<noteq> 0 then [43]
                      else if flags AND F_SPACE \<noteq> 0 then [32] else []);
          let nbuf = fmt_digits small (of_int base) n;
          let altb = sign @ (if flags AND F_ALTERNATE = 0 then []
                      else if base = 8 then [48]
                      else if base = 16 then [48, if small then 120 else 88] else []);
          let i = int (length nbuf);
          let j = int (length altb);
          let npad = (if width > i + j then width - i - j else 0);
          (altb, npad, out) \<leftarrow>
            (if npad > 0 \<and> flags AND F_LEFT = 0 then do {
               (altb, out) \<leftarrow> (if flags AND F_ZEROPAD \<noteq> 0
                               then do { out \<leftarrow> bputs buf mx altb out; Some ([], out) }
                               else Some (altb, out));
               out \<leftarrow> bpad buf mx npad (if flags AND F_ZEROPAD \<noteq> 0 then 48 else 32) out;
               Some (altb, -1, out)
             } else Some (altb, npad, out));
          out \<leftarrow> bputs buf mx altb out;
          out \<leftarrow> bputs buf mx (rev nbuf) out;
          if npad > 0 \<and> flags AND F_LEFT \<noteq> 0 then bpad buf mx npad 32 out else Some out
        })"

definition fmt_chr :: "ptr \<Rightarrow> u32 \<Rightarrow> u8 \<Rightarrow> int \<Rightarrow> u32 \<Rightarrow> out \<Rightarrow> out option" where
  "fmt_chr buf mx c width flags out = do {
     let npad = (if width > 0 then width - 1 else 0);
     let npad = (if npad < 0 then 0 else npad);
     (npad, out) \<leftarrow> (if npad \<noteq> 0 \<and> flags AND F_LEFT = 0
                      then do { out \<leftarrow> bpad buf mx npad 32 out; Some (-1, out) } else Some (npad, out));
     out \<leftarrow> bputc buf mx c out;
     if npad \<noteq> 0 \<and> flags AND F_LEFT \<noteq> 0 then bpad buf mx npad 32 out else Some out
   }"

partial_function (option) slen_loop :: "mem \<Rightarrow> ptr \<Rightarrow> u32 \<Rightarrow> u32 option" where
  "slen_loop m s i = do { c \<leftarrow> m s; if c \<noteq> 0 then slen_loop m (s + 1) (i + 1) else Some i }"

definition slen :: "mem \<Rightarrow> ptr \<Rightarrow> u32 option" where
  "slen m s = slen_loop m s 0"

text \<open>The string is read while the buffer is written.\<close>

partial_function (option) fmt_str_loop :: "ptr \<Rightarrow> u32 \<Rightarrow> ptr \<Rightarrow> out \<Rightarrow> out option" where
  "fmt_str_loop buf mx s out = do {
     c \<leftarrow> fst out s;
     if c \<noteq> 0 then do { out \<leftarrow> bputc buf mx c out; fmt_str_loop buf mx (s + 1) out } else Some out
   }"

definition fmt_str :: "ptr \<Rightarrow> u32 \<Rightarrow> ptr \<Rightarrow> int \<Rightarrow> u32 \<Rightarrow> out \<Rightarrow> out option" where
  "fmt_str buf mx s width flags out = do {
     npad \<leftarrow> (if width > 0 then do { l \<leftarrow> slen (fst out) s; Some (sint (of_int width - l)) } else Some 0);
     let npad = (if npad < 0 then 0 else npad);
     (npad, out) \<leftarrow> (if npad \<noteq> 0 \<and> flags AND F_LEFT = 0
                      then do { out \<leftarrow> bpad buf mx npad 32 out; Some (-1, out) } else Some (npad, out));
     out \<leftarrow> fmt_str_loop buf mx s out;
     if npad \<noteq> 0 \<and> flags AND F_LEFT \<noteq> 0 then bpad buf mx npad 32 out else Some out
   }"

section \<open>The state machine\<close>

datatype fmt_state = S_DEFAULT | S_FLAGS | S_WIDTH | S_PRECIS | S_LENGTH | S_CONV

record fmtst =
  f_out :: out
  f_fmt :: ptr
  f_state :: fmt_state
  f_flags' :: u32
  f_width :: int
  f_prec :: int
  f_lflags :: u32
  f_args :: "u32 list"

fun va_word :: "u32 list \<Rightarrow> (u32 \<times> u32 list) option" where
  "va_word [] = None"
| "va_word (w # ws) = Some (w, ws)"

definition va_llong :: "u32 list \<Rightarrow> (int \<times> u32 list) option" where
  "va_llong ws = do { (lo, ws) \<leftarrow> va_word ws; (hi, ws) \<leftarrow> va_word ws;
     Some (sint (word_cat hi lo :: u64), ws) }"

definition fmt_flag :: "u8 \<Rightarrow> u32 option" where
  "fmt_flag c =
     (if c = 35 then Some F_ALTERNATE else if c = 48 then Some F_ZEROPAD else if c = 45 then Some F_LEFT
      else if c = 32 then Some F_SPACE else if c = 43 then Some F_PLUS
      else if c = 39 \<or> c = 73 then Some 0 else None)"

definition fmt_num :: "u8 \<Rightarrow> u32 \<Rightarrow> u32 list \<Rightarrow> (int \<times> u32 list) option" where
  "fmt_num c lflags ws =
     (if lflags = L_LONG then do { (w, ws) \<leftarrow> va_word ws; Some (sint w, ws) }
      else if lflags AND (L_LLONG OR L_DOUBLE) \<noteq> 0 then va_llong ws
      else do { (w, ws) \<leftarrow> va_word ws; Some (if c = 100 \<or> c = 105 then sint w else uint w, ws) })"

definition fmt_base :: "u8 \<Rightarrow> int" where
  "fmt_base c = (if c = 120 \<or> c = 88 then 16 else if c = 111 then 8 else if c = 98 then 2 else 10)"

text \<open>A conversion; the result is the character the loop then tests for the end.\<close>

definition fmt_conv :: "ptr \<Rightarrow> u32 \<Rightarrow> ptr \<Rightarrow> u8 \<Rightarrow> fmtst \<Rightarrow> (u8 \<times> fmtst) option" where
  "fmt_conv buf sz null_str c s =
     (if c \<in> {100, 105, 111, 98, 117, 120, 88} then do {
        (num, ws) \<leftarrow> fmt_num c (f_lflags s) (f_args s);
        let fl = (if c = 100 \<or> c = 105 then f_flags' s OR F_SIGNED
                  else if c = 120 then f_flags' s OR F_SMALL else f_flags' s);
        out \<leftarrow> fmt_int buf sz num (fmt_base c) (f_width s) fl (f_out s);
        Some (c, s\<lparr>f_out := out, f_flags' := fl, f_args := ws\<rparr>)
      } else if c = 112 then do {
        (w, ws) \<leftarrow> va_word (f_args s);
        let fl = f_flags' s OR (F_SMALL OR F_ALTERNATE);
        out \<leftarrow> fmt_int buf sz (sint w) 16 (f_width s) fl (f_out s);
        Some (c, s\<lparr>f_out := out, f_flags' := fl, f_args := ws\<rparr>)
      } else if c = 115 then do {
        (w, ws) \<leftarrow> va_word (f_args s);
        out \<leftarrow> fmt_str buf sz (if w = NULL then null_str else w) (f_width s) (f_flags' s) (f_out s);
        Some (c, s\<lparr>f_out := out, f_args := ws\<rparr>)
      } else if c = 99 then do {
        (w, ws) \<leftarrow> va_word (f_args s);
        out \<leftarrow> fmt_chr buf sz (ucast w) (f_width s) (f_flags' s) (f_out s);
        Some (ucast w, s\<lparr>f_out := out, f_args := ws\<rparr>)
      } else if c = 37 then do {
        out \<leftarrow> bputc buf sz c (f_out s);
        Some (c, s\<lparr>f_out := out\<rparr>)
      } else do {
        out \<leftarrow> bputc buf sz 37 (f_out s);
        out \<leftarrow> bputc buf sz c out;
        Some (c, s\<lparr>f_out := out\<rparr>)
      })"

definition fmt_step :: "ptr \<Rightarrow> u32 \<Rightarrow> ptr \<Rightarrow> fmtst \<Rightarrow> (u8 \<times> fmtst) option" where
  "fmt_step buf sz null_str s = do {
     let p = f_fmt s;
     let m = fst (f_out s);
     c \<leftarrow> m p;
     let s = s\<lparr>f_fmt := p + 1\<rparr>;
     (case f_state s of
        S_DEFAULT \<Rightarrow>
          if c = 37 then Some (c, s\<lparr>f_state := S_FLAGS, f_flags' := 0\<rparr>)
          else do { out \<leftarrow> bputc buf sz c (f_out s); Some (c, s\<lparr>f_out := out\<rparr>) }
      | S_FLAGS \<Rightarrow>
          (case fmt_flag c of
             Some f \<Rightarrow> Some (c, s\<lparr>f_flags' := f_flags' s OR f\<rparr>)
           | None \<Rightarrow> Some (c, s\<lparr>f_fmt := p, f_width := 0, f_state := S_WIDTH\<rparr>))
      | S_WIDTH \<Rightarrow>
          if c = 42 then do {
            (w, ws) \<leftarrow> va_word (f_args s);
            if sint w < 0
            then (if long_ok (- sint w)
                  then Some (c, s\<lparr>f_args := ws, f_width := - sint w, f_flags' := f_flags' s OR F_LEFT\<rparr>) else None)
            else Some (c, s\<lparr>f_args := ws, f_width := sint w\<rparr>)
          } else if is_digit c \<and> 48 < c then do {
            (w, q) \<leftarrow> get_atoi m p 0;
            Some (c, s\<lparr>f_fmt := q, f_width := w\<rparr>)
          } else Some (c, s\<lparr>f_fmt := p, f_prec := -1, f_state := S_PRECIS\<rparr>)
      | S_PRECIS \<Rightarrow>
          if c = 46 then do {
            d \<leftarrow> m (p + 1);
            (pr, q, ws) \<leftarrow> (if is_digit d then do { (w, q) \<leftarrow> get_atoi m (p + 1) 0; Some (w, q, f_args s) }
                            else if d = 42 then do { (w, ws) \<leftarrow> va_word (f_args s); Some (sint w, p + 1, ws) }
                            else Some (f_prec s, p + 1, f_args s));
            Some (c, s\<lparr>f_fmt := q, f_args := ws, f_prec := (if pr < 0 then 0 else pr), f_lflags := 0,
                      f_state := S_LENGTH\<rparr>)
          } else Some (c, s\<lparr>f_fmt := p, f_lflags := 0, f_state := S_LENGTH\<rparr>)
      | S_LENGTH \<Rightarrow>
          if c = 104 then Some (c, s\<lparr>f_lflags := (if f_lflags s = L_CHAR then L_SHORT else L_CHAR)\<rparr>)
          else if c = 108 then Some (c, s\<lparr>f_lflags := (if f_lflags s = L_LONG then L_LLONG else L_LONG)\<rparr>)
          else if c = 76 then Some (c, s\<lparr>f_lflags := L_DOUBLE\<rparr>)
          else Some (c, s\<lparr>f_fmt := p, f_state := S_CONV\<rparr>)
      | S_CONV \<Rightarrow> do {
          (c, s) \<leftarrow> fmt_conv buf sz null_str c s;
          Some (c, s\<lparr>f_state := S_DEFAULT\<rparr>)
        })
   }"

partial_function (option) vsn_loop :: "ptr \<Rightarrow> u32 \<Rightarrow> ptr \<Rightarrow> fmtst \<Rightarrow> fmtst option" where
  "vsn_loop buf sz null_str s = do {
     (c, s) \<leftarrow> fmt_step buf sz null_str s;
     if c = 0 then Some s else vsn_loop buf sz null_str s
   }"

text \<open>\<open>width\<close>, \<open>precision\<close> and \<open>lflags\<close> are not initialised; they are assigned before they are used.\<close>

definition vsnprintf :: "ptr \<Rightarrow> ptr \<Rightarrow> u32 \<Rightarrow> ptr \<Rightarrow> u32 list \<Rightarrow> mem \<Rightarrow> (u32 \<times> mem) option" where
  "vsnprintf null_str buf sz fmt ap m = do {
     let sz = (if buf = NULL then 0 else sz);
     s \<leftarrow> vsn_loop buf sz null_str \<lparr>f_out = (m, 0), f_fmt = fmt, f_state = S_DEFAULT, f_flags' = 0,
            f_width = 0, f_prec = 0, f_lflags = 0, f_args = ap\<rparr>;
     let n = snd (f_out s) - 1;
     m \<leftarrow> (if n < sz then st8 (fst (f_out s)) (buf + n) 0
           else if sz > 0 then st8 (fst (f_out s)) (buf + (sz - 1)) 0
           else Some (fst (f_out s)));
     Some (n, m)
   }"

end
