(* ===== verification/KFormatSpec.thy ===== *)
theory KFormatSpec
  imports KFormat
begin

text \<open>
  What formatted output writes: the text of a number in a field, and the text of a format string, as
  functions on lists; and that the routines of \<open>KFormat\<close> write exactly that, cut to the size of the
  buffer.
\<close>

unbundle bit_operations_syntax

section \<open>Writing into a buffer of limited size\<close>

text \<open>The state in which the text \<open>T\<close> has been written: what fits is in the buffer, the position counts
  all of it.\<close>

definition wrote :: "mem \<Rightarrow> ptr \<Rightarrow> u32 \<Rightarrow> u8 list \<Rightarrow> out" where
  "wrote m buf sz T = (put m buf (take (unat sz) T), of_nat (length T))"

lemma bputc_wrote:
  assumes "mapped m buf (unat sz)" and "length T < 2 ^ 32"
  shows "bputc buf sz c (wrote m buf sz T) = Some (wrote m buf sz (T @ [c]))"
proof (cases "length T < unat sz")
  case True
  then have "m (buf + of_nat (length T)) \<noteq> None" using assms(1) by (auto simp: mapped_iff)
  with st8_put_snoc [of T m buf c] assms(2) have
    "st8 (put m buf T) (buf + of_nat (length T)) c = Some (put m buf (T @ [c]))" by simp
  then show ?thesis
    using True of_nat_less32 [OF True] by (simp add: bputc_def wrote_def add.commute)
next
  case False
  then have "\<not> (of_nat (length T) :: u32) < sz" using assms(2) by (simp add: word_less_nat_alt unat_of_nat32)
  then show ?thesis using False by (simp add: bputc_def wrote_def add.commute)
qed

lemma bputs_wrote:
  assumes "mapped m buf (unat sz)" and "length T + length cs < 2 ^ 32"
  shows "bputs buf sz cs (wrote m buf sz T) = Some (wrote m buf sz (T @ cs))"
  using assms(2) by (induction cs arbitrary: T) (simp_all add: bputc_wrote [OF assms(1)])

lemma bpad_wrote:
  "mapped m buf (unat sz) \<Longrightarrow> length T + nat k < 2 ^ 32 \<Longrightarrow>
   bpad buf sz k c (wrote m buf sz T) = Some (wrote m buf sz (T @ replicate (nat k) c))"
  by (simp add: bpad_def bputs_wrote)

section \<open>The text of a number\<close>

definition dig :: "bool \<Rightarrow> nat \<Rightarrow> u8" where
  "dig small d = of_nat (if d < 10 then 48 + d else if small then 87 + d else 55 + d)"

function num_chars :: "bool \<Rightarrow> nat \<Rightarrow> nat \<Rightarrow> u8 list" where
  "num_chars small b n = (if n < b \<or> b < 2 then [dig small n] else num_chars small b (n div b) @ [dig small (n mod b)])"
  by pat_completeness auto
termination
  by (relation "measure (\<lambda>(small, b, n). n)") auto

declare num_chars.simps [simp del]

definition pad_field :: "nat \<Rightarrow> bool \<Rightarrow> bool \<Rightarrow> u8 list \<Rightarrow> u8 list \<Rightarrow> u8 list" where
  "pad_field w left zero pre body =
     (let k = w - length pre - length body in
      if left then pre @ body @ replicate k 32
      else if zero then pre @ replicate k 48 @ body
      else replicate k 32 @ pre @ body)"

lemma digit_char_dig: "d < 16 \<Longrightarrow> digit_char small (of_nat d) = dig small d"
proof -
  assume d: "d < 16"
  then have "unat (of_nat d :: u32) = d" by (simp add: unat_of_nat32)
  moreover have "(ucast (of_nat d :: u32) :: u8) = of_nat d"
    using d by (simp add: word_unat_eq_iff unsigned_ucast_eq unat_of_nat take_bit_nat_eq_self)
  ultimately show ?thesis by (simp add: digit_char_def dig_def word_less_nat_alt)
qed

lemma rev_fmt_digits:
  assumes "2 \<le> unat b" and "unat b \<le> 16"
  shows "rev (fmt_digits small b n) = num_chars small (unat b) (unat n)"
proof (induction "unat n" arbitrary: n rule: less_induct)
  case less
  have b: "2 \<le> b" using assms(1) by (simp add: word_le_nat_alt)
  have lt: "unat n mod unat b < 16" using assms mod_less_divisor [of "unat b" "unat n"] by linarith
  then have "n mod b = of_nat (unat n mod unat b)"
    by (simp add: word_unat_eq_iff unat_mod_distrib unat_of_nat32)
  moreover note lt
  ultimately have d: "digit_char small (n mod b) = dig small (unat n mod unat b)" by (simp add: digit_char_dig)
  show ?case
  proof (cases "unat n < unat b")
    case True
    then have "n div b = 0" by (simp add: word_unat_eq_iff unat_div_distrib)
    then show ?thesis
      using d True by (subst fmt_digits.simps, subst num_chars.simps) simp
  next
    case False
    then have q: "0 < unat n div unat b" using assms(1) by (simp add: div_greater_zero_iff)
    then have "0 < n div b" by (simp add: word_less_nat_alt unat_div_distrib)
    moreover have "unat n div unat b < unat n" using q assms(1) by (intro div_less_dividend) (auto intro: ccontr)
    then have "rev (fmt_digits small b (n div b)) = num_chars small (unat b) (unat n div unat b)"
      using less [of "n div b"] by (simp add: unat_div_distrib)
    ultimately show ?thesis
      using d False assms(1) b by (subst fmt_digits.simps, subst num_chars.simps) simp
  qed
qed

lemma flag_bit:
  "f AND F_ALTERNATE = 0 \<longleftrightarrow> \<not> bit f 0" "f AND F_ZEROPAD = 0 \<longleftrightarrow> \<not> bit f 1" "f AND F_LEFT = 0 \<longleftrightarrow> \<not> bit f 2"
  "f AND F_SPACE = 0 \<longleftrightarrow> \<not> bit f 3" "f AND F_PLUS = 0 \<longleftrightarrow> \<not> bit f 4" "f AND F_SIGNED = 0 \<longleftrightarrow> \<not> bit f 5"
  "f AND F_SMALL = 0 \<longleftrightarrow> \<not> bit f 6"
  using and_exp_eq_0_iff_not_bit [of f 0] and_exp_eq_0_iff_not_bit [of f 1] and_exp_eq_0_iff_not_bit [of f 2]
    and_exp_eq_0_iff_not_bit [of f 3] and_exp_eq_0_iff_not_bit [of f 4] and_exp_eq_0_iff_not_bit [of f 5]
    and_exp_eq_0_iff_not_bit [of f 6]
  by (simp_all add: F_ALTERNATE_def F_ZEROPAD_def F_LEFT_def F_SPACE_def F_PLUS_def F_SIGNED_def F_SMALL_def)

lemma clear_zeropad: "bit (f AND NOT F_ZEROPAD) k \<longleftrightarrow> bit f k \<and> k \<noteq> 1" for f :: u32
proof -
  have "bit F_ZEROPAD k \<longleftrightarrow> k = 1" by (auto simp: F_ZEROPAD_def bit_2_iff)
  then show ?thesis using bit_imp_le_length [of f k] by (auto simp: bit_and_iff bit_not_iff)
qed

definition sign_text :: "u32 \<Rightarrow> bool \<Rightarrow> u8 list" where
  "sign_text f neg = (if neg then [45] else if bit f 4 then [43] else if bit f 3 then [32] else [])"

definition alt_text :: "u32 \<Rightarrow> int \<Rightarrow> u8 list" where
  "alt_text f base = (if \<not> bit f 0 then [] else if base = 8 then [48]
     else if base = 16 then [48, if bit f 6 then 120 else 88] else [])"

definition int_text :: "u32 \<Rightarrow> int \<Rightarrow> nat \<Rightarrow> int \<Rightarrow> u8 list" where
  "int_text f base w num =
     (let neg = bit f 5 \<and> num < 0;
          n = unat (of_int (if neg then - num else num) :: u32)
      in pad_field w (bit f 2) (bit f 1) (sign_text f neg @ alt_text f base) (num_chars (bit f 6) (nat base) n))"

lemma pad_field_length:
  "length (pad_field w l z pre body) = length pre + (w - length pre - length body) + length body"
  by (simp add: pad_field_def Let_def)

text \<open>What is written after the last digit has been stored: the field around the text.\<close>

lemma field_wrote:
  assumes map: "mapped m buf (unat sz)" and len: "length T + length pre + k + length body < 2 ^ 32"
    and k: "k = w - length pre - length body"
  shows "do {
      (altb, npad, out) \<leftarrow>
            (if 0 < k \<and> \<not> left then do {
               (altb, out) \<leftarrow> (if zero then do { out \<leftarrow> bputs buf sz pre (wrote m buf sz T); Some ([], out) }
                               else Some (pre, wrote m buf sz T));
               out \<leftarrow> bpad buf sz (int k) (if zero then 48 else 32) out;
               Some (altb, -1 :: int, out)
             } else Some (pre, int k, wrote m buf sz T));
          out \<leftarrow> bputs buf sz altb out;
          out \<leftarrow> bputs buf sz body out;
          if 0 < npad \<and> left then bpad buf sz npad 32 out else Some out }
    = Some (wrote m buf sz (T @ pad_field w left zero pre body))"
proof -
  have out: "bputs buf sz cs (wrote m buf sz xs) = Some (wrote m buf sz (xs @ cs))"
    if "length xs + length cs < 2 ^ 32" for xs cs
    using bputs_wrote [OF map] that by simp
  have pad: "bpad buf sz (int j) c (wrote m buf sz xs) = Some (wrote m buf sz (xs @ replicate j c))"
    if "length xs + j < 2 ^ 32" for xs j c
    using bpad_wrote [OF map, of xs "int j" c] that by simp
  have "pad_field w left zero pre body = (if left then pre @ body @ replicate k 32
      else if zero then pre @ replicate k 48 @ body else replicate k 32 @ pre @ body)"
    by (simp only: pad_field_def Let_def k)
  then show ?thesis
    using len by (cases "0 < k"; cases left; cases zero) (simp_all add: out pad)
qed

lemma fmt_int_wrote:
  assumes map: "mapped m buf (unat sz)" and base: "2 \<le> base" "base \<le> 16" and w: "0 \<le> width"
    and num: "bit f 5 \<Longrightarrow> num \<noteq> - (2 ^ 63)" and len: "length T + length (int_text f base (nat width) num) < 2 ^ 32"
  shows "fmt_int buf sz num base width f (wrote m buf sz T) = Some (wrote m buf sz (T @ int_text f base (nat width) num))"
proof -
  define neg where "neg = (bit f 5 \<and> num < 0)"
  define n where "n = (of_int (if neg then - num else num) :: u32)"
  define pre where "pre = sign_text f neg @ alt_text f base"
  define body where "body = num_chars (bit f 6) (nat base) (unat n)"
  define k where "k = nat width - length pre - length body"
  have ub: "unat (of_int base :: u32) = nat base"
  proof -
    have "of_int base = (of_nat (nat base) :: u32)" using base(1) by simp
    moreover have "nat base < 2 ^ 32" using base by simp
    ultimately show ?thesis by (simp add: unat_of_nat32)
  qed
  then have body: "rev (fmt_digits (bit f 6) (of_int base) n) = body"
    using rev_fmt_digits [of "of_int base" "bit f 6" n] base by (simp add: body_def)
  then have lb: "length (fmt_digits (bit f 6) (of_int base) n) = length body"
    by (metis length_rev)
  have tx: "int_text f base (nat width) num = pad_field (nat width) (bit f 2) (bit f 1) pre body"
    by (simp only: int_text_def Let_def pre_def body_def n_def neg_def)
  define g where "g = (if bit f 2 then f AND NOT F_ZEROPAD else f)"
  have g: "bit g 2 = bit f 2" "bit g 4 = bit f 4" "bit g 3 = bit f 3" "bit g 0 = bit f 0"
    "bit g 5 = bit f 5" "bit g 1 \<longleftrightarrow> bit f 1 \<and> \<not> bit f 2"
    by (auto simp: g_def clear_zeropad)
  have npad: "(if width > int (length body) + int (length pre) then width - int (length body) - int (length pre) else 0)
      = int k"
    using w by (auto simp: k_def)
  have pre: "(if neg then [45] else if bit f 4 then [43] else if bit f 3 then [32] else []) @
      (if \<not> bit f 0 then [] else if base = 8 then [48] else if base = 16 then [48, if bit f 6 then 120 else 88] else []) = pre"
    by (simp add: sign_text_def alt_text_def pre_def)
  have b: "\<not> (base < 2 \<or> 16 < base)" using base by simp
  have nn: "\<not> (neg \<and> num = - (2 ^ 63))" using num by (auto simp: neg_def)
  have "fmt_int buf sz num base width f (wrote m buf sz T) = do {
      (altb, npad, out) \<leftarrow>
            (if 0 < k \<and> \<not> bit f 2 then do {
               (altb, out) \<leftarrow> (if bit f 1
                               then do { out \<leftarrow> bputs buf sz pre (wrote m buf sz T); Some ([], out) }
                               else Some (pre, wrote m buf sz T));
               out \<leftarrow> bpad buf sz (int k) (if bit f 1 then 48 else 32) out;
               Some (altb, -1, out)
             } else Some (pre, int k, wrote m buf sz T));
          out \<leftarrow> bputs buf sz altb out;
          out \<leftarrow> bputs buf sz body out;
          if 0 < npad \<and> bit f 2 then bpad buf sz npad 32 out else Some out }"
    unfolding fmt_int_def Let_def
    by (simp only: b if_False flag_bit g_def [symmetric] not_not,
        simp only: g neg_def [symmetric] nn if_False n_def [symmetric] pre body lb npad, cases "bit f 2"; simp)
  also have "\<dots> = Some (wrote m buf sz (T @ pad_field (nat width) (bit f 2) (bit f 1) pre body))"
    using len by (intro field_wrote [OF map]) (simp_all add: k_def tx pad_field_length)
  finally show ?thesis by (simp only: tx)
qed

section \<open>Characters and strings\<close>

lemma fmt_chr_wrote:
  assumes "mapped m buf (unat sz)" and "0 \<le> width"
    and "length T + length (pad_field (nat width) (bit f 2) False [] [c]) < 2 ^ 32"
  shows "fmt_chr buf sz c width f (wrote m buf sz T)
    = Some (wrote m buf sz (T @ pad_field (nat width) (bit f 2) False [] [c]))"
proof -
  have k: "nat (width - 1) = nat width - 1" by simp
  show ?thesis
    using assms by (cases "bit f 2"; cases "1 < width")
      (auto simp: fmt_chr_def Let_def flag_bit pad_field_def bputc_wrote bpad_wrote k)
qed

lemma slen_cstr: "cstr m s xs \<Longrightarrow> slen_loop m s i = Some (i + of_nat (length xs))"
proof (induction xs arbitrary: s i)
  case Nil
  then show ?case by (subst slen_loop.simps) simp
next
  case (Cons c xs)
  then show ?case by (subst slen_loop.simps) (simp add: add.assoc)
qed

lemma wrote_reads:
  assumes "apart buf (unat sz) p n" and "fetch m p n = Some bs"
  shows "fetch (fst (wrote m buf sz T)) p n = Some bs"
  using assms apart_mono [OF assms(1), of "length (take (unat sz) T)" n]
  by (simp add: wrote_def fetch_put_apart)

lemma wrote_cstr:
  "apart buf (unat sz) p (Suc (length xs)) \<Longrightarrow> cstr m p xs \<Longrightarrow> cstr (fst (wrote m buf sz T)) p xs"
  by (simp add: cstr_iff_fetch wrote_reads del: fetch.simps)

lemma fmt_str_loop_wrote:
  assumes map: "mapped m buf (unat sz)"
  shows "cstr m s xs \<Longrightarrow> apart buf (unat sz) s (Suc (length xs)) \<Longrightarrow> length T + length xs < 2 ^ 32 \<Longrightarrow>
    fmt_str_loop buf sz s (wrote m buf sz T) = Some (wrote m buf sz (T @ xs))"
proof (induction xs arbitrary: s T)
  case Nil
  then show ?case using wrote_cstr [OF Nil(2,1), of T] by (subst fmt_str_loop.simps) simp
next
  case (Cons c xs)
  have "apart buf (unat sz) (s + 1) (Suc (length xs))"
    using apart_sub [OF Cons.prems(2), of 0 "unat sz" 1 "Suc (length xs)"] by simp
  then have "fmt_str_loop buf sz (s + 1) (wrote m buf sz (T @ [c])) = Some (wrote m buf sz (T @ c # xs))"
    using Cons.IH [of "s + 1" "T @ [c]"] Cons.prems by simp
  then show ?case
    using wrote_cstr [OF Cons.prems(2,1), of T] Cons.prems(3)
    by (subst fmt_str_loop.simps) (simp add: bputc_wrote [OF map])
qed

lemma sint_of_int32: "long_ok x \<Longrightarrow> sint (of_int x :: u32) = x"
  by (simp add: long_ok_def sint_sbintrunc' signed_take_bit_int_eq_self)

lemma fmt_str_wrote:
  assumes map: "mapped m buf (unat sz)" and w: "0 \<le> width"
    and s: "cstr m s xs" "apart buf (unat sz) s (Suc (length xs))"
    and len: "length T + length (pad_field (nat width) (bit f 2) False [] xs) < 2 ^ 31"
  shows "fmt_str buf sz s width f (wrote m buf sz T)
    = Some (wrote m buf sz (T @ pad_field (nat width) (bit f 2) False [] xs))"
proof -
  define k where "k = nat width - length xs"
  have pf: "pad_field (nat width) (bit f 2) False [] xs
      = (if bit f 2 then xs @ replicate k 32 else replicate k 32 @ xs)"
    by (simp add: pad_field_def k_def)
  have bound: "length T + length xs + k < 2 ^ 31" using len pf by (simp split: if_splits)
  then have "long_ok (width - int (length xs))" using w by (auto simp: long_ok_def k_def)
  from sint_of_int32 [OF this]
  have "sint (of_int width - of_nat (length xs) :: u32) = width - int (length xs)" by simp
  then have e: "(if width > 0 then do { l \<leftarrow> slen (fst (wrote m buf sz T)) s; Some (sint (of_int width - l)) } else Some 0)
      = Some (if width > 0 then width - int (length xs) else 0)"
    using slen_cstr [OF wrote_cstr [OF s(2,1), of T], of 0] by (simp add: slen_def)
  have npad: "(if (if width > 0 then width - int (length xs) else 0) < 0 then 0
      else (if width > 0 then width - int (length xs) else 0)) = int k"
    using w by (auto simp: k_def)
  have out: "fmt_str_loop buf sz s (wrote m buf sz ys) = Some (wrote m buf sz (ys @ xs))"
    if "length ys + length xs < 2 ^ 32" for ys
    using fmt_str_loop_wrote [OF map s] that by simp
  have pad: "bpad buf sz (int k) c (wrote m buf sz ys) = Some (wrote m buf sz (ys @ replicate k c))"
    if "length ys + k < 2 ^ 32" for ys c
    using bpad_wrote [OF map, of ys "int k" c] that by simp
  have "fmt_str buf sz s width f (wrote m buf sz T) = do {
     (npad, out) \<leftarrow> (if 0 < k \<and> \<not> bit f 2
                      then do { out \<leftarrow> bpad buf sz (int k) 32 (wrote m buf sz T); Some (-1, out) }
                      else Some (int k, wrote m buf sz T));
     out \<leftarrow> fmt_str_loop buf sz s out;
     if npad \<noteq> 0 \<and> bit f 2 then bpad buf sz npad 32 out else Some out }"
    unfolding fmt_str_def Let_def e bind.bind_lunit npad flag_bit by simp
  also have "\<dots> = Some (wrote m buf sz (T @ pad_field (nat width) (bit f 2) False [] xs))"
    using bound unfolding pf by (cases "0 < k"; cases "bit f 2") (simp_all add: out pad)
  finally show ?thesis .
qed

section \<open>The value of the digits\<close>

lemma unat_dig: "d < 16 \<Longrightarrow> unat (dig small d) = (if d < 10 then 48 + d else if small then 87 + d else 55 + d)"
  by (simp add: dig_def unat_of_nat take_bit_nat_eq_self)

lemma digit_of_dig: "d < 16 \<Longrightarrow> digit_of (dig small d) = Some (int d)"
  by (auto simp: digit_of_def word_le_nat_alt unat_dig)

lemma digits_val_num_chars: "2 \<le> b \<Longrightarrow> b \<le> 16 \<Longrightarrow> digits_val (int b) (num_chars small b n) = int n"
proof (induction small b n rule: num_chars.induct)
  case (1 small b n)
  show ?case
  proof (cases "n < b")
    case True
    then show ?thesis using 1(3) by (subst num_chars.simps) (simp add: digits_val_def digit_of_dig)
  next
    case False
    moreover have "n mod b < 16" using 1(2,3) mod_less_divisor [of b n] by linarith
    moreover have "int (n div b) * int b + int (n mod b) = int n"
      by (simp flip: of_nat_mult of_nat_add)
    ultimately show ?thesis
      using 1 by (subst num_chars.simps) (simp add: digits_val_def digit_of_dig)
  qed
qed

lemma num_chars_digits: "2 \<le> b \<Longrightarrow> b \<le> 16 \<Longrightarrow> list_all (is_digit_in (int b)) (num_chars small b n)"
proof (induction small b n rule: num_chars.induct)
  case (1 small b n)
  show ?case
  proof (cases "n < b")
    case True
    then show ?thesis using 1(3) by (subst num_chars.simps) (simp add: is_digit_in_def digit_of_dig)
  next
    case False
    moreover have "n mod b < b" using 1(2) by simp
    then have "is_digit_in (int b) (dig small (n mod b))" using 1(3) by (simp add: is_digit_in_def digit_of_dig)
    ultimately show ?thesis
      using 1 by (subst num_chars.simps) simp
  qed
qed

lemma num_chars_not_Nil [simp]: "num_chars small b n \<noteq> []"
  by (subst num_chars.simps) simp

lemma decimal_digit:
  assumes "is_digit_in 10 c"
  shows "is_digit c" and "digit_of c = Some (int (unat c) - 48)" and "48 \<le> int (unat c)" and "int (unat c) < 58"
  using assms by (auto simp: is_digit_in_def digit_of_def is_digit_def word_le_def split: if_splits)

lemma get_atoi_digits:
  assumes e: "\<not> is_digit e"
  shows "fetch m p (length ds + 1) = Some (ds @ [e]) \<Longrightarrow> list_all (is_digit_in 10) ds \<Longrightarrow> 0 \<le> acc \<Longrightarrow>
    foldl (\<lambda>acc c. acc * 10 + the (digit_of c)) acc ds < 2 ^ 30 \<Longrightarrow>
    get_atoi m p acc = Some (foldl (\<lambda>acc c. acc * 10 + the (digit_of c)) acc ds, p + of_nat (length ds))"
proof (induction ds arbitrary: p acc)
  case Nil
  then have "m p = Some e" by (auto split: Option.bind_splits)
  then show ?case using e by (subst get_atoi.simps) simp
next
  case (Cons c ds)
  have c: "is_digit c" "digit_of c = Some (int (unat c) - 48)" "48 \<le> int (unat c)" "int (unat c) < 58"
    using decimal_digit [of c] Cons.prems(2) by simp_all
  then have "acc * 10 + (int (unat c) - 48) < 2 ^ 30"
    using digits_fold_mono [of 10 ds "acc * 10 + (int (unat c) - 48)"] Cons.prems by simp
  then have ok: "long_ok (acc * 10)" "long_ok (acc * 10 + int (unat c))"
    using c Cons.prems(3) by (auto simp: long_ok_def)
  have "m p = Some c" "fetch m (p + 1) (length ds + 1) = Some (ds @ [e])"
    using Cons.prems(1) by (auto split: Option.bind_splits)
  then show ?case
    using Cons.IH [of "p + 1" "acc * 10 + int (unat c) - 48"] Cons.prems c ok
    by (subst get_atoi.simps) (simp add: add.assoc algebra_simps)
qed

lemma get_atoi_num_chars:
  assumes "fetch m p (length (num_chars False 10 w) + 1) = Some (num_chars False 10 w @ [e])"
    and "\<not> is_digit e" and "w < 2 ^ 30"
  shows "get_atoi m p 0 = Some (int w, p + of_nat (length (num_chars False 10 w)))"
  using get_atoi_digits [OF assms(2,1), of 0] num_chars_digits [of 10 False w] digits_val_num_chars [of 10 False w]
    assms(3) by (simp add: digits_val_def)

end
