(* ===== verification/KFormatRun.thy ===== *)
theory KFormatRun
  imports KFormatSpec
begin

text \<open>
  Format strings as lists of items, the text they stand for and the argument words they take; the
  state machine of \<open>vsnprintf\<close> run over the encoding of an item.
\<close>

unbundle bit_operations_syntax

section \<open>Formats as lists of items\<close>

datatype width = Wd nat | Star int
datatype len = Plain | Short | Long | LongLong

record spec =
  sp_flags :: "u8 list"
  sp_width :: width
  sp_prec :: "nat option"

text \<open>A character copied, a number under the conversion character \<open>c\<close>, a pointer, a character, a
  string at an address, and a percent sign.\<close>

datatype item =
    Lit u8
  | Num spec len u8 int
  | Pnt spec u32
  | Chr spec u8
  | Str spec ptr "u8 list"
  | Pct spec

fun width_text :: "width \<Rightarrow> u8 list" where
  "width_text (Wd w) = (if w = 0 then [] else num_chars False 10 w)"
| "width_text (Star _) = [42]"

fun width_args :: "width \<Rightarrow> u32 list" where
  "width_args (Wd _) = []"
| "width_args (Star i) = [of_int i]"

fun width_val :: "width \<Rightarrow> nat" where
  "width_val (Wd w) = w"
| "width_val (Star i) = nat \<bar>i\<bar>"

fun width_ok :: "width \<Rightarrow> bool" where
  "width_ok (Wd w) \<longleftrightarrow> w < 2 ^ 30"
| "width_ok (Star i) \<longleftrightarrow> \<bar>i\<bar> < 2 ^ 31"

fun prec_text :: "nat option \<Rightarrow> u8 list" where
  "prec_text None = []"
| "prec_text (Some k) = 46 # num_chars False 10 k"

fun len_text :: "len \<Rightarrow> u8 list" where
  "len_text Plain = []"
| "len_text Short = [104]"
| "len_text Long = [108]"
| "len_text LongLong = [108, 108]"

fun len_flag :: "len \<Rightarrow> u32" where
  "len_flag Plain = 0"
| "len_flag Short = L_CHAR"
| "len_flag Long = L_LONG"
| "len_flag LongLong = L_LLONG"

definition spec_text :: "spec \<Rightarrow> u8 list" where
  "spec_text sp = sp_flags sp @ width_text (sp_width sp) @ prec_text (sp_prec sp)"

definition flag_word :: "u8 list \<Rightarrow> u32 \<Rightarrow> u32" where
  "flag_word fs f = fold (\<lambda>c f. f OR the (fmt_flag c)) fs f"

definition spec_flags :: "spec \<Rightarrow> u32" where
  "spec_flags sp = flag_word (sp_flags sp) 0 OR (case sp_width sp of Star i \<Rightarrow> if i < 0 then F_LEFT else 0 | _ \<Rightarrow> 0)"

definition spec_ok :: "spec \<Rightarrow> bool" where
  "spec_ok sp \<longleftrightarrow> (\<forall>c \<in> set (sp_flags sp). fmt_flag c \<noteq> None) \<and> width_ok (sp_width sp) \<and>
     (\<forall>k. sp_prec sp = Some k \<longrightarrow> k < 2 ^ 30)"

section \<open>Reading the format\<close>

fun reads :: "mem \<Rightarrow> ptr \<Rightarrow> u8 list \<Rightarrow> bool" where
  "reads m p [] = True"
| "reads m p (c # cs) = (m p = Some c \<and> reads m (p + 1) cs)"

lemma reads_append [simp]:
  "reads m p (xs @ ys) \<longleftrightarrow> reads m p xs \<and> reads m (p + of_nat (length xs)) ys"
  by (induction xs arbitrary: p) (auto simp: add.assoc)

lemma reads_fetch: "reads m p cs \<longleftrightarrow> fetch m p (length cs) = Some cs"
  by (induction cs arbitrary: p) (auto split: Option.bind_splits)

section \<open>Steps\<close>

abbreviation fst_at :: "out \<Rightarrow> ptr \<Rightarrow> fmt_state \<Rightarrow> u32 \<Rightarrow> int \<Rightarrow> int \<Rightarrow> u32 \<Rightarrow> u32 list \<Rightarrow> fmtst" where
  "fst_at out p st fl w pr lf ws \<equiv> \<lparr>f_out = out, f_fmt = p, f_state = st, f_flags' = fl, f_width = w,
     f_prec = pr, f_lflags = lf, f_args = ws\<rparr>"

lemma vsn_next:
  "fmt_step buf sz ns s = Some (c, s') \<Longrightarrow> c \<noteq> 0 \<Longrightarrow> vsn_loop buf sz ns s = vsn_loop buf sz ns s'"
  by (subst vsn_loop.simps) simp

lemma fmt_flag_0 [simp]: "fmt_flag 0 = None"
  by (simp add: fmt_flag_def)

lemma flags_run:
  "reads (fst out) p fs \<Longrightarrow> \<forall>c \<in> set fs. fmt_flag c \<noteq> None \<Longrightarrow>
   vsn_loop buf sz ns (fst_at out p S_FLAGS fl w pr lf ws) =
   vsn_loop buf sz ns (fst_at out (p + of_nat (length fs)) S_FLAGS (flag_word fs fl) w pr lf ws)"
proof (induction fs arbitrary: p fl)
  case Nil
  then show ?case by (simp add: flag_word_def)
next
  case (Cons c fs)
  then obtain f where f: "fmt_flag c = Some f" by auto
  then have c: "c \<noteq> 0" by auto
  have "fmt_step buf sz ns (fst_at out p S_FLAGS fl w pr lf ws) =
      Some (c, fst_at out (p + 1) S_FLAGS (fl OR f) w pr lf ws)"
    using Cons.prems f by (simp add: fmt_step_def Let_def)
  from vsn_next [OF this c] show ?case
    using Cons.IH [of "p + 1" "fl OR f"] Cons.prems f by (simp add: flag_word_def add.assoc)
qed

lemma flags_end:
  "fst out p = Some c \<Longrightarrow> c \<noteq> 0 \<Longrightarrow> fmt_flag c = None \<Longrightarrow>
   vsn_loop buf sz ns (fst_at out p S_FLAGS fl w pr lf ws) = vsn_loop buf sz ns (fst_at out p S_WIDTH fl 0 pr lf ws)"
  by (rule vsn_next) (simp_all add: fmt_step_def Let_def)

lemma width_end:
  "fst out p = Some c \<Longrightarrow> c \<noteq> 0 \<Longrightarrow> c \<noteq> 42 \<Longrightarrow> \<not> is_digit c \<Longrightarrow>
   vsn_loop buf sz ns (fst_at out p S_WIDTH fl w pr lf ws) =
   vsn_loop buf sz ns (fst_at out p S_PRECIS fl w (-1) lf ws)"
  by (rule vsn_next) (simp_all add: fmt_step_def Let_def)

lemma num_chars_hd: "2 \<le> b \<Longrightarrow> b \<le> 10 \<Longrightarrow> n \<noteq> 0 \<Longrightarrow> is_digit (hd (num_chars small b n)) \<and> 48 < hd (num_chars small b n)"
proof (induction small b n rule: num_chars.induct)
  case (1 small b n)
  show ?case
  proof (cases "n < b")
    case True
    then have "unat (dig small n) = 48 + n" using 1(3) by (simp add: unat_dig)
    then show ?thesis using True 1(3,4)
      by (subst (1 2) num_chars.simps) (simp add: is_digit_def word_le_nat_alt word_less_nat_alt)
  next
    case False
    then have "n div b \<noteq> 0" using 1(2) by (simp add: div_eq_0_iff)
    then show ?thesis using 1 False by (subst (1 2) num_chars.simps) simp
  qed
qed

lemma width_run:
  assumes "reads (fst out) p (width_text wd @ [e])" and "width_ok wd" and "e \<noteq> 0" "e \<noteq> 42" "\<not> is_digit e"
  shows "vsn_loop buf sz ns (fst_at out p S_WIDTH fl 0 pr lf (width_args wd @ ws)) =
    vsn_loop buf sz ns (fst_at out (p + of_nat (length (width_text wd))) S_PRECIS
      (fl OR (case wd of Star i \<Rightarrow> if i < 0 then F_LEFT else 0 | _ \<Rightarrow> 0)) (int (width_val wd)) (-1) lf ws)"
proof (cases wd)
  case (Wd w)
  show ?thesis
  proof (cases "w = 0")
    case True
    then show ?thesis using assms Wd by (simp add: width_end)
  next
    case False
    let ?ds = "num_chars False 10 w"
    have hd: "is_digit (hd ?ds)" "48 < hd ?ds" "hd ?ds \<noteq> 42" "hd ?ds \<noteq> 0"
      using num_chars_hd [of 10 w False] False by (auto simp: is_digit_def)
    have rd: "reads (fst out) p (?ds @ [e])" using assms(1) Wd False by simp
    then have "fst out p = Some (hd ?ds)" by (cases ?ds) auto
    moreover have "get_atoi (fst out) p 0 = Some (int w, p + of_nat (length ?ds))"
      using get_atoi_num_chars [of "fst out" p w e] rd assms Wd by (simp add: reads_fetch del: reads_append)
    ultimately have "fmt_step buf sz ns (fst_at out p S_WIDTH fl 0 pr lf ws) =
        Some (hd ?ds, fst_at out (p + of_nat (length ?ds)) S_WIDTH fl (int w) pr lf ws)"
      using hd by (simp add: fmt_step_def Let_def)
    from vsn_next [OF this hd(4)] show ?thesis
      using assms Wd False by (simp add: width_end)
  qed
next
  case (Star i)
  have s: "sint (of_int i :: u32) = i" using assms(2) Star by (intro sint_of_int32) (auto simp: long_ok_def)
  have "fmt_step buf sz ns (fst_at out p S_WIDTH fl 0 pr lf (of_int i # ws)) =
      Some (42, fst_at out (p + 1) S_WIDTH (fl OR (if i < 0 then F_LEFT else 0)) \<bar>i\<bar> pr lf ws)"
    using assms(1,2) Star s by (simp add: fmt_step_def Let_def long_ok_def)
  from vsn_next [OF this] show ?thesis
    using assms Star by (simp add: width_end)
qed

lemma prec_run:
  assumes "reads (fst out) p (prec_text po @ [e])" and "\<forall>k. po = Some k \<longrightarrow> k < 2 ^ 30"
    and "e \<noteq> 0" "e \<noteq> 46" "\<not> is_digit e"
  shows "\<exists>pr'. vsn_loop buf sz ns (fst_at out p S_PRECIS fl w pr lf ws) =
    vsn_loop buf sz ns (fst_at out (p + of_nat (length (prec_text po))) S_LENGTH fl w pr' 0 ws)"
proof (cases po)
  case None
  have "vsn_loop buf sz ns (fst_at out p S_PRECIS fl w pr lf ws) =
      vsn_loop buf sz ns (fst_at out p S_LENGTH fl w pr 0 ws)"
    by (rule vsn_next) (use assms None in \<open>simp_all add: fmt_step_def Let_def\<close>)
  then show ?thesis using None by auto
next
  case (Some k)
  let ?ds = "num_chars False 10 k"
  have rd: "fst out p = Some 46" "reads (fst out) (p + 1) (?ds @ [e])" using assms(1) Some by (simp_all add: add.assoc)
  have "list_all (is_digit_in 10) ?ds" using num_chars_digits [of 10 False k] by simp
  then have "is_digit_in 10 (hd ?ds)" by (cases ?ds) (auto dest: arg_cong [of _ _ "\<lambda>x. x = []"])
  then have hd: "is_digit (hd ?ds)" by (rule decimal_digit)
  have "fst out (p + 1) = Some (hd ?ds)" using rd(2) by (cases ?ds) (auto dest: arg_cong [of _ _ "\<lambda>x. x = []"])
  moreover have "get_atoi (fst out) (p + 1) 0 = Some (int k, p + 1 + of_nat (length ?ds))"
    using get_atoi_num_chars [of "fst out" "p + 1" k e] rd assms Some by (simp add: reads_fetch del: reads_append)
  ultimately have "fmt_step buf sz ns (fst_at out p S_PRECIS fl w pr lf ws) =
      Some (46, fst_at out (p + 1 + of_nat (length ?ds)) S_LENGTH fl w (int k) 0 ws)"
    using hd rd(1) by (simp add: fmt_step_def Let_def)
  from vsn_next [OF this] show ?thesis using Some by (auto simp: add.assoc)
qed

lemma len_run:
  assumes "reads (fst out) p (len_text l @ [c])" and "c \<notin> {0, 104, 108, 76}"
  shows "vsn_loop buf sz ns (fst_at out p S_LENGTH fl w pr 0 ws) =
    vsn_loop buf sz ns (fst_at out (p + of_nat (length (len_text l))) S_CONV fl w pr (len_flag l) ws)"
proof -
  have stop: "vsn_loop buf sz ns (fst_at out q S_LENGTH fl w pr lf ws) = vsn_loop buf sz ns (fst_at out q S_CONV fl w pr lf ws)"
    if "fst out q = Some c" for q lf
    by (rule vsn_next) (use that assms(2) in \<open>auto simp: fmt_step_def Let_def\<close>)
  have l: "vsn_loop buf sz ns (fst_at out q S_LENGTH fl w pr lf ws) =
      vsn_loop buf sz ns (fst_at out (q + 1) S_LENGTH fl w pr (if lf = L_LONG then L_LLONG else L_LONG) ws)"
    if "fst out q = Some 108" for q lf
    by (rule vsn_next [of _ _ _ _ 108]) (use that in \<open>simp_all add: fmt_step_def Let_def\<close>)
  have h: "vsn_loop buf sz ns (fst_at out q S_LENGTH fl w pr 0 ws) =
      vsn_loop buf sz ns (fst_at out (q + 1) S_LENGTH fl w pr L_CHAR ws)"
    if "fst out q = Some 104" for q
    by (rule vsn_next [of _ _ _ _ 104]) (use that in \<open>simp_all add: fmt_step_def Let_def L_CHAR_def\<close>)
  have "L_LONG \<noteq> 0" by (simp add: L_LONG_def)
  then show ?thesis
    using assms(1) by (cases l) (auto simp: stop l h add.assoc)
qed

text \<open>From the percent sign to the conversion.\<close>

definition conv_char :: "u8 \<Rightarrow> bool" where
  "conv_char c \<longleftrightarrow> c \<in> {100, 105, 111, 98, 117, 120, 88, 112, 115, 99, 37}"

lemma spec_run:
  assumes rd: "reads (fst out) p (37 # spec_text sp @ len_text l @ [c])" and ok: "spec_ok sp" and c: "conv_char c"
  shows "\<exists>pr'. vsn_loop buf sz ns (fst_at out p S_DEFAULT fl w pr lf (width_args (sp_width sp) @ ws)) =
    vsn_loop buf sz ns (fst_at out (p + of_nat (length (37 # spec_text sp @ len_text l))) S_CONV
      (spec_flags sp) (int (width_val (sp_width sp))) pr' (len_flag l) ws)"
proof -
  let ?fs = "sp_flags sp" and ?wt = "width_text (sp_width sp)" and ?pt = "prec_text (sp_prec sp)"
  let ?lt = "len_text l"
  let ?V = "vsn_loop buf sz ns"
  define p1 where "p1 = p + 1 + of_nat (length ?fs)"
  define p2 where "p2 = p1 + of_nat (length ?wt)"
  define p3 where "p3 = p2 + of_nat (length ?pt)"
  have rs: "fst out p = Some 37" "reads (fst out) (p + 1) ?fs" "reads (fst out) p1 ?wt"
    "reads (fst out) p2 ?pt" "reads (fst out) p3 (?lt @ [c])"
    using rd by (simp_all add: spec_text_def p1_def p2_def p3_def add.assoc)
  have c': "c \<notin> {0, 104, 108, 76, 46, 42}" "fmt_flag c = None" "\<not> is_digit c" if "c = c"
    using c by (auto simp: conv_char_def fmt_flag_def is_digit_def)
  define e3 where "e3 = hd (?lt @ [c])"
  define e2 where "e2 = hd (?pt @ ?lt @ [c])"
  define e1 where "e1 = hd (?wt @ ?pt @ ?lt @ [c])"
  have e3: "e3 \<noteq> 0" "e3 \<noteq> 46" "e3 \<noteq> 42" "\<not> is_digit e3" "fmt_flag e3 = None" "reads (fst out) p3 [e3]"
    using c' rs(5) by (cases l; auto simp: e3_def is_digit_def fmt_flag_def)+
  have e2: "e2 \<noteq> 0" "e2 \<noteq> 42" "\<not> is_digit e2" "fmt_flag e2 = None" "reads (fst out) p2 [e2]"
    using e3 rs(4) by (cases "sp_prec sp"; auto simp: e2_def e3_def is_digit_def fmt_flag_def p3_def)+
  have e1: "e1 \<noteq> 0 \<and> fmt_flag e1 = None \<and> fst out p1 = Some e1"
  proof (cases "?wt = []")
    case True
    then show ?thesis using e2 by (simp add: e1_def e2_def p2_def)
  next
    case False
    then have h: "e1 = hd ?wt" "fst out p1 = Some (hd ?wt)"
      using rs(3) by (cases ?wt; simp add: e1_def)+
    have "hd ?wt = 42 \<or> is_digit (hd ?wt) \<and> 48 < hd ?wt"
      using False num_chars_hd [of 10 "width_val (sp_width sp)" False] by (cases "sp_width sp") auto
    then show ?thesis using h by (auto simp: fmt_flag_def is_digit_def)
  qed
  have s1: "?V (fst_at out p S_DEFAULT fl w pr lf (width_args (sp_width sp) @ ws)) =
      ?V (fst_at out (p + 1) S_FLAGS 0 w pr lf (width_args (sp_width sp) @ ws))"
    by (rule vsn_next [of _ _ _ _ 37]) (use rs(1) in \<open>simp_all add: fmt_step_def Let_def\<close>)
  also have "\<dots> = ?V (fst_at out p1 S_FLAGS (flag_word ?fs 0) w pr lf (width_args (sp_width sp) @ ws))"
    using flags_run [OF rs(2)] ok by (simp add: spec_ok_def p1_def)
  also have "\<dots> = ?V (fst_at out p1 S_WIDTH (flag_word ?fs 0) 0 pr lf (width_args (sp_width sp) @ ws))"
    using e1 by (simp add: flags_end)
  also have "\<dots> = ?V (fst_at out p2 S_PRECIS (spec_flags sp) (int (width_val (sp_width sp))) (-1) lf ws)"
    unfolding p2_def spec_flags_def
    by (rule width_run [where e = e2]) (use rs(3) e2 ok in \<open>simp_all add: spec_ok_def p2_def\<close>)
  finally have s3: "?V (fst_at out p S_DEFAULT fl w pr lf (width_args (sp_width sp) @ ws)) =
      ?V (fst_at out p2 S_PRECIS (spec_flags sp) (int (width_val (sp_width sp))) (-1) lf ws)" .
  obtain pr' where "?V (fst_at out p2 S_PRECIS (spec_flags sp) (int (width_val (sp_width sp))) (-1) lf ws) =
      ?V (fst_at out p3 S_LENGTH (spec_flags sp) (int (width_val (sp_width sp))) pr' 0 ws)"
    using prec_run [of out p2 "sp_prec sp" e3] rs(4) e3 ok unfolding p3_def [symmetric]
    by (fastforce simp: spec_ok_def p3_def)
  with s3 len_run [OF rs(5)] c' show ?thesis
    by (auto simp: p1_def p2_def p3_def spec_text_def add.assoc)
qed

section \<open>Items\<close>

fun num_args :: "len \<Rightarrow> int \<Rightarrow> u32 list" where
  "num_args LongLong v = [of_int v, of_int (v div 2 ^ 32)]"
| "num_args _ v = [of_int v]"

definition num_ok :: "u8 \<Rightarrow> len \<Rightarrow> int \<Rightarrow> bool" where
  "num_ok c l v \<longleftrightarrow> c \<in> {100, 105, 111, 98, 117, 120, 88} \<and> l \<noteq> Short \<and>
     (let w = (if l = LongLong then 63 else 31)
      in if c \<in> {100, 105} then - (2 ^ w) \<le> v \<and> v < 2 ^ w \<and> v \<noteq> - (2 ^ 63) else 0 \<le> v \<and> v < 2 * 2 ^ w)"

definition conv_flags :: "u8 \<Rightarrow> u32 \<Rightarrow> u32" where
  "conv_flags c f = (if c \<in> {100, 105} then f OR F_SIGNED else if c = 120 then f OR F_SMALL else f)"

fun encode :: "item \<Rightarrow> u8 list" where
  "encode (Lit c) = [c]"
| "encode (Num sp l c v) = 37 # spec_text sp @ len_text l @ [c]"
| "encode (Pnt sp v) = 37 # spec_text sp @ [112]"
| "encode (Chr sp c) = 37 # spec_text sp @ [99]"
| "encode (Str sp p xs) = 37 # spec_text sp @ [115]"
| "encode (Pct sp) = 37 # spec_text sp @ [37]"

fun item_args :: "item \<Rightarrow> u32 list" where
  "item_args (Lit c) = []"
| "item_args (Num sp l c v) = width_args (sp_width sp) @ num_args l v"
| "item_args (Pnt sp v) = width_args (sp_width sp) @ [v]"
| "item_args (Chr sp c) = width_args (sp_width sp) @ [ucast c]"
| "item_args (Str sp p xs) = width_args (sp_width sp) @ [p]"
| "item_args (Pct sp) = width_args (sp_width sp)"

definition in_field :: "spec \<Rightarrow> u8 list \<Rightarrow> u8 list" where
  "in_field sp xs = pad_field (width_val (sp_width sp)) (bit (spec_flags sp) 2) False [] xs"

fun item_text :: "item \<Rightarrow> u8 list" where
  "item_text (Lit c) = [c]"
| "item_text (Num sp l c v) = int_text (conv_flags c (spec_flags sp)) (fmt_base c) (width_val (sp_width sp)) v"
| "item_text (Pnt sp v) =
     int_text (spec_flags sp OR (F_SMALL OR F_ALTERNATE)) 16 (width_val (sp_width sp)) (sint v)"
| "item_text (Chr sp c) = in_field sp [c]"
| "item_text (Str sp p xs) = in_field sp xs"
| "item_text (Pct sp) = [37]"

fun item_ok :: "mem \<Rightarrow> ptr \<Rightarrow> u32 \<Rightarrow> ptr \<Rightarrow> item \<Rightarrow> bool" where
  "item_ok m buf sz ns (Lit c) \<longleftrightarrow> c \<noteq> 0 \<and> c \<noteq> 37"
| "item_ok m buf sz ns (Num sp l c v) \<longleftrightarrow> spec_ok sp \<and> num_ok c l v"
| "item_ok m buf sz ns (Pnt sp v) \<longleftrightarrow> spec_ok sp"
| "item_ok m buf sz ns (Chr sp c) \<longleftrightarrow> spec_ok sp \<and> c \<noteq> 0"
| "item_ok m buf sz ns (Str sp p xs) \<longleftrightarrow> spec_ok sp \<and>
     cstr m (if p = NULL then ns else p) xs \<and> apart buf (unat sz) (if p = NULL then ns else p) (Suc (length xs))"
| "item_ok m buf sz ns (Pct sp) \<longleftrightarrow> spec_ok sp"

lemma int_text_cong:
  "\<not> bit f 5 \<Longrightarrow> (of_int a :: u32) = of_int b \<Longrightarrow> int_text f base w a = int_text f base w b"
  by (simp add: int_text_def)

lemma flag_bit_5: "fmt_flag c = Some f \<Longrightarrow> \<not> bit f 5"
  by (auto simp: fmt_flag_def F_ALTERNATE_def F_ZEROPAD_def F_LEFT_def F_SPACE_def F_PLUS_def split: if_splits)

lemma spec_unsigned: "spec_ok sp \<Longrightarrow> \<not> bit (spec_flags sp) 5"
proof -
  have "\<not> bit (flag_word fs f) 5" if "\<forall>c \<in> set fs. fmt_flag c \<noteq> None" "\<not> bit f 5" for fs f
    using that by (induction fs arbitrary: f) (auto simp: flag_word_def bit_or_iff flag_bit_5)
  then show "spec_ok sp \<Longrightarrow> \<not> bit (spec_flags sp) 5"
    by (auto simp: spec_ok_def spec_flags_def bit_or_iff F_LEFT_def split: width.splits)
qed

lemma word_cat_of_int: "word_cat (of_int (v div 2 ^ 32) :: u32) (of_int v :: u32) = (of_int v :: u64)"
proof (rule bit_word_eqI)
  have d: "v div 2 ^ 32 = drop_bit 32 v" by (simp only: drop_bit_eq_div)
  fix n :: nat
  assume n: "n < LENGTH(64)"
  then show "bit (word_cat (of_int (v div 2 ^ 32) :: u32) (of_int v :: u32) :: u64) n \<longleftrightarrow> bit (of_int v :: u64) n"
    unfolding d by (auto simp: bit_word_cat_iff bit_simps)
qed

text \<open>The number \<open>vsnprintf\<close> takes for a directive: the one passed, or, where the sign is not
  printed, one with the same low word.\<close>

lemma fmt_num_taken:
  assumes "num_ok c l v"
  obtains v' where "fmt_num c (len_flag l) (num_args l v @ ws) = Some (v', ws)"
    and "(of_int v' :: u32) = of_int v" and "c \<in> {100, 105} \<Longrightarrow> v' = v \<and> v \<noteq> - (2 ^ 63)"
proof -
  have flags: "L_LLONG \<noteq> L_LONG" "0 \<noteq> L_LONG" "L_LLONG AND (L_LLONG OR L_DOUBLE) \<noteq> 0"
    by (simp_all add: L_LLONG_def L_LONG_def L_DOUBLE_def)
  show thesis
  proof (cases l)
    case Plain
    then show thesis
      using that [of "if c \<in> {100, 105} then sint (of_int v :: u32) else uint (of_int v :: u32)"] assms flags
      by (auto simp: fmt_num_def num_ok_def sint_of_int32 long_ok_def)
  next
    case Long
    then show thesis
      using that [of "sint (of_int v :: u32)"] assms flags
      by (auto simp: fmt_num_def num_ok_def sint_of_int32 long_ok_def)
  next
    case LongLong
    have "(of_int (sint (of_int v :: u64)) :: u32) = of_int v"
      by (rule bit_word_eqI) (auto simp: bit_simps)
    moreover have "va_llong (num_args LongLong v @ ws) = Some (sint (of_int v :: u64), ws)"
      using word_cat_of_int [of v] by (simp add: va_llong_def)
    ultimately show thesis
      using that [of "sint (of_int v :: u64)"] assms flags LongLong
      by (auto simp: fmt_num_def num_ok_def sint_sbintrunc' signed_take_bit_int_eq_self)
  qed (use assms in \<open>simp add: num_ok_def\<close>)
qed

lemma conv_bit_5: "\<not> bit f 5 \<Longrightarrow> bit (conv_flags c f) 5 \<longleftrightarrow> c \<in> {100, 105}"
  by (auto simp: conv_flags_def bit_or_iff F_SIGNED_def F_SMALL_def)

lemma conv_num:
  assumes map: "mapped m buf (unat sz)" and n: "num_ok c l v" and f: "\<not> bit f 5"
    and len: "length T + length (int_text (conv_flags c f) (fmt_base c) w v) < 2 ^ 32"
  shows "fmt_conv buf sz ns c (fst_at (wrote m buf sz T) q S_CONV f (int w) pr (len_flag l) (num_args l v @ ws)) =
    Some (c, fst_at (wrote m buf sz (T @ int_text (conv_flags c f) (fmt_base c) w v)) q S_CONV (conv_flags c f)
      (int w) pr (len_flag l) ws)"
proof -
  obtain v' where v': "fmt_num c (len_flag l) (num_args l v @ ws) = Some (v', ws)"
    "(of_int v' :: u32) = of_int v" "c \<in> {100, 105} \<Longrightarrow> v' = v \<and> v \<noteq> - (2 ^ 63)"
    using fmt_num_taken [OF n] by blast
  have c: "c \<in> {100, 105, 111, 98, 117, 120, 88}" using n by (simp add: num_ok_def)
  have base: "2 \<le> fmt_base c" "fmt_base c \<le> 16" by (simp_all add: fmt_base_def)
  have s5: "bit (conv_flags c f) 5 \<longleftrightarrow> c \<in> {100, 105}" by (rule conv_bit_5 [OF f])
  have tx: "int_text (conv_flags c f) (fmt_base c) w v' = int_text (conv_flags c f) (fmt_base c) w v"
    using v'(2,3) s5 int_text_cong [of "conv_flags c f" v' v] by (cases "c \<in> {100, 105}") auto
  have e: "fmt_int buf sz v' (fmt_base c) (int w) (conv_flags c f) (wrote m buf sz T) =
      Some (wrote m buf sz (T @ int_text (conv_flags c f) (fmt_base c) w v))"
    using fmt_int_wrote [OF map base, of "int w" "conv_flags c f" v' T] v'(3) s5 len tx by auto
  have fl: "(if c = 100 \<or> c = 105 then f OR F_SIGNED else if c = 120 then f OR F_SMALL else f) = conv_flags c f"
    by (simp add: conv_flags_def)
  show ?thesis
    by (simp only: fmt_conv_def Let_def c if_True fmtst.select_convs v'(1) bind.bind_lunit prod.case fl e) simp
qed

lemma conv_pnt:
  assumes map: "mapped m buf (unat sz)"
    and len: "length T + length (int_text (f OR (F_SMALL OR F_ALTERNATE)) 16 w (sint v)) < 2 ^ 32"
  shows "fmt_conv buf sz ns 112 (fst_at (wrote m buf sz T) q S_CONV f (int w) pr lf (v # ws)) =
    Some (112, fst_at (wrote m buf sz (T @ int_text (f OR (F_SMALL OR F_ALTERNATE)) 16 w (sint v))) q S_CONV
      (f OR (F_SMALL OR F_ALTERNATE)) (int w) pr lf ws)"
proof -
  have "sint v \<noteq> - (2 ^ 63)" using sint_greater_eq [of v] by simp
  then show ?thesis
    using fmt_int_wrote [OF map, of 16 "int w" "f OR (F_SMALL OR F_ALTERNATE)" "sint v" T] len
    by (simp add: fmt_conv_def Let_def)
qed

lemma conv_step:
  assumes "fst out p = Some c" and "c' \<noteq> 0"
    and "fmt_conv buf sz ns c (fst_at out (p + 1) S_CONV fl w pr lf ws) = Some (c', fst_at out' (p + 1) S_CONV fl' w pr lf ws')"
  shows "vsn_loop buf sz ns (fst_at out p S_CONV fl w pr lf ws) = vsn_loop buf sz ns (fst_at out' (p + 1) S_DEFAULT fl' w pr lf ws')"
  by (rule vsn_next [OF _ assms(2)]) (use assms(1,3) in \<open>simp add: fmt_step_def Let_def\<close>)

lemma spec_conv:
  assumes rd: "reads (fst out) p (37 # spec_text sp @ len_text l @ [c])" and ok: "spec_ok sp" and c: "conv_char c"
    and conv: "\<And>q pr. fmt_conv buf sz ns c (fst_at out q S_CONV (spec_flags sp) (int (width_val (sp_width sp))) pr (len_flag l) ws)
      = Some (c', fst_at out' q S_CONV fl' (int (width_val (sp_width sp))) pr (len_flag l) ws')" and c': "c' \<noteq> 0"
  shows "\<exists>fl' w' pr' lf'. vsn_loop buf sz ns (fst_at out p S_DEFAULT fl w pr lf (width_args (sp_width sp) @ ws)) =
    vsn_loop buf sz ns (fst_at out' (p + of_nat (length (37 # spec_text sp @ len_text l @ [c]))) S_DEFAULT fl' w' pr' lf' ws')"
proof -
  let ?q = "p + of_nat (length (37 # spec_text sp @ len_text l))"
  obtain pr' where "vsn_loop buf sz ns (fst_at out p S_DEFAULT fl w pr lf (width_args (sp_width sp) @ ws)) =
      vsn_loop buf sz ns (fst_at out ?q S_CONV (spec_flags sp) (int (width_val (sp_width sp))) pr' (len_flag l) ws)"
    using spec_run [OF rd ok c] by blast
  moreover have "fst out ?q = Some c" using rd by (simp add: add.assoc)
  moreover have "?q + 1 = p + of_nat (length (37 # spec_text sp @ len_text l @ [c]))" by (simp add: algebra_simps)
  ultimately show ?thesis
    using conv_step [OF _ c' conv, of ?q pr'] by metis
qed

section \<open>Runs\<close>

lemma item_run:
  assumes map: "mapped m buf (unat sz)" and ok: "item_ok m buf sz ns i"
    and len: "length T + length (item_text i) < 2 ^ 31" and rd: "reads (fst (wrote m buf sz T)) p (encode i)"
  shows "\<exists>fl' w' pr' lf'. vsn_loop buf sz ns (fst_at (wrote m buf sz T) p S_DEFAULT fl w pr lf (item_args i @ ws)) =
    vsn_loop buf sz ns (fst_at (wrote m buf sz (T @ item_text i)) (p + of_nat (length (encode i))) S_DEFAULT fl' w' pr' lf' ws)"
proof (cases i)
  case (Lit c)
  have "vsn_loop buf sz ns (fst_at (wrote m buf sz T) p S_DEFAULT fl w pr lf ws) =
      vsn_loop buf sz ns (fst_at (wrote m buf sz (T @ [c])) (p + 1) S_DEFAULT fl w pr lf ws)"
    by (rule vsn_next [of _ _ _ _ c])
      (use Lit ok rd len bputc_wrote [OF map, of T c] in \<open>simp_all add: fmt_step_def Let_def\<close>)
  then show ?thesis using Lit by auto
next
  case (Num sp l c v)
  then show ?thesis
    using spec_conv [where p = p and fl = fl and w = w and pr = pr and lf = lf,
        OF _ _ _ conv_num [OF map, of c l v "spec_flags sp" T "width_val (sp_width sp)" ns _ _ ws]] ok len rd spec_unsigned
    by (auto simp: num_ok_def conv_char_def simp del: reads_append)
next
  case (Pnt sp v)
  then show ?thesis
    using spec_conv [where p = p and fl = fl and w = w and pr = pr and lf = lf and l = Plain,
        OF _ _ _ conv_pnt [OF map, of T "spec_flags sp" "width_val (sp_width sp)" v ns _ _ _ ws]] ok len rd
    by (auto simp: conv_char_def simp del: reads_append)
next
  case (Chr sp c)
  have u: "(ucast (ucast c :: u32) :: u8) = c" by (rule bit_word_eqI) (auto simp: bit_simps)
  have "fmt_conv buf sz ns 99 (fst_at (wrote m buf sz T) q S_CONV (spec_flags sp) (int (width_val (sp_width sp))) pr
      (len_flag Plain) (ucast c # ws)) = Some (c, fst_at (wrote m buf sz (T @ in_field sp [c])) q S_CONV (spec_flags sp)
      (int (width_val (sp_width sp))) pr (len_flag Plain) ws)" for q pr
    using fmt_chr_wrote [OF map, of "int (width_val (sp_width sp))" T "spec_flags sp" c] len Chr
    by (simp add: fmt_conv_def Let_def in_field_def u)
  from spec_conv [OF _ _ _ this, where p = p and fl = fl and w = w and pr = pr and lf = lf] show ?thesis
    using Chr ok rd by (auto simp: conv_char_def simp del: reads_append)
next
  case (Str sp a xs)
  let ?s = "if a = NULL then ns else a"
  have "fmt_conv buf sz ns 115 (fst_at (wrote m buf sz T) q S_CONV (spec_flags sp) (int (width_val (sp_width sp))) pr
      (len_flag Plain) (a # ws)) = Some (115, fst_at (wrote m buf sz (T @ in_field sp xs)) q S_CONV (spec_flags sp)
      (int (width_val (sp_width sp))) pr (len_flag Plain) ws)" for q pr
    using fmt_str_wrote [OF map, of "int (width_val (sp_width sp))" ?s xs T "spec_flags sp"] ok len Str
    by (simp add: fmt_conv_def Let_def in_field_def)
  from spec_conv [OF _ _ _ this, where p = p and fl = fl and w = w and pr = pr and lf = lf] show ?thesis
    using Str ok rd by (auto simp: conv_char_def simp del: reads_append)
next
  case (Pct sp)
  have "fmt_conv buf sz ns 37 (fst_at (wrote m buf sz T) q S_CONV (spec_flags sp) (int (width_val (sp_width sp))) pr
      (len_flag Plain) ws) = Some (37, fst_at (wrote m buf sz (T @ [37])) q S_CONV (spec_flags sp)
      (int (width_val (sp_width sp))) pr (len_flag Plain) ws)" for q pr
    using bputc_wrote [OF map, of T 37] len Pct by (simp add: fmt_conv_def Let_def)
  from spec_conv [OF _ _ _ this, where p = p and fl = fl and w = w and pr = pr and lf = lf] show ?thesis
    using Pct ok rd by (auto simp: conv_char_def simp del: reads_append)
qed

lemma items_run:
  assumes map: "mapped m buf (unat sz)"
  shows "\<forall>i \<in> set is. item_ok m buf sz ns i \<Longrightarrow> length T + length (concat (map item_text is)) < 2 ^ 31 \<Longrightarrow>
    reads m p (concat (map encode is)) \<Longrightarrow> apart buf (unat sz) p (length (concat (map encode is))) \<Longrightarrow>
    \<exists>fl' w' pr' lf'. vsn_loop buf sz ns (fst_at (wrote m buf sz T) p S_DEFAULT fl w pr lf (concat (map item_args is) @ ws)) =
    vsn_loop buf sz ns (fst_at (wrote m buf sz (T @ concat (map item_text is)))
      (p + of_nat (length (concat (map encode is)))) S_DEFAULT fl' w' pr' lf' ws)"
proof (induction "is" arbitrary: T p fl w pr lf)
  case Nil
  then show ?case by auto
next
  case (Cons i "is")
  let ?ws = "concat (map item_args is) @ ws" and ?p = "p + of_nat (length (encode i))"
  let ?n = "length (encode i)" and ?k = "length (concat (map encode is))"
  have ap: "apart buf (unat sz) p ?n" "apart buf (unat sz) ?p ?k"
    using apart_sub [OF Cons.prems(4), of 0 "unat sz" 0 ?n] apart_sub [OF Cons.prems(4), of 0 "unat sz" ?n ?k] by simp_all
  have rd: "reads (fst (wrote m buf sz T)) p (encode i)"
    using wrote_reads [OF ap(1), of m "encode i" T] Cons.prems(3) by (simp add: reads_fetch [of _ p "encode i"])
  have "length T + length (item_text i) < 2 ^ 31" and ok: "item_ok m buf sz ns i"
    using Cons.prems(1,2) by simp_all
  from item_run [OF map ok this(1) rd, of fl w pr lf ?ws] obtain fl1 w1 pr1 lf1 where
    "vsn_loop buf sz ns (fst_at (wrote m buf sz T) p S_DEFAULT fl w pr lf (item_args i @ ?ws)) =
     vsn_loop buf sz ns (fst_at (wrote m buf sz (T @ item_text i)) ?p S_DEFAULT fl1 w1 pr1 lf1 ?ws)" by blast
  with Cons.IH [of "T @ item_text i" ?p fl1 w1 pr1 lf1] Cons.prems ap(2) show ?case
    by (simp add: add.assoc)
qed

lemma end_run:
  assumes "mapped m buf (unat sz)" and "fst (wrote m buf sz T) p = Some 0" and "length T < 2 ^ 32"
  shows "vsn_loop buf sz ns (fst_at (wrote m buf sz T) p S_DEFAULT fl w pr lf ws) =
    Some (fst_at (wrote m buf sz (T @ [0])) (p + 1) S_DEFAULT fl w pr lf ws)"
  using assms by (subst vsn_loop.simps) (simp add: fmt_step_def Let_def bputc_wrote)

lemma put_update:
  assumes "j < length bs" and "length bs \<le> 2 ^ 32"
  shows "(put m p bs)(p + of_nat j \<mapsto> c) = put m p (bs[j := c])"
proof
  fix a
  have "a = p + of_nat j \<longleftrightarrow> unat (a - p) = j"
  proof
    assume "unat (a - p) = j"
    then have "of_nat (unat (a - p)) = (of_nat j :: u32)" by simp
    then show "a = p + of_nat j" by (simp add: algebra_simps)
  qed (use assms in \<open>simp add: unat_of_nat32\<close>)
  then show "((put m p bs)(p + of_nat j \<mapsto> c)) a = put m p (bs[j := c]) a"
    using assms(1) by (auto simp: put_def)
qed

text \<open>The bytes a call leaves in the buffer.\<close>

definition cut_text :: "u32 \<Rightarrow> u8 list \<Rightarrow> u8 list" where
  "cut_text sz T = (if sz = 0 then [] else take (unat sz - 1) T @ [0])"

lemma finish_wrote:
  assumes map: "mapped m buf (unat sz)" and len: "length T < 2 ^ 31"
  shows "(let n = (of_nat (length T) :: u32); M = fst (wrote m buf sz (T @ [0]))
     in if n < sz then st8 M (buf + n) 0 else if sz > 0 then st8 M (buf + (sz - 1)) 0 else Some M) =
    Some (put m buf (cut_text sz T))"
proof -
  let ?B = "take (unat sz) (T @ [0])"
  have store: "st8 (put m buf ?B) (buf + of_nat j) 0 = Some (put m buf (?B[j := 0]))"
    if "j < unat sz" "j < length ?B" for j
  proof -
    have "m (buf + of_nat j) \<noteq> None" using map that(1) by (simp add: mapped_iff)
    moreover have "length ?B \<le> 2 ^ 32" using len by simp
    ultimately show ?thesis using put_update [of j ?B m buf 0] that(2) put_mapped_at by (simp add: st8_def)
  qed
  have n: "(of_nat (length T) :: u32) < sz \<longleftrightarrow> length T < unat sz"
    using len by (simp add: word_less_nat_alt unat_of_nat32)
  show ?thesis
  proof (cases "length T < unat sz")
    case True
    then have e: "?B[length T := 0] = cut_text sz T" and lt: "length T < length ?B"
      by (auto simp: cut_text_def)
    have "st8 (put m buf ?B) (buf + of_nat (length T)) 0 = Some (put m buf (cut_text sz T))"
      by (simp only: store [OF True lt] e)
    then show ?thesis using True n by (simp only: wrote_def Let_def fst_conv if_True)
  next
    case False
    show ?thesis
    proof (cases "sz = 0")
      case True
      then show ?thesis using False by (simp add: wrote_def cut_text_def)
    next
      case pos: False
      then have u: "0 < unat sz" by (simp add: unat_gt_0)
      then have "(of_nat (unat sz - 1) :: u32) = sz - 1" by (simp add: of_nat_diff)
      moreover have "?B[unat sz - 1 := 0] = cut_text sz T"
        using False u pos by (auto simp: cut_text_def list_eq_iff_nth_eq nth_append nth_list_update)
      moreover have "0 < sz" using pos by (simp add: word_gt_0)
      ultimately show ?thesis
        using store [of "unat sz - 1"] False u n by (simp add: wrote_def Let_def)
    qed
  qed
qed

end
