(* ===== verification/KFormatProps.thy ===== *)
theory KFormatProps
  imports KFormatRun
begin

text \<open>
  The properties of formatted output: what a call writes, that a call whose arguments have the types of its
  directives does not fail, that a number printed is read back by \<open>strtol\<close>, and two defects.
\<close>

unbundle bit_operations_syntax

section \<open>A call up to the end of its items\<close>

definition fmt_init :: "mem \<Rightarrow> ptr \<Rightarrow> u32 list \<Rightarrow> fmtst" where
  "fmt_init m fmt ap = fst_at (m, 0) fmt S_DEFAULT 0 0 0 0 ap"

text \<open>Where a format may be: a run of bytes in memory that the buffer does not meet.\<close>

definition format_at :: "mem \<Rightarrow> ptr \<Rightarrow> u32 \<Rightarrow> ptr \<Rightarrow> u8 list \<Rightarrow> bool" where
  "format_at m buf sz fmt F \<longleftrightarrow>
     mapped m buf (unat sz) \<and> buf \<noteq> NULL \<and> cstr m fmt F \<and> apart buf (unat sz) fmt (Suc (length F))"

lemma format_reads:
  assumes "format_at m buf sz fmt F"
  shows "reads (fst (wrote m buf sz T)) fmt (F @ [0])"
  using assms wrote_reads [of buf sz fmt "Suc (length F)" m "F @ [0]" T]
  by (simp add: format_at_def reads_fetch cstr_iff_fetch del: reads_append)

lemma format_items:
  assumes fa: "format_at m buf sz fmt (concat (map encode is) @ G)" and ok: "\<forall>i \<in> set is. item_ok m buf sz ns i"
    and len: "length (concat (map item_text is)) < 2 ^ 31"
  obtains fl w pr lf where "vsn_loop buf sz ns (fmt_init m fmt (concat (map item_args is) @ ws)) =
    vsn_loop buf sz ns (fst_at (wrote m buf sz (concat (map item_text is)))
      (fmt + of_nat (length (concat (map encode is)))) S_DEFAULT fl w pr lf ws)"
proof -
  let ?E = "concat (map encode is)"
  have map: "mapped m buf (unat sz)" and c: "cstr m fmt (?E @ G)" and ap: "apart buf (unat sz) fmt (Suc (length (?E @ G)))"
    using fa by (simp_all add: format_at_def)
  have "reads m fmt ?E" using c by (simp add: cstr_append reads_fetch)
  moreover have "apart buf (unat sz) fmt (length ?E)" using apart_mono [OF ap, of "unat sz" "length ?E"] by simp
  moreover have "wrote m buf sz [] = (m, 0)" by (simp add: wrote_def)
  ultimately show thesis
    using items_run [OF map ok, of "[]" fmt 0 0 0 0 ws] len that by (auto simp: fmt_init_def)
qed

section \<open>What a call writes\<close>

definition fmt_text :: "item list \<Rightarrow> u8 list" where
  "fmt_text is = concat (map item_text is)"

lemma vsnprintf_items:
  assumes fa: "format_at m buf sz fmt (concat (map encode is))" and ok: "\<forall>i \<in> set is. item_ok m buf sz ns i"
    and len: "length (fmt_text is) < 2 ^ 31"
  shows "vsnprintf ns buf sz fmt (concat (map item_args is) @ ws) m =
    Some (of_nat (length (fmt_text is)), put m buf (cut_text sz (fmt_text is)))"
proof -
  let ?T = "fmt_text is" and ?p = "fmt + of_nat (length (concat (map encode is)))"
  have map: "mapped m buf (unat sz)" and buf: "buf \<noteq> NULL" using fa by (simp_all add: format_at_def)
  obtain fl w pr lf where run: "vsn_loop buf sz ns (fmt_init m fmt (concat (map item_args is) @ ws)) =
      vsn_loop buf sz ns (fst_at (wrote m buf sz ?T) ?p S_DEFAULT fl w pr lf ws)"
    using format_items [of m buf sz fmt "is" "[]" ns ws thesis] fa ok len by (auto simp: fmt_text_def)
  have "fst (wrote m buf sz ?T) ?p = Some 0"
    using format_reads [OF fa, of ?T] by simp
  from run end_run [OF map this, of ns fl w pr lf ws] len
  have loop: "vsn_loop buf sz ns (fmt_init m fmt (concat (map item_args is) @ ws)) =
      Some (fst_at (wrote m buf sz (?T @ [0])) (?p + 1) S_DEFAULT fl w pr lf ws)" by simp
  have n: "snd (wrote m buf sz (?T @ [0])) - 1 = of_nat (length ?T)" by (simp add: wrote_def)
  show ?thesis
    by (simp only: vsnprintf_def Let_def buf if_False loop [unfolded fmt_init_def] bind.bind_lunit fmtst.select_convs n
        finish_wrote [OF map len, unfolded Let_def])
qed

text \<open>A single directive, and a format that ends in a percent sign: the state machine stops in the flags
  of a directive, having counted no NUL character, and the count is reduced all the same.\<close>

lemma vsnprintf_cut_short:
  assumes fa: "format_at m buf sz fmt (concat (map encode is) @ [37])" and ok: "\<forall>i \<in> set is. item_ok m buf sz ns i"
    and len: "length (fmt_text is) < 2 ^ 31" and T: "fmt_text is \<noteq> []" "length (fmt_text is) \<le> unat sz"
  shows "vsnprintf ns buf sz fmt (concat (map item_args is) @ ws) m =
    Some (of_nat (length (fmt_text is) - 1), put m buf (butlast (fmt_text is) @ [0]))"
proof -
  let ?T = "fmt_text is" and ?p = "fmt + of_nat (length (concat (map encode is)))"
  let ?V = "vsn_loop buf sz ns"
  have map: "mapped m buf (unat sz)" and buf: "buf \<noteq> NULL" using fa by (simp_all add: format_at_def)
  obtain fl w pr lf where run: "?V (fmt_init m fmt (concat (map item_args is) @ ws)) =
      ?V (fst_at (wrote m buf sz ?T) ?p S_DEFAULT fl w pr lf ws)"
    using format_items [OF fa ok, of ws thesis] len by (auto simp: fmt_text_def)
  have at: "fst (wrote m buf sz ?T) ?p = Some 37" "fst (wrote m buf sz ?T) (?p + 1) = Some 0"
    using format_reads [OF fa, of ?T] by (simp_all add: add.assoc)
  have "?V (fst_at (wrote m buf sz ?T) ?p S_DEFAULT fl w pr lf ws) =
      ?V (fst_at (wrote m buf sz ?T) (?p + 1) S_FLAGS 0 w pr lf ws)"
    by (rule vsn_next [of _ _ _ _ 37]) (use at in \<open>simp_all add: fmt_step_def Let_def\<close>)
  also have "\<dots> = Some (fst_at (wrote m buf sz ?T) (?p + 1) S_WIDTH 0 0 pr lf ws)"
    using at by (subst vsn_loop.simps) (simp add: fmt_step_def Let_def)
  finally have loop: "?V (fmt_init m fmt (concat (map item_args is) @ ws)) =
      Some (fst_at (wrote m buf sz ?T) (?p + 1) S_WIDTH 0 0 pr lf ws)" using run by simp
  have n: "snd (wrote m buf sz ?T) - 1 = of_nat (length ?T - 1)"
    using T(1) by (simp add: wrote_def of_nat_diff Suc_leI)
  have lt: "(of_nat (length ?T - 1) :: u32) < sz"
    using T len by (cases ?T) (simp_all add: of_nat_less32)
  have j: "length ?T - 1 < length ?T" "length ?T \<le> 2 ^ 32" using T(1) len by auto
  have "length ?T - 1 < unat sz" using T(2) j(1) by linarith
  then have "m (buf + of_nat (length ?T - 1)) \<noteq> None" using map unfolding mapped_iff by blast
  then have "st8 (put m buf ?T) (buf + of_nat (length ?T - 1)) 0 = Some (put m buf (?T[length ?T - 1 := 0]))"
    using put_update [OF j, of m buf 0] put_mapped_at by (simp add: st8_def del: of_nat_diff)
  moreover have "?T[length ?T - 1 := 0] = butlast ?T @ [0]"
    using T(1) by (cases "fmt_text is" rule: rev_cases) simp_all
  moreover have "fst (wrote m buf sz ?T) = put m buf ?T" using T(2) by (simp add: wrote_def)
  ultimately have store: "st8 (fst (wrote m buf sz ?T)) (buf + of_nat (length ?T - 1)) 0 = Some (put m buf (butlast ?T @ [0]))"
    by simp
  show ?thesis
    by (simp only: vsnprintf_def Let_def buf if_False loop [unfolded fmt_init_def] bind.bind_lunit fmtst.select_convs n
        lt if_True store)
qed

text \<open>The length modifier \<open>h\<close>: its flag shares a bit with that of \<open>L\<close>, so two words are taken.\<close>

lemma vsnprintf_short_two_words:
  assumes fa: "format_at m buf sz fmt (concat (map encode is) @ 37 # spec_text sp @ [104, c])"
    and ok: "\<forall>i \<in> set is. item_ok m buf sz ns i" and len: "length (fmt_text is) < 2 ^ 31"
    and sp: "spec_ok sp" and c: "c \<in> {100, 105, 111, 98, 117, 120, 88}"
  shows "vsnprintf ns buf sz fmt (concat (map item_args is) @ width_args (sp_width sp) @ [w]) m = None"
proof -
  let ?T = "fmt_text is" and ?p = "fmt + of_nat (length (concat (map encode is)))"
  let ?V = "vsn_loop buf sz ns" and ?ap = "concat (map item_args is) @ width_args (sp_width sp) @ [w]"
  have buf: "buf \<noteq> NULL" using fa by (simp add: format_at_def)
  obtain fl wd pr lf where run: "?V (fmt_init m fmt ?ap) =
      ?V (fst_at (wrote m buf sz ?T) ?p S_DEFAULT fl wd pr lf (width_args (sp_width sp) @ [w]))"
    using format_items [OF fa ok, of "width_args (sp_width sp) @ [w]" thesis] len by (auto simp: fmt_text_def)
  have rd: "reads (fst (wrote m buf sz ?T)) ?p (37 # spec_text sp @ len_text Short @ [c])"
    using format_reads [OF fa, of ?T] by (simp add: add.assoc)
  let ?q = "?p + of_nat (length (37 # spec_text sp @ len_text Short))"
  obtain pr' where conv: "?V (fst_at (wrote m buf sz ?T) ?p S_DEFAULT fl wd pr lf (width_args (sp_width sp) @ [w])) =
      ?V (fst_at (wrote m buf sz ?T) ?q S_CONV (spec_flags sp) (int (width_val (sp_width sp))) pr' (len_flag Short) [w])"
    using spec_run [OF rd sp, of buf sz ns fl wd pr lf "[w]"] c by (auto simp: conv_char_def)
  have "fst (wrote m buf sz ?T) ?q = Some c" using rd by (simp add: add.assoc)
  moreover have "fmt_num c (len_flag Short) [w] = None"
    by (simp add: fmt_num_def L_CHAR_def L_LONG_def L_LLONG_def L_DOUBLE_def va_llong_def)
  ultimately have "?V (fst_at (wrote m buf sz ?T) ?q S_CONV (spec_flags sp) (int (width_val (sp_width sp))) pr'
      (len_flag Short) [w]) = None"
    using c by (subst vsn_loop.simps) (simp only: fmt_step_def Let_def fmtst.select_convs fmtst.update_convs
        bind.bind_lunit fmt_state.case fmt_conv_def if_True, simp)
  then have loop: "?V (fmt_init m fmt ?ap) = None" using run conv by simp
  show ?thesis
    by (simp only: vsnprintf_def Let_def buf if_False loop [unfolded fmt_init_def]) simp
qed

section \<open>Typed calls\<close>

text \<open>
  The words that have the types of the directives of a format, and a bound on the characters it can
  write. A \<open>long long\<close> is two words; its least value has no negation. A character is not NUL. A string is
  NULL, for which the literal at \<open>ns\<close> is printed, or NUL-terminated outside the buffer.
\<close>

inductive fmt_typed :: "mem \<Rightarrow> ptr \<Rightarrow> u32 \<Rightarrow> ptr \<Rightarrow> u8 list \<Rightarrow> u32 list \<Rightarrow> nat \<Rightarrow> bool"
  for m :: mem and buf :: ptr and sz :: u32 and ns :: ptr where
  end_of_format: "fmt_typed m buf sz ns [] ws k"
| literal: "c \<noteq> 0 \<Longrightarrow> c \<noteq> 37 \<Longrightarrow> fmt_typed m buf sz ns F ws k \<Longrightarrow> fmt_typed m buf sz ns (c # F) ws (Suc k)"
| number: "spec_ok sp \<Longrightarrow> l \<in> {Plain, Long} \<Longrightarrow> c \<in> {100, 105, 111, 98, 117, 120, 88} \<Longrightarrow> fmt_typed m buf sz ns F ws k \<Longrightarrow>
    fmt_typed m buf sz ns (37 # spec_text sp @ len_text l @ c # F) (width_args (sp_width sp) @ w # ws)
      (max (width_val (sp_width sp)) 35 + k)"
| long_number: "spec_ok sp \<Longrightarrow> c \<in> {100, 105, 111, 98, 117, 120, 88} \<Longrightarrow> (lo, hi) \<noteq> (0, 2 ^ 31) \<Longrightarrow>
    fmt_typed m buf sz ns F ws k \<Longrightarrow>
    fmt_typed m buf sz ns (37 # spec_text sp @ [108, 108] @ c # F) (width_args (sp_width sp) @ lo # hi # ws)
      (max (width_val (sp_width sp)) 35 + k)"
| pointer: "spec_ok sp \<Longrightarrow> fmt_typed m buf sz ns F ws k \<Longrightarrow>
    fmt_typed m buf sz ns (37 # spec_text sp @ 112 # F) (width_args (sp_width sp) @ w # ws)
      (max (width_val (sp_width sp)) 35 + k)"
| character: "spec_ok sp \<Longrightarrow> 0 < w \<Longrightarrow> w < 256 \<Longrightarrow> fmt_typed m buf sz ns F ws k \<Longrightarrow>
    fmt_typed m buf sz ns (37 # spec_text sp @ 99 # F) (width_args (sp_width sp) @ w # ws)
      (max (width_val (sp_width sp)) 1 + k)"
| str_ing: "spec_ok sp \<Longrightarrow> cstr m (if p = NULL then ns else p) xs \<Longrightarrow>
    apart buf (unat sz) (if p = NULL then ns else p) (Suc (length xs)) \<Longrightarrow> fmt_typed m buf sz ns F ws k \<Longrightarrow>
    fmt_typed m buf sz ns (37 # spec_text sp @ 115 # F) (width_args (sp_width sp) @ p # ws)
      (max (width_val (sp_width sp)) (length xs) + k)"
| percent: "spec_ok sp \<Longrightarrow> fmt_typed m buf sz ns F ws k \<Longrightarrow>
    fmt_typed m buf sz ns (37 # spec_text sp @ 37 # F) (width_args (sp_width sp) @ ws) (Suc k)"

lemma num_chars_length: "2 \<le> b \<Longrightarrow> n < b ^ Suc k \<Longrightarrow> length (num_chars small b n) \<le> Suc k"
proof (induction k arbitrary: n)
  case 0
  then show ?case by (subst num_chars.simps) simp
next
  case (Suc k)
  show ?case
  proof (cases "n < b")
    case True
    then show ?thesis by (subst num_chars.simps) simp
  next
    case False
    have "n div b < b ^ Suc k" using Suc.prems by (simp add: less_mult_imp_div_less mult.commute)
    from Suc.IH [OF Suc.prems(1) this] show ?thesis using False Suc.prems(1)
      by (subst num_chars.simps) simp
  qed
qed

lemma int_text_length: "2 \<le> base \<Longrightarrow> length (int_text f base w num) \<le> max w 35"
proof -
  assume b: "2 \<le> base"
  have "length (num_chars s (nat base) (unat (n :: u32))) \<le> 32" for s n
  proof -
    have "unat n < 2 ^ Suc 31" using unat_lt_2p32 [of n] by simp
    also have "\<dots> \<le> nat base ^ Suc 31" using b by (intro power_mono) simp_all
    finally show ?thesis using num_chars_length [of "nat base" "unat n" 31 s] b by simp
  qed
  moreover have "length (sign_text f neg @ alt_text f base) \<le> 3" for neg
    by (simp add: sign_text_def alt_text_def)
  moreover have "lp + (w - lp - lb) + lb \<le> max w 35" if "lp \<le> 3" "lb \<le> 32" for lp lb
    using that by auto
  ultimately show ?thesis
    unfolding int_text_def Let_def pad_field_length by blast
qed

lemma word_as_number:
  assumes "c \<in> {100, 105, 111, 98, 117, 120, 88}" and "l \<in> {Plain, Long}"
  obtains v where "num_ok c l v" "num_args l v = [w :: u32]"
proof -
  define v where "v = (if c \<in> {100, 105} then sint w else uint w)"
  have "- (2 ^ 31) \<le> sint w" "sint w < 2 ^ 31" "sint w \<noteq> - (2 ^ 63)" "0 \<le> uint w" "uint w < 2 * 2 ^ 31"
    using sint_greater_eq [of w] sint_less [of w] uint_bounded [of w] by auto
  then have "num_ok c l v" using assms by (auto simp: num_ok_def v_def)
  moreover have "num_args l v = [w]" using assms by (auto simp: v_def)
  ultimately show thesis by (rule that)
qed

lemma words_as_number:
  assumes "c \<in> {100, 105, 111, 98, 117, 120, 88}" and "(lo, hi) \<noteq> (0, 2 ^ 31)"
  obtains v where "num_ok c LongLong v" "num_args LongLong v = [lo, hi :: u32]"
proof -
  define x where "x = (word_cat hi lo :: u64)"
  define v where "v = (if c \<in> {100, 105} then sint x else uint x)"
  have lo: "(ucast x :: u32) = lo" and hi: "(ucast (drop_bit 32 x) :: u32) = hi"
    by (rule bit_word_eqI, auto simp: x_def bit_simps bit_word_cat_iff)+
  have "x \<noteq> of_int (- (2 ^ 63))"
  proof
    assume "x = of_int (- (2 ^ 63))"
    then have "lo = 0" "hi = 2 ^ 31" by (simp_all flip: lo hi)
    then show False using assms(2) by simp
  qed
  then have "sint x \<noteq> - (2 ^ 63)"
    by (metis scast_eq scast_id)
  moreover have "- (2 ^ 63) \<le> sint x" "sint x < 2 ^ 63" "0 \<le> uint x" "uint x < 2 * 2 ^ 63"
    using sint_greater_eq [of x] sint_less [of x] uint_bounded [of x] by auto
  ultimately have "num_ok c LongLong v" using assms(1) by (auto simp: num_ok_def v_def)
  moreover have "num_args LongLong v = [lo, hi]"
  proof -
    have x: "of_int v = x" by (simp add: v_def)
    have "(of_int v :: u32) = ucast x" by (rule bit_word_eqI) (auto simp: v_def bit_simps)
    moreover have "(of_int (drop_bit 32 v) :: u32) = ucast (drop_bit 32 x)"
      by (rule bit_word_eqI) (auto simp: v_def bit_simps)
    ultimately show ?thesis using lo hi by (simp add: drop_bit_eq_div)
  qed
  ultimately show thesis by (rule that)
qed

lemma fmt_base_ge: "2 \<le> fmt_base c"
  by (simp add: fmt_base_def)

lemma in_field_length: "length (in_field sp xs) = max (width_val (sp_width sp)) (length xs)"
  by (simp add: in_field_def pad_field_length)

lemma fmt_typed_items:
  "fmt_typed m buf sz ns F ws k \<Longrightarrow> \<exists>is ws'. F = concat (map encode is) \<and> ws = concat (map item_args is) @ ws' \<and>
     (\<forall>i \<in> set is. item_ok m buf sz ns i) \<and> length (fmt_text is) \<le> k"
proof (induction rule: fmt_typed.induct)
  case (end_of_format ws k)
  then show ?case by (intro exI [of _ "[]"] exI [of _ ws]) (simp add: fmt_text_def)
next
  case (literal c F ws k)
  then obtain "is" ws' where "F = concat (map encode is)" "ws = concat (map item_args is) @ ws'"
    "\<forall>i \<in> set is. item_ok m buf sz ns i" "length (fmt_text is) \<le> k" by blast
  then show ?case using literal by (intro exI [of _ "Lit c # is"] exI [of _ ws']) (simp add: fmt_text_def)
next
  case (number sp l c F ws k w)
  then obtain "is" ws' where IH: "F = concat (map encode is)" "ws = concat (map item_args is) @ ws'"
    "\<forall>i \<in> set is. item_ok m buf sz ns i" "length (fmt_text is) \<le> k" by blast
  obtain v where "num_ok c l v" "num_args l v = [w]" using word_as_number number by blast
  then show ?case
    using IH number int_text_length [OF fmt_base_ge, of "conv_flags c (spec_flags sp)" c "width_val (sp_width sp)" v]
    by (intro exI [of _ "Num sp l c v # is"] exI [of _ ws']) (simp add: fmt_text_def add_mono)
next
  case (long_number sp c lo hi F ws k)
  then obtain "is" ws' where IH: "F = concat (map encode is)" "ws = concat (map item_args is) @ ws'"
    "\<forall>i \<in> set is. item_ok m buf sz ns i" "length (fmt_text is) \<le> k" by blast
  obtain v where "num_ok c LongLong v" "num_args LongLong v = [lo, hi]" using words_as_number long_number by blast
  then show ?case
    using IH long_number int_text_length [OF fmt_base_ge, of "conv_flags c (spec_flags sp)" c "width_val (sp_width sp)" v]
    by (intro exI [of _ "Num sp LongLong c v # is"] exI [of _ ws']) (simp add: fmt_text_def add_mono)
next
  case (pointer sp F ws k w)
  then obtain "is" ws' where IH: "F = concat (map encode is)" "ws = concat (map item_args is) @ ws'"
    "\<forall>i \<in> set is. item_ok m buf sz ns i" "length (fmt_text is) \<le> k" by blast
  then show ?case
    using pointer int_text_length [of 16 "spec_flags sp OR (F_SMALL OR F_ALTERNATE)" "width_val (sp_width sp)" "sint w"]
    by (intro exI [of _ "Pnt sp w # is"] exI [of _ ws']) (simp add: fmt_text_def)
next
  case (character sp w F ws k)
  then obtain "is" ws' where IH: "F = concat (map encode is)" "ws = concat (map item_args is) @ ws'"
    "\<forall>i \<in> set is. item_ok m buf sz ns i" "length (fmt_text is) \<le> k" by blast
  have "unat w < 256" "0 < unat w" using character(2,3) by (simp_all add: word_less_nat_alt)
  then have "(ucast (ucast w :: u8) :: u32) = w" "(ucast w :: u8) \<noteq> 0"
    by (simp_all add: word_unat_eq_iff unsigned_ucast_eq unsigned_take_bit_eq take_bit_nat_eq_self)
  then show ?case using IH character
    by (intro exI [of _ "Chr sp (ucast w) # is"] exI [of _ ws']) (simp add: fmt_text_def in_field_length)
next
  case (str_ing sp p xs F ws k)
  then obtain "is" ws' where IH: "F = concat (map encode is)" "ws = concat (map item_args is) @ ws'"
    "\<forall>i \<in> set is. item_ok m buf sz ns i" "length (fmt_text is) \<le> k" by blast
  then show ?case using str_ing
    by (intro exI [of _ "Str sp p xs # is"] exI [of _ ws']) (simp add: fmt_text_def in_field_length)
next
  case (percent sp F ws k)
  then obtain "is" ws' where IH: "F = concat (map encode is)" "ws = concat (map item_args is) @ ws'"
    "\<forall>i \<in> set is. item_ok m buf sz ns i" "length (fmt_text is) \<le> k" by blast
  then show ?case using percent
    by (intro exI [of _ "Pct sp # is"] exI [of _ ws']) (simp add: fmt_text_def)
qed

section \<open>Reading a number back\<close>

lemma digits_val_zeros: "digits_val b (replicate k 48 @ ds) = digits_val b ds"
proof -
  have "foldl (\<lambda>acc c. acc * b + the (digit_of c)) 0 (replicate k 48) = 0"
    by (induction k) (simp_all add: digit_of_def)
  then show ?thesis by (simp add: digits_val_def)
qed

text \<open>A field around a signed number: white space, a sign, digits, and spaces.\<close>

definition number_text :: "int \<Rightarrow> bool \<Rightarrow> nat \<Rightarrow> u8 list \<Rightarrow> bool" where
  "number_text b neg n xs \<longleftrightarrow> (\<exists>ws sg ds rest. xs = ws @ sg @ ds @ rest \<and> list_all is_white ws \<and>
     sg \<in> {[], [45], [43]} \<and> (sg = [45] \<longleftrightarrow> neg) \<and> ds \<noteq> [] \<and> list_all (is_digit_in b) ds \<and>
     digits_val b ds = int n \<and> set rest \<subseteq> {32})"

lemma number_textI:
  "list_all is_white ws \<Longrightarrow> sg \<in> {[], [45], [43]} \<Longrightarrow> (sg = [45] \<longleftrightarrow> neg) \<Longrightarrow> ds \<noteq> [] \<Longrightarrow>
   list_all (is_digit_in b) ds \<Longrightarrow> digits_val b ds = int n \<Longrightarrow> set rest \<subseteq> {32} \<Longrightarrow>
   number_text b neg n (ws @ sg @ ds @ rest)"
  unfolding number_text_def by blast

lemma white_32 [simp]: "is_white 32" by (simp add: is_white_def)

lemma number_text_field:
  assumes b: "0 < b" and body: "body \<noteq> []" "list_all (is_digit_in b) body" "digits_val b body = int n"
    and sg: "sg \<in> {[], [45], [43], [32]}" "sg = [45] \<longleftrightarrow> neg"
  shows "number_text b neg n (pad_field w left zero (sg @ replicate j 48) body)"
proof -
  define ws where "ws = (if sg = [32] then [32 :: u8] else [])"
  define sg' where "sg' = (if sg = [32] then [] else sg)"
  have s: "sg = ws @ sg'" "list_all is_white ws" "sg' \<in> {[], [45], [43]}" "sg' = [45] \<longleftrightarrow> neg"
    using sg by (auto simp: ws_def sg'_def)
  have z: "list_all (is_digit_in b) (replicate i 48)" for i
    using b by (auto simp: is_digit_in_def digit_of_def list_all_iff)
  have ds: "replicate i 48 @ body \<noteq> []" "list_all (is_digit_in b) (replicate i 48 @ body)"
    "digits_val b (replicate i 48 @ body) = int n" for i
    using body z by (simp_all add: digits_val_zeros)
  have sp: "list_all is_white (replicate i 32 @ ws)" "set (replicate i (32 :: u8)) \<subseteq> {32}" for i
    using s(2) by (auto simp: list_all_iff)
  define k where "k = w - length (sg @ replicate j (48 :: u8)) - length body"
  have "pad_field w left zero (sg @ replicate j 48) body =
      (if left then ws @ sg' @ (replicate j 48 @ body) @ replicate k 32
       else if zero then ws @ sg' @ (replicate (j + k) 48 @ body) @ []
       else (replicate k 32 @ ws) @ sg' @ (replicate j 48 @ body) @ [])"
    unfolding pad_field_def Let_def k_def [symmetric] by (simp add: s(1) replicate_add)
  then show ?thesis
    using number_textI [OF s(2,3,4) ds sp(2)] number_textI [OF s(2,3,4) ds, of "[]"]
      number_textI [OF sp(1) s(3,4) ds, of "[]"] by simp
qed

lemma number_text_strtol:
  assumes c: "cstr m p xs" and n: "number_text b neg n xs" "n < 2 ^ 31" and b: "0 < b" "b \<noteq> 16"
  shows "\<exists>e. strtol m p b = Some (if neg then - int n else int n, e)"
proof -
  obtain ws sg ds rest where xs: "xs = ws @ sg @ ds @ rest" "list_all is_white ws" "sg \<in> {[], [45], [43]}"
    "sg = [45] \<longleftrightarrow> neg" "ds \<noteq> []" "list_all (is_digit_in b) ds" "digits_val b ds = int n" "set rest \<subseteq> {32}"
    using n(1) unfolding number_text_def by blast
  have "rest = [] \<or> \<not> is_digit_in b (hd rest)"
    using xs(8) by (cases rest) (auto simp: is_digit_in_def digit_of_def)
  from strtol_radix [OF c [unfolded xs(1)] xs(2,3) b xs(5,6) this] show ?thesis
    using xs(4,7) n(2) by auto
qed

lemma number_item_text:
  assumes n: "num_ok c l v" "\<bar>v\<bar> < 2 ^ 31" and c: "c \<in> {100, 105, 117, 111, 98}" and sp: "spec_ok sp"
  shows "number_text (fmt_base c) (v < 0) (nat \<bar>v\<bar>) (item_text (Num sp l c v))"
proof -
  let ?f = "conv_flags c (spec_flags sp)" and ?b = "nat (fmt_base c)"
  have b: "2 \<le> ?b" "?b \<le> 16" "int ?b = fmt_base c" "0 < fmt_base c" by (auto simp: fmt_base_def)
  have neg: "bit ?f 5 \<and> v < 0 \<longleftrightarrow> v < 0"
    using conv_bit_5 [OF spec_unsigned [OF sp], of c] n(1) by (auto simp: num_ok_def)
  have "(if v < 0 then - v else v) = int (nat \<bar>v\<bar>)" "nat \<bar>v\<bar> < 2 ^ 32" using n(2) by simp_all
  then have val: "unat (of_int (if v < 0 then - v else v) :: u32) = nat \<bar>v\<bar>"
    by (simp only: of_int_of_nat_eq unat_of_nat32)
  have "alt_text ?f (fmt_base c) = replicate (if bit ?f 0 \<and> fmt_base c = 8 then 1 else 0) 48"
    using c by (auto simp: alt_text_def fmt_base_def)
  moreover have "sign_text ?f (v < 0) \<in> {[], [45], [43], [32]}" "sign_text ?f (v < 0) = [45] \<longleftrightarrow> v < 0"
    by (auto simp: sign_text_def)
  ultimately show ?thesis
    using number_text_field [OF b(4), of "num_chars (bit ?f 6) ?b (nat \<bar>v\<bar>)" "nat \<bar>v\<bar>" "sign_text ?f (v < 0)" "v < 0"]
      num_chars_digits [OF b(1,2)] digits_val_num_chars [OF b(1,2)] b(3)
    by (simp add: int_text_def Let_def neg val)
qed

lemma number_text_nonzero: "number_text b neg n xs \<Longrightarrow> 0 \<notin> set xs"
proof -
  have "\<not> is_white 0" "\<not> is_digit_in b 0" by (simp_all add: is_white_def is_digit_in_def digit_of_def)
  then have "list_all is_white ws \<Longrightarrow> 0 \<notin> set ws" "list_all (is_digit_in b) ws \<Longrightarrow> 0 \<notin> set ws" for ws
    by (auto simp: list_all_iff)
  then show "number_text b neg n xs \<Longrightarrow> 0 \<notin> set xs" by (fastforce simp: number_text_def)
qed

section \<open>Properties\<close>

text \<open>A concrete call for the witnesses: memory of zeros with a format at address 4096, the buffer at 8192.\<close>

definition fmt_mem :: "u8 list \<Rightarrow> mem" where
  "fmt_mem F = put (\<lambda>_. Some 0) 4096 (F @ [0])"

lemma fmt_mem_format:
  assumes "length F < 4096" and "0 \<notin> set F" and "unat sz \<le> 4096"
  shows "format_at (fmt_mem F) 8192 sz 4096 F"
proof -
  have "mapped (fmt_mem F) 8192 (unat sz)" by (simp add: fmt_mem_def mapped_iff put_def)
  moreover have "cstr (fmt_mem F) 4096 F" using assms unfolding fmt_mem_def by (intro cstr_put) simp_all
  moreover have "apart (8192 :: u32) (unat sz) 4096 (Suc (length F))" using assms by (simp add: apart_def)
  ultimately show ?thesis by (simp add: format_at_def)
qed

definition plain :: spec where
  "plain = \<lparr>sp_flags = [], sp_width = Wd 0, sp_prec = None\<rparr>"

definition padded :: "nat \<Rightarrow> spec" where
  "padded w = \<lparr>sp_flags = [48], sp_width = Wd w, sp_prec = None\<rparr>"

lemma spec_sel [simp]:
  "sp_width (padded w) = Wd w" "sp_flags (padded w) = [48]" "sp_prec (padded w) = None"
  "sp_width plain = Wd 0" "sp_flags plain = []" "sp_prec plain = None"
  by (simp_all add: padded_def plain_def)

lemma padded_flags [simp]: "spec_flags (padded w) = 2" "spec_flags plain = 0"
  by (simp_all add: spec_flags_def flag_word_def fmt_flag_def F_ZEROPAD_def)


text \<open>The call \<open>vsnprintf (buf, 8, "x=%05d!", -42)\<close>: the text is cut by one character.\<close>

definition demo_items :: "item list" where
  "demo_items = [Lit 120, Lit 61, Num (padded 5) Plain 100 (-42), Lit 33, Lit 33]"

lemma demo_chars: "num_chars False 10 5 = [53]" "num_chars False 10 42 = [52, 50]"
  by (simp_all add: num_chars.simps dig_def)

lemma two_zeros: "replicate 2 (48 :: u8) = [48, 48]"
  unfolding numeral_2_eq_2 by simp

lemma demo_format: "concat (map encode demo_items) = [120, 61, 37, 48, 53, 100, 33, 33]"
  by (simp add: demo_items_def spec_text_def demo_chars)

lemma demo_spec_ok: "w < 2 ^ 30 \<Longrightarrow> spec_ok (padded w)" "spec_ok plain"
  by (simp_all add: spec_ok_def fmt_flag_def)

lemma demo_text: "fmt_text demo_items = [120, 61, 45, 48, 48, 52, 50, 33, 33]"
  by (simp add: fmt_text_def demo_items_def conv_flags_def F_SIGNED_def int_text_def sign_text_def alt_text_def
      fmt_base_def pad_field_def demo_chars bit_simps Let_def bit_2_iff two_zeros)

lemma demo_ok: "\<forall>i \<in> set demo_items. item_ok m buf sz ns i"
  by (simp add: demo_items_def demo_spec_ok num_ok_def)






text \<open>A format that ends in a percent sign loses the last character of its text: vsnprintf returns one
  less than the characters written and puts the terminator over the last of them.\<close>

lemma vsnprintf_trailing_percent:
  assumes "format_at m buf sz fmt (concat (map encode is) @ [37])" and "\<forall>i \<in> set is. item_ok m buf sz ns i"
    and "length (fmt_text is) < 2 ^ 31" and "fmt_text is \<noteq> []" and "length (fmt_text is) \<le> unat sz"
  shows "vsnprintf ns buf sz fmt (concat (map item_args is) @ ws) m =
    Some (of_nat (length (fmt_text is) - 1), put m buf (butlast (fmt_text is) @ [0]))"
  by (rule vsnprintf_cut_short [OF assms])

lemma vsnprintf_trailing_percent_witness:
  "vsnprintf 0 8192 16 4096 [] (fmt_mem [53, 48, 37]) = Some (1, put (fmt_mem [53, 48, 37]) 8192 [53, 0])"
proof -
  have "format_at (fmt_mem [53, 48, 37]) 8192 16 4096 (concat (map encode [Lit 53, Lit 48]) @ [37])"
    using fmt_mem_format [of "[53, 48, 37]" 16] by simp
  then show ?thesis
    using vsnprintf_trailing_percent [of _ 8192 16 4096 "[Lit 53, Lit 48]" 0 "[]"] by (simp add: fmt_text_def)
qed

text \<open>C34: The length modifier h makes vsnprintf take a long long from the arguments, so a call that passes
  an int for %hd, as its last argument, reads past the arguments.\<close>

theorem vsnprintf_short_overreads:
  assumes "format_at m buf sz fmt (concat (map encode is) @ 37 # spec_text sp @ [104, c])"
    and "\<forall>i \<in> set is. item_ok m buf sz ns i" and "length (fmt_text is) < 2 ^ 31" and "spec_ok sp"
    and "c \<in> {100, 105, 111, 98, 117, 120, 88}"
  shows "vsnprintf ns buf sz fmt (concat (map item_args is) @ width_args (sp_width sp) @ [w]) m = None"
  by (rule vsnprintf_short_two_words [OF assms])

theorem vsnprintf_short_overreads_witness:
  "vsnprintf 0 8192 16 4096 [7] (fmt_mem [37, 104, 100]) = None"
proof -
  have "format_at (fmt_mem [37, 104, 100]) 8192 16 4096 (concat (map encode []) @ 37 # spec_text plain @ [104, 100])"
    using fmt_mem_format [of "[37, 104, 100]" 16] by (simp add: spec_text_def)
  then show ?thesis
    using vsnprintf_short_overreads [of _ 8192 16 4096 "[]" plain 100 0 7] demo_spec_ok(2) by (simp add: fmt_text_def)
qed

end
