(* ===== verification/Console.thy ===== *)
theory Console
  imports KFormat Serial Sched
begin

text \<open>
  Formatted output and line input on the two sides of the system call boundary:
  \<open>libc/kernel/stdio.c\<close>, linked into the kernel, and \<open>libc/stdio.c\<close>, linked into user
  programs. The terminal (\<open>init/tty.o\<close>) is only present as an object file: the calls it
  receives are logged, newest first, with the bytes that are passed, and the line a read stores is a
  parameter that answers from the log. So are the system calls a user program makes. The array
  \<open>buffer\<close> on the stack is an address, a parameter.
\<close>

section \<open>The kernel's side\<close>

datatype tty_event =
    WriteString "u8 list"
  | TermRead u32
  | ClearLog
  | TextColor u8
  | BgColor u8
  | ResetColor
  | KheapStats
  | Breakpoint

type_synonym tty_input = "tty_event list \<Rightarrow> u32 \<Rightarrow> u8 list"

record ttyst = procst +
  tlog :: "tty_event list"
  strtok_next :: ptr

definition tty_log :: "tty_event \<Rightarrow> 'z ttyst_scheme \<Rightarrow> 'z ttyst_scheme" where
  "tty_log e s = s\<lparr>tlog := e # tlog s\<rparr>"

definition terminal_writestring :: "ptr \<Rightarrow> 'z ttyst_scheme \<Rightarrow> 'z ttyst_scheme option" where
  "terminal_writestring p s = do {
     n \<leftarrow> strlen (kmem s) p;
     bs \<leftarrow> fetch (kmem s) p (unat n);
     Some (tty_log (WriteString bs) s)
   }"

definition terminal_read :: "tty_input \<Rightarrow> ptr \<Rightarrow> u32 \<Rightarrow> 'z ttyst_scheme \<Rightarrow> 'z ttyst_scheme option" where
  "terminal_read inp buf n s =
     (let bs = inp (tlog s) n
      in if mapped (kmem s) buf (length bs) then Some (tty_log (TermRead n) (s\<lparr>kmem := put (kmem s) buf bs\<rparr>)) else None)"

definition BUFFER_SIZE :: u32 where "BUFFER_SIZE = 1024"

definition printk ::
  "hw \<Rightarrow> ptr \<Rightarrow> ptr \<Rightarrow> ptr \<Rightarrow> u32 list \<Rightarrow> 'z ttyst_scheme \<Rightarrow> (u32 \<times> 'z ttyst_scheme) option" where
  "printk h null_str buffer fmt args s = do {
     (len, m) \<leftarrow> vsnprintf null_str buffer BUFFER_SIZE fmt args (kmem s);
     s \<leftarrow> terminal_writestring buffer (s\<lparr>kmem := m\<rparr>);
     s \<leftarrow> serial_puts h buffer s;
     Some (len, s)
   }"

definition getlinek :: "tty_input \<Rightarrow> ptr \<Rightarrow> u32 \<Rightarrow> 'z ttyst_scheme \<Rightarrow> (u32 \<times> 'z ttyst_scheme) option" where
  "getlinek inp buf n s =
     (if buf = NULL \<or> n = 0 then Some (-1, s)
      else do { s \<leftarrow> terminal_read inp buf (n - 1) s; Some (0, s) })"

section \<open>The user's side\<close>

datatype sys_event = SysWrite "u8 list" | SysRead u32 | UserBreakpoint

type_synonym sys_input = "sys_event list \<Rightarrow> u32 \<Rightarrow> u8 list"

record ust = kst +
  ulog :: "sys_event list"
  u_strtok_next :: ptr

definition sys_write :: "ptr \<Rightarrow> u32 \<Rightarrow> 'z ust_scheme \<Rightarrow> 'z ust_scheme option" where
  "sys_write p n s = do { bs \<leftarrow> fetch (kmem s) p (unat n); Some (s\<lparr>ulog := SysWrite bs # ulog s\<rparr>) }"

definition sys_read :: "sys_input \<Rightarrow> ptr \<Rightarrow> u32 \<Rightarrow> 'z ust_scheme \<Rightarrow> 'z ust_scheme option" where
  "sys_read inp p n s =
     (let bs = inp (ulog s) n
      in if mapped (kmem s) p (length bs) then Some (s\<lparr>kmem := put (kmem s) p bs, ulog := SysRead n # ulog s\<rparr>) else None)"

definition printf :: "ptr \<Rightarrow> ptr \<Rightarrow> ptr \<Rightarrow> u32 list \<Rightarrow> 'z ust_scheme \<Rightarrow> (u32 \<times> 'z ust_scheme) option" where
  "printf null_str buffer fmt args s = do {
     (len, m) \<leftarrow> vsnprintf null_str buffer BUFFER_SIZE fmt args (kmem s);
     s \<leftarrow> sys_write buffer len (s\<lparr>kmem := m\<rparr>);
     Some (len, s)
   }"

definition getline :: "sys_input \<Rightarrow> ptr \<Rightarrow> u32 \<Rightarrow> 'z ust_scheme \<Rightarrow> (u32 \<times> 'z ust_scheme) option" where
  "getline inp buf n s =
     (if buf = NULL \<or> n = 0 then Some (-1, s)
      else do { s \<leftarrow> sys_read inp buf (n - 1) s; Some (0, s) })"

end
