(* ===== verification/ConsoleProps.thy ===== *)
theory ConsoleProps
  imports KFormatProps Console
begin

text \<open>
  What \<open>printk\<close> sends to the terminal and the serial port, and what \<open>printf\<close> passes to the system
  call: the text of the format cut to the buffer on one side, as many bytes as the whole text has on the
  other.
\<close>

section \<open>Memory that differs in one place\<close>

definition same_off :: "ptr \<Rightarrow> nat \<Rightarrow> mem \<Rightarrow> mem \<Rightarrow> bool" where
  "same_off p n m m' \<longleftrightarrow> (\<forall>a. n \<le> unat (a - p) \<longrightarrow> m' a = m a) \<and> (\<forall>a. m a \<noteq> None \<longrightarrow> m' a \<noteq> None)"

lemma same_off_refl [simp]: "same_off p n m m"
  by (simp add: same_off_def)

lemma same_off_trans: "same_off p n m m' \<Longrightarrow> same_off p n m' m'' \<Longrightarrow> same_off p n m m''"
  by (simp add: same_off_def)

lemma same_off_sub:
  assumes "same_off (p + of_nat i) k m m'" and "i + k \<le> n"
  shows "same_off p n m m'"
proof -
  have "k \<le> unat (a - (p + of_nat i))" if a: "n \<le> unat (a - p)" for a
  proof -
    have small: "i < 2 ^ 32" using assms(2) a unat_lt_2p32 [of "a - p"] by linarith
    then have "of_nat i \<le> a - p" using assms(2) a by (simp add: word_le_nat_alt unat_of_nat32)
    then have "unat (a - p - of_nat i) = unat (a - p) - i" using small by (simp add: unat_sub unat_of_nat32)
    then show ?thesis using assms(2) a by (simp add: algebra_simps)
  qed
  then show ?thesis using assms(1) unfolding same_off_def by blast
qed

lemma same_off_put: "length bs \<le> n \<Longrightarrow> same_off p n m (put m p bs)"
  by (auto simp: same_off_def put_def)

lemma same_off_upd: "m (p + of_nat i) \<noteq> None \<Longrightarrow> i < n \<Longrightarrow> n \<le> 2 ^ 32 \<Longrightarrow> same_off p n m (m(p + of_nat i \<mapsto> b))"
  by (auto simp: same_off_def unat_of_nat32)

lemma same_off_at:
  assumes "same_off p n m m'" and "apart p n q k" and "j < k"
  shows "m' (q + of_nat j) = m (q + of_nat j)"
proof -
  have "\<not> unat (q + of_nat j - p) < n"
  proof
    assume lt: "unat (q + of_nat j - p) < n"
    have "p + of_nat (unat (q + of_nat j - p)) = q + of_nat j" by simp
    with apart_offsets [OF assms(2) lt assms(3)] show False by simp
  qed
  then show ?thesis using assms(1) by (simp add: same_off_def)
qed

lemma same_off_fetch: "same_off p n m m' \<Longrightarrow> apart p n q k \<Longrightarrow> fetch m q k = Some bs \<Longrightarrow> fetch m' q k = Some bs"
  by (simp add: fetch_iff same_off_at)

lemma same_off_cstr: "same_off p n m m' \<Longrightarrow> apart p n q (Suc (length s)) \<Longrightarrow> cstr m q s \<Longrightarrow> cstr m' q s"
  unfolding cstr_iff_fetch using same_off_fetch by blast

lemma same_off_mapped: "same_off p n m m' \<Longrightarrow> mapped m q k \<Longrightarrow> mapped m' q k"
  by (simp add: same_off_def mapped_iff)

section \<open>Text without NUL characters\<close>

lemma num_chars_nonzero: "2 \<le> b \<Longrightarrow> b \<le> 16 \<Longrightarrow> 0 \<notin> set (num_chars small b n)"
proof -
  have "\<not> is_digit_in (int b) 0" by (simp add: is_digit_in_def digit_of_def)
  then show "2 \<le> b \<Longrightarrow> b \<le> 16 \<Longrightarrow> 0 \<notin> set (num_chars small b n)"
    using num_chars_digits [of b small n] by (auto simp: list_all_iff)
qed

lemma pad_field_nonzero: "0 \<in> set (pad_field w l z pre body) \<longleftrightarrow> 0 \<in> set pre \<or> 0 \<in> set body"
  by (auto simp: pad_field_def Let_def)

lemma int_text_nonzero: "2 \<le> base \<Longrightarrow> base \<le> 16 \<Longrightarrow> 0 \<notin> set (int_text f base w num)"
  unfolding int_text_def Let_def
  by (auto simp: pad_field_nonzero num_chars_nonzero sign_text_def alt_text_def)

lemma item_text_nonzero: "item_ok m buf sz ns i \<Longrightarrow> 0 \<notin> set (item_text i)"
proof (cases i)
  case (Num sp l c v)
  then show ?thesis by (simp add: int_text_nonzero fmt_base_def)
next
  case (Str sp p xs)
  assume "item_ok m buf sz ns i"
  then have "0 \<notin> set xs" using Str cstr_nonzero by fastforce
  then show ?thesis using Str by (simp add: in_field_def pad_field_nonzero)
qed (auto simp: in_field_def int_text_nonzero pad_field_nonzero)

lemma fmt_text_nonzero: "\<forall>i \<in> set is. item_ok m buf sz ns i \<Longrightarrow> 0 \<notin> set (fmt_text is)"
  using item_text_nonzero by (auto simp: fmt_text_def)

section \<open>printk\<close>

lemma terminal_writestring_cstr:
  assumes "cstr (kmem s) p T"
  shows "terminal_writestring p s = Some (tty_log (WriteString T) s)"
  using strlen_cstr [OF assms] fetch_take [OF cstr_fetch [OF assms], of "length T"]
    unat_of_nat32 [OF cstr_length [OF assms]]
  by (simp add: terminal_writestring_def)

lemma cut_1024: "cut_text BUFFER_SIZE T = take 1023 T @ [0]"
  by (simp add: cut_text_def BUFFER_SIZE_def)

lemma printk_text:
  fixes s :: "'z ttyst_scheme"
  assumes fa: "format_at (kmem s) buffer BUFFER_SIZE fmt (concat (map encode is))"
    and ok: "\<forall>i \<in> set is. item_ok (kmem s) buffer BUFFER_SIZE ns i"
    and len: "length (fmt_text is) < 2 ^ 31" and h: "uart_drains h"
  shows "\<exists>l. printk h ns buffer fmt (concat (map item_args is) @ ws) s =
      Some (of_nat (length (fmt_text is)),
        s\<lparr>kmem := put (kmem s) buffer (take 1023 (fmt_text is) @ [0]), io := l,
          tlog := WriteString (take 1023 (fmt_text is)) # tlog s\<rparr>) \<and>
    outs_of l = outs s @ map (Pair 0x3F8) (crlf (take 1023 (fmt_text is)))"
proof -
  let ?T = "take 1023 (fmt_text is)"
  let ?m = "put (kmem s) buffer (?T @ [0])"
  have v: "vsnprintf ns buffer BUFFER_SIZE fmt (concat (map item_args is) @ ws) (kmem s) =
      Some (of_nat (length (fmt_text is)), ?m)"
    using vsnprintf_items [OF fa ok len] by (simp add: cut_1024)
  have "0 \<notin> set ?T" using fmt_text_nonzero [OF ok] by (meson in_set_takeD)
  then have c: "cstr ?m buffer ?T" by (intro cstr_put) auto
  have "terminal_writestring buffer (s\<lparr>kmem := ?m\<rparr>) = Some (s\<lparr>kmem := ?m, tlog := WriteString ?T # tlog s\<rparr>)"
    using terminal_writestring_cstr [of "s\<lparr>kmem := ?m\<rparr>" buffer ?T] c by (simp add: tty_log_def)
  moreover obtain l where "serial_puts h buffer (s\<lparr>kmem := ?m, tlog := WriteString ?T # tlog s\<rparr>) =
      Some (s\<lparr>kmem := ?m, tlog := WriteString ?T # tlog s, io := l\<rparr>)"
    "outs_of l = outs s @ map (Pair 0x3F8) (crlf ?T)"
    using serial_puts_crlf [OF h, of "s\<lparr>kmem := ?m, tlog := WriteString ?T # tlog s\<rparr>" buffer ?T] c by auto
  ultimately show ?thesis
    using v by (intro exI [of _ l]) (simp add: printk_def)
qed

section \<open>printf\<close>

lemma printf_text:
  assumes fa: "format_at (kmem s) buffer BUFFER_SIZE fmt (concat (map encode is))"
    and ok: "\<forall>i \<in> set is. item_ok (kmem s) buffer BUFFER_SIZE ns i" and len: "length (fmt_text is) < 1024"
  shows "printf ns buffer fmt (concat (map item_args is) @ ws) s =
    Some (of_nat (length (fmt_text is)),
      s\<lparr>kmem := put (kmem s) buffer (fmt_text is @ [0]), ulog := SysWrite (fmt_text is) # ulog s\<rparr>)"
proof -
  have T: "take 1023 (fmt_text is) = fmt_text is" using len by simp
  have "vsnprintf ns buffer BUFFER_SIZE fmt (concat (map item_args is) @ ws) (kmem s) =
      Some (of_nat (length (fmt_text is)), put (kmem s) buffer (fmt_text is @ [0]))"
    using vsnprintf_items [OF fa ok] len by (simp add: cut_1024 T)
  moreover have "unat (of_nat (length (fmt_text is)) :: u32) = length (fmt_text is)" using len by (simp add: unat_of_nat32)
  moreover have "fetch (put (kmem s) buffer (fmt_text is @ [0])) buffer (Suc (length (fmt_text is))) = Some (fmt_text is @ [0])"
    using fetch_put_same [of "fmt_text is @ [0]"] len by simp
  from fetch_take [OF this, of "length (fmt_text is)"]
  have "fetch (put (kmem s) buffer (fmt_text is @ [0])) buffer (length (fmt_text is)) = Some (fmt_text is)" by simp
  ultimately show ?thesis by (simp add: printf_def sys_write_def)
qed

lemma printf_overrun:
  assumes fa: "format_at (kmem s) buffer BUFFER_SIZE fmt (concat (map encode is))"
    and ok: "\<forall>i \<in> set is. item_ok (kmem s) buffer BUFFER_SIZE ns i"
    and len: "1024 < length (fmt_text is)" "length (fmt_text is) < 2 ^ 31"
    and beyond: "fetch (kmem s) (buffer + 1024) (length (fmt_text is) - 1024) = Some bs"
  shows "printf ns buffer fmt (concat (map item_args is) @ ws) s =
    Some (of_nat (length (fmt_text is)),
      s\<lparr>kmem := put (kmem s) buffer (take 1023 (fmt_text is) @ [0]),
        ulog := SysWrite (take 1023 (fmt_text is) @ 0 # bs) # ulog s\<rparr>)"
proof -
  let ?B = "take 1023 (fmt_text is) @ [0]" and ?n = "length (fmt_text is)"
  let ?m = "put (kmem s) buffer ?B"
  have B: "length ?B = 1024" using len by simp
  have f1: "fetch ?m buffer 1024 = Some ?B"
    using fetch_put_same [of ?B "kmem s" buffer] by (simp only: B) simp
  have "apart buffer 1024 (buffer + of_nat 1024) (?n - 1024)"
    using apart_next [of 1024 "?n - 1024" buffer] len by (subst apart_sym) simp
  then have f2: "fetch ?m (buffer + of_nat 1024) (?n - 1024) = Some bs"
    using fetch_put_apart [of buffer ?B "buffer + of_nat 1024" "?n - 1024" "kmem s"] B beyond by simp
  have f: "fetch ?m buffer ?n = Some (?B @ bs)"
    using fetch_append [OF f1 f2] len by simp
  have v: "vsnprintf ns buffer BUFFER_SIZE fmt (concat (map item_args is) @ ws) (kmem s) = Some (of_nat ?n, ?m)"
    using vsnprintf_items [OF fa ok len(2)] by (simp add: cut_1024)
  have n: "unat (of_nat ?n :: u32) = ?n" using len by (intro unat_of_nat32) simp
  show ?thesis
    by (simp only: printf_def v bind.bind_lunit prod.case sys_write_def n) (use f in simp)
qed

end
