(* ===== verification/Shell.thy ===== *)
theory Shell
  imports Console Paging
begin

text \<open>
  The command interpreters: \<open>init/shell.c\<close> in the kernel and \<open>user/shall.c\<close> as a program. The
  commands that are written alike in both files are functions of the way they print,
  \<open>pr\<close>: \<open>printk\<close> in one, \<open>printf\<close> in the other. The addresses of string literals and of the
  arrays on the stack are fields of \<open>shell_env\<close>; the array \<open>args\<close> of \<open>run_cmd\<close> does not leave
  it and is a list. What the breakpoint instruction and the heap statistics do is logged as a call.
\<close>

unbundle bit_operations_syntax

type_synonym 's print = "string \<Rightarrow> u32 list \<Rightarrow> 's \<Rightarrow> 's option"

definition bytes_of :: "string \<Rightarrow> u8 list" where
  "bytes_of str = map of_char str"

record shell_env =
  lit :: "string \<Rightarrow> ptr"
  pr_buffer :: ptr
  str_buf :: ptr
  cmd_buf :: ptr
  cur_esp :: ptr

section \<open>The line and its words\<close>

text \<open>The loop over the tokens after the first; at most four are kept, and the one after the last kept
  has been cut off too.\<close>

fun tokens_loop :: "shell_env \<Rightarrow> nat \<Rightarrow> ptr \<Rightarrow> ptr list \<Rightarrow> ptr \<Rightarrow> mem \<Rightarrow> (ptr list \<times> ptr \<times> mem) option" where
  "tokens_loop E 0 tok args nx m = Some (args, nx, m)"
| "tokens_loop E (Suc k) tok args nx m =
     (if tok = NULL then Some (args, nx, m)
      else do { (tok', nx, m) \<leftarrow> strtok m nx NULL (lit E '' ''); tokens_loop E k tok' (args @ [tok]) nx m })"

definition tokenize :: "shell_env \<Rightarrow> ptr \<Rightarrow> ptr \<Rightarrow> mem \<Rightarrow> (ptr list \<times> ptr \<times> mem) option" where
  "tokenize E cmd nx m = do {
     (tok, nx, m) \<leftarrow> strtok m nx cmd (lit E '' '');
     tokens_loop E 4 tok [] nx m
   }"

definition arg_at :: "ptr list \<Rightarrow> nat \<Rightarrow> ptr" where
  "arg_at args i = (if i < length args then args ! i else NULL)"

fun print_all :: "'s print \<Rightarrow> string list \<Rightarrow> 's \<Rightarrow> 's option" where
  "print_all pr [] s = Some s"
| "print_all pr (x # xs) s = do { s \<leftarrow> pr x [] s; print_all pr xs s }"

section \<open>Commands the two shells share\<close>

subsection \<open>echo and repeat\<close>

fun append_args :: "shell_env \<Rightarrow> ptr list \<Rightarrow> mem \<Rightarrow> mem option" where
  "append_args E [] m = Some m"
| "append_args E (a # as) m = do {
     (_, m) \<leftarrow> strcat m (str_buf E) a;
     (_, m) \<leftarrow> strcat m (str_buf E) (lit E '' '');
     append_args E as m
   }"

text \<open>The array is cleared, the arguments are appended with a space after each, and the last space is cut
  off.\<close>

definition join_args :: "shell_env \<Rightarrow> ptr list \<Rightarrow> mem \<Rightarrow> mem option" where
  "join_args E as m = do {
     m \<leftarrow> (if mapped m (str_buf E) 1024 then Some (put m (str_buf E) (replicate 1024 0)) else None);
     m \<leftarrow> append_args E as m;
     n \<leftarrow> strlen m (str_buf E);
     st8 m (str_buf E + (n - 1)) 0
   }"

definition cmd_echo :: "'z kst_scheme print \<Rightarrow> shell_env \<Rightarrow> ptr list \<Rightarrow> 'z kst_scheme \<Rightarrow> 'z kst_scheme option" where
  "cmd_echo pr E args s = do {
     m \<leftarrow> join_args E (drop 1 args) (kmem s);
     pr (''%s'' @ [CHR 0x0A]) [str_buf E] (s\<lparr>kmem := m\<rparr>)
   }"

fun repeat_loop :: "'s print \<Rightarrow> shell_env \<Rightarrow> nat \<Rightarrow> 's \<Rightarrow> 's option" where
  "repeat_loop pr E 0 s = Some s"
| "repeat_loop pr E (Suc k) s = do { s \<leftarrow> pr ''%s '' [str_buf E] s; repeat_loop pr E k s }"

definition cmd_repeat :: "'z kst_scheme print \<Rightarrow> shell_env \<Rightarrow> ptr list \<Rightarrow> 'z kst_scheme \<Rightarrow> 'z kst_scheme option" where
  "cmd_repeat pr E args s =
     (if 1 < length args then do {
        (n, _) \<leftarrow> strtol (kmem s) (arg_at args 1) 10;
        m \<leftarrow> join_args E (drop 2 args) (kmem s);
        s \<leftarrow> repeat_loop pr E (nat n) (s\<lparr>kmem := m\<rparr>);
        pr (''%s'' @ [CHR 0x0A]) [lit E ''''] s
      } else Some s)"

subsection \<open>Memory dump\<close>

fun dump_hex :: "'z kst_scheme print \<Rightarrow> ptr \<Rightarrow> u32 \<Rightarrow> u32 \<Rightarrow> nat \<Rightarrow> 'z kst_scheme \<Rightarrow> 'z kst_scheme option" where
  "dump_hex pr addr count x 0 s = Some s"
| "dump_hex pr addr count x (Suc k) s = do {
     s \<leftarrow> (if x < count then do { b \<leftarrow> kmem s (addr + x); pr ''%02x '' [ucast b] s } else pr ''   '' [] s);
     dump_hex pr addr count (x + 1) k s
   }"

fun dump_chars :: "'z kst_scheme print \<Rightarrow> ptr \<Rightarrow> u32 \<Rightarrow> u32 \<Rightarrow> nat \<Rightarrow> 'z kst_scheme \<Rightarrow> 'z kst_scheme option" where
  "dump_chars pr addr count x 0 s = Some s"
| "dump_chars pr addr count x (Suc k) s =
     (if x < count then do {
        b \<leftarrow> kmem s (addr + x);
        s \<leftarrow> pr ''%c'' [if 32 \<le> b \<and> b \<le> 126 then ucast b else 46] s;
        dump_chars pr addr count (x + 1) k s
      } else Some s)"

partial_function (option) dump_loop ::
  "'z kst_scheme print \<Rightarrow> ptr \<Rightarrow> u32 \<Rightarrow> u32 \<Rightarrow> 'z kst_scheme \<Rightarrow> 'z kst_scheme option" where
  "dump_loop pr addr count i s =
     (if i < count then do {
        s \<leftarrow> pr ''0x%08x: '' [addr + i] s;
        s \<leftarrow> dump_hex pr addr count i 16 s;
        s \<leftarrow> pr '' |'' [] s;
        s \<leftarrow> dump_chars pr addr count i 16 s;
        s \<leftarrow> pr (''|'' @ [CHR 0x0A]) [] s;
        dump_loop pr addr count (i + 16) s
      } else Some s)"

definition cmd_mdmp :: "'z kst_scheme print \<Rightarrow> ptr list \<Rightarrow> 'z kst_scheme \<Rightarrow> 'z kst_scheme option" where
  "cmd_mdmp pr args s =
     (if length args < 3 then pr (''Usage: mdmp <size> <address>'' @ [CHR 0x0A]) [] s
      else do {
        s \<leftarrow> pr [CHR 0x0A] [] s;
        (count, _) \<leftarrow> strtol (kmem s) (arg_at args 1) 0;
        (addr, _) \<leftarrow> strtol (kmem s) (arg_at args 2) 0;
        dump_loop pr (of_int addr) (of_int count) 0 s
      })"

subsection \<open>Stack dump\<close>

definition stack_line :: string where
  "stack_line = ''-----------------------------------------'' @ [CHR 0x0A]"

text \<open>The words from five below the stack pointer to four above.\<close>

fun stack_loop :: "'z kst_scheme print \<Rightarrow> ptr \<Rightarrow> int list \<Rightarrow> 'z kst_scheme \<Rightarrow> 'z kst_scheme option" where
  "stack_loop pr esp [] s = Some s"
| "stack_loop pr esp (i # is) s = do {
     let addr = esp + 4 * of_int i;
     val \<leftarrow> ld32 (kmem s) addr;
     s \<leftarrow> (if i = 0 then do { s \<leftarrow> pr ''-> 0x%08x: 0x%08x   <-- ESP'' [addr, val] s; pr [CHR 0x0A] [] s }
          else pr (''   0x%08x: 0x%08x'' @ [CHR 0x0A]) [addr, val] s);
     stack_loop pr esp is s
   }"

definition cmd_sd :: "'z kst_scheme print \<Rightarrow> ptr \<Rightarrow> 'z kst_scheme \<Rightarrow> 'z kst_scheme option" where
  "cmd_sd pr esp s = do {
     s \<leftarrow> pr [CHR 0x0A] [] s;
     s \<leftarrow> pr ''Stack dump (ESP = 0x%08x):'' [esp] s;
     s \<leftarrow> print_all pr [[CHR 0x0A], stack_line, ''    Address       Value       %esp'' @ [CHR 0x0A], stack_line] s;
     s \<leftarrow> stack_loop pr esp [-5..4] s;
     pr (stack_line @ [CHR 0x0A]) [] s
   }"

section \<open>Choosing a command\<close>

text \<open>The chain of comparisons; the result of a command says whether the shell is to end.\<close>

fun dispatch :: "shell_env \<Rightarrow> ptr \<Rightarrow> (string \<times> ('z kst_scheme \<Rightarrow> (bool \<times> 'z kst_scheme) option)) list \<Rightarrow>
    ('z kst_scheme \<Rightarrow> (bool \<times> 'z kst_scheme) option) \<Rightarrow> 'z kst_scheme \<Rightarrow> (bool \<times> 'z kst_scheme) option" where
  "dispatch E cmd [] other s = other s"
| "dispatch E cmd ((name, act) # cs) other s = do {
     r \<leftarrow> strcmp (kmem s) cmd (lit E name);
     if r = 0 then act s else dispatch E cmd cs other s
   }"

definition stay :: "('s \<Rightarrow> 's option) \<Rightarrow> 's \<Rightarrow> (bool \<times> 's) option" where
  "stay f s = do { s \<leftarrow> f s; Some (False, s) }"

section \<open>The kernel's shell\<close>

record kshell_env = shell_env +
  k_hw :: hw
  k_pagedir :: ptr
  k_start :: ptr
  k_end :: ptr
  k_input :: tty_input

definition line :: "string \<Rightarrow> string" where
  "line x = x @ [CHR 0x0A]"

definition pk :: "'e kshell_env_scheme \<Rightarrow> 'z ttyst_scheme print" where
  "pk E fmt args s = do {
     (_, s) \<leftarrow> printk (k_hw E) (lit E ''(null)'') (pr_buffer E) (lit E fmt) args s;
     Some s
   }"

definition cmd_help :: "kshell_env \<Rightarrow> 'z ttyst_scheme \<Rightarrow> 'z ttyst_scheme option" where
  "cmd_help E = print_all (pk E)
     [line '''', line ''Leenix v0.1 shell'', line (line ''with a basic Command Line Interface (CLI)''),
      line ''Supported commands:'',
      line '' - clear: clears the display'',
      line '' - kinfo: print kernel memory info'',
      line ('' - mdmp <address> <size>: dump memory contents at '' @ replicate 5 (CHR 0x09) @
            ''address for size bytes''),
      line '' - sd: dump current stack contents'',
      line '' - heap: dump heap info'',
      line '' - ptwalk <vstart> <vend>: walk the PTs from vstart to vend'',
      line '' - break: trigger int3 breakpoint'',
      line '' - help: displays this message'',
      line '' - exit: quits and halts the system'']"

subsection \<open>Page table walk\<close>

definition ptwalk_step :: "kshell_env \<Rightarrow> u32 \<Rightarrow> 'z ttyst_scheme \<Rightarrow> 'z ttyst_scheme option" where
  "ptwalk_step E addr s = do {
     let pdi = drop_bit 22 addr AND 0x3FF;
     let pti = drop_bit 12 addr AND 0x3FF;
     pde \<leftarrow> ld32 (kmem s) (k_pagedir E + 4 * pdi);
     if pde AND PDE_PRESENT = 0 then pk E (line ''0x%08x: PDE not present'') [addr] s
     else do {
       pte \<leftarrow> ld32 (kmem s) (PHYS_TO_VIRT (pde AND 0xFFFFF000) + 4 * pti);
       pk E (line ''0x%08x -> 0x%08x [%s | %s | %s]'')
         [addr, pte AND 0xFFFFF000,
          lit E (if pte AND 1 \<noteq> 0 then ''PRESENT'' else ''NOT_PRESENT''),
          lit E (if pte AND 2 \<noteq> 0 then ''RW'' else ''RO''),
          lit E (if pte AND 4 \<noteq> 0 then ''USER'' else ''KERN'')] s
     }
   }"

partial_function (option) ptwalk_loop :: "kshell_env \<Rightarrow> u32 \<Rightarrow> u32 \<Rightarrow> 'z ttyst_scheme \<Rightarrow> 'z ttyst_scheme option" where
  "ptwalk_loop E addr vend s =
     (if addr \<le> vend then do { s \<leftarrow> ptwalk_step E addr s; ptwalk_loop E (addr + 0x1000) vend s } else Some s)"

definition opt_number :: "ptr \<Rightarrow> u32 \<Rightarrow> mem \<Rightarrow> u32 option" where
  "opt_number p dflt m = (if p \<noteq> NULL then do { (x, _) \<leftarrow> strtol m p 0; Some (of_int x) } else Some dflt)"

definition cmd_ptwalk :: "kshell_env \<Rightarrow> ptr list \<Rightarrow> 'z ttyst_scheme \<Rightarrow> 'z ttyst_scheme option" where
  "cmd_ptwalk E args s = do {
     vstart \<leftarrow> opt_number (arg_at args 1) 0 (kmem s);
     vend \<leftarrow> opt_number (arg_at args 2) 0x10000 (kmem s);
     s \<leftarrow> pk E (line ''Page table walk from 0x%08x to 0x%08x'') [vstart, vend] s;
     ptwalk_loop E vstart vend s
   }"

definition cmd_kinfo :: "kshell_env \<Rightarrow> 'z ttyst_scheme \<Rightarrow> 'z ttyst_scheme option" where
  "cmd_kinfo E s = do {
     s \<leftarrow> pk E (line ''Kernel loaded from %p to %p'') [k_start E, k_end E] s;
     pk E (line ''Kernel size: %u bytes'') [k_end E - k_start E] s
   }"

subsection \<open>A command and the loop over commands\<close>

definition kcommands :: "kshell_env \<Rightarrow> ptr list \<Rightarrow> (string \<times> ('z ttyst_scheme \<Rightarrow> (bool \<times> 'z ttyst_scheme) option)) list" where
  "kcommands E args =
     (let e = shell_env.truncate E in
      [(''exit'', \<lambda>s. Some (True, s)),
       (''clear'', stay (\<lambda>s. Some (tty_log ClearLog s))),
       (''help'', stay (cmd_help E)),
       (''heap'', stay (\<lambda>s. Some (tty_log KheapStats s))),
       (''mdmp'', stay (cmd_mdmp (pk E) args)),
       (''ptwalk'', stay (cmd_ptwalk E args)),
       ('''', stay Some),
       (''break'', stay (\<lambda>s. Some (tty_log Breakpoint s))),
       (''kinfo'', stay (cmd_kinfo E)),
       (''sd'', stay (cmd_sd (pk E) (cur_esp E))),
       (''echo'', stay (cmd_echo (pk E) e args)),
       (''repeat'', stay (cmd_repeat (pk E) e args)),
       (''color'', stay (\<lambda>s. Some (tty_log (TextColor 10) s))),
       (''bgcolor'', stay (\<lambda>s. Some (tty_log (BgColor 8) s)))])"

definition run_cmd :: "kshell_env \<Rightarrow> ptr \<Rightarrow> 'z ttyst_scheme \<Rightarrow> (bool \<times> 'z ttyst_scheme) option" where
  "run_cmd E cmd s = do {
     (args, nx, m) \<leftarrow> tokenize (shell_env.truncate E) cmd (strtok_next s) (kmem s);
     let s = s\<lparr>kmem := m, strtok_next := nx\<rparr>;
     dispatch (shell_env.truncate E) (arg_at args 0) (kcommands E args)
       (stay (pk E (line ''sh: error: Unkown command'') [])) s
   }"

partial_function (option) shell_loop :: "kshell_env \<Rightarrow> 'z ttyst_scheme \<Rightarrow> 'z ttyst_scheme option" where
  "shell_loop E s = do {
     s \<leftarrow> pk E '' # '' [] s;
     (_, s) \<leftarrow> getlinek (k_input E) (cmd_buf E) 128 s;
     (exit, s) \<leftarrow> run_cmd E (cmd_buf E) s;
     if exit then pk E (line ''exiting shell...'') [] s else shell_loop E s
   }"

definition shell :: "kshell_env \<Rightarrow> 'z ttyst_scheme \<Rightarrow> 'z ttyst_scheme option" where
  "shell E s = do { s \<leftarrow> pk E (line '''') [] s; shell_loop E s }"

section \<open>The user's shell\<close>

record ushell_env = shell_env +
  u_input :: sys_input

definition pf :: "ushell_env \<Rightarrow> 'z ust_scheme print" where
  "pf E fmt args s = do {
     (_, s) \<leftarrow> printf (lit E ''(null)'') (pr_buffer E) (lit E fmt) args s;
     Some s
   }"

definition u_cmd_help :: "ushell_env \<Rightarrow> 'z ust_scheme \<Rightarrow> 'z ust_scheme option" where
  "u_cmd_help E = print_all (pf E)
     [line '''', line ''Leenix v0.1 shell'', line (line ''with a basic Command Line Interface (CLI)''),
      line ''Supported commands:'',
      line '' - ticks: get total system ticks since init'',
      line '' - clear: clears the display'',
      line '' - kinfo: print kernel memory info'',
      line ('' - mdmp <address> <size>: dump memory contents at '' @ replicate 5 (CHR 0x09) @
            ''address for size bytes''),
      line '' - sd: dump current stack contents'',
      line '' - heap: dump heap info'',
      line '' - ptwalk <vstart> <vend>: walk the PTs from vstart to vend'',
      line '' - open: open <filename>'',
      line '' - elf: elf <filename>'',
      line '' - break: trigger int3 breakpoint'',
      line '' - help: displays this message'',
      line '' - exit: quits and halts the system'']"

definition ucommands :: "ushell_env \<Rightarrow> ptr list \<Rightarrow> (string \<times> ('z ust_scheme \<Rightarrow> (bool \<times> 'z ust_scheme) option)) list" where
  "ucommands E args =
     (let e = shell_env.truncate E in
      [(''exit'', \<lambda>s. Some (True, s)),
       (''help'', stay (u_cmd_help E)),
       (''mdmp'', stay (cmd_mdmp (pf E) args)),
       ('''', stay Some),
       (''break'', stay (\<lambda>s. Some (s\<lparr>ulog := UserBreakpoint # ulog s\<rparr>))),
       (''kinfo'', stay Some),
       (''sd'', stay (cmd_sd (pf E) (cur_esp E))),
       (''echo'', stay (cmd_echo (pf E) e args)),
       (''repeat'', stay (cmd_repeat (pf E) e args))])"

definition u_run_cmd :: "ushell_env \<Rightarrow> ptr \<Rightarrow> 'z ust_scheme \<Rightarrow> (bool \<times> 'z ust_scheme) option" where
  "u_run_cmd E cmd s = do {
     (args, nx, m) \<leftarrow> tokenize (shell_env.truncate E) cmd (u_strtok_next s) (kmem s);
     let s = s\<lparr>kmem := m, u_strtok_next := nx\<rparr>;
     dispatch (shell_env.truncate E) (arg_at args 0) (ucommands E args)
       (stay (pf E (line ''sh: error: Unkown command'') [])) s
   }"

partial_function (option) u_main_loop :: "ushell_env \<Rightarrow> 'z ust_scheme \<Rightarrow> (u32 \<times> 'z ust_scheme) option" where
  "u_main_loop E s = do {
     s \<leftarrow> pf E '' $ '' [] s;
     (_, s) \<leftarrow> getline (u_input E) (cmd_buf E) 128 s;
     (exit, s) \<leftarrow> u_run_cmd E (cmd_buf E) s;
     if exit then do { s \<leftarrow> pf E (line ''exiting shell...'') [] s; Some (0, s) } else u_main_loop E s
   }"

definition u_main :: "ushell_env \<Rightarrow> 'z ust_scheme \<Rightarrow> (u32 \<times> 'z ust_scheme) option" where
  "u_main E s = do { s \<leftarrow> pf E (line '''') [] s; u_main_loop E s }"

end
