(* ===== verification/ShellRun.thy ===== *)
theory ShellRun
  imports ConsoleProps Shell
begin

text \<open>
  The command interpreter: how a line is cut into words, and that \<open>echo\<close> prints them.
\<close>

section \<open>Words of a line\<close>

fun join :: "u8 list list \<Rightarrow> u8 list" where
  "join [] = []"
| "join [w] = w"
| "join (w # v # ws) = w @ 32 # join (v # ws)"

definition is_word :: "u8 list \<Rightarrow> bool" where
  "is_word w \<longleftrightarrow> w \<noteq> [] \<and> 32 \<notin> set w"

text \<open>Where the words of a line are.\<close>

fun word_ptrs :: "ptr \<Rightarrow> u8 list list \<Rightarrow> ptr list" where
  "word_ptrs p [] = []"
| "word_ptrs p (w # ws) = p # word_ptrs (p + of_nat (Suc (length w))) ws"

lemma length_word_ptrs [simp]: "length (word_ptrs p ws) = length ws"
  by (induction ws arbitrary: p) simp_all

lemma takeWhile_word: "is_word w \<Longrightarrow> takeWhile (\<lambda>c. c \<notin> set [32]) (join (w # ws)) = w"
  by (cases ws) (auto simp: is_word_def takeWhile_append)

lemma join_Nil [simp]: "join ws = [] \<longleftrightarrow> ws = [] \<or> ws = [[]]"
  by (cases ws rule: join.cases) auto

text \<open>A call of \<open>strtok\<close> that goes on: the next word is cut off where it ends.\<close>

lemma strtok_next_word:
  assumes d: "cstr m d [32]" "d \<noteq> NULL" and c: "cstr m q (join (w # ws))" "q \<noteq> NULL" and w: "is_word w"
    and p: "(if p \<noteq> NULL then p else nx) = q"
  shows "strtok m nx p d =
    (if ws = [] then Some (q, NULL, m)
     else Some (q, q + of_nat (Suc (length w)), m(q + of_nat (length w) \<mapsto> 0)))"
proof -
  have "join (w # ws) \<noteq> []" using w by (auto simp: is_word_def)
  moreover have "w = join (w # ws) \<longleftrightarrow> ws = []" by (cases ws) auto
  ultimately show ?thesis
    using strtok_spec [OF d(1) _ p c(2,1) takeWhile_word [OF w]] d(2) by (auto simp: add.assoc)
qed

lemma unat_add_small: "unat p + n < 2 ^ 32 \<Longrightarrow> unat (p + of_nat n) = unat p + n" for p :: u32
  using unat_of_nat32 [of "unat p + n"] by simp

text \<open>The words a pointer and a position of \<open>strtok\<close> stand for, and the words that have been cut
  off.\<close>

definition words_at :: "mem \<Rightarrow> ptr list \<Rightarrow> u8 list list \<Rightarrow> bool" where
  "words_at m ps ws \<longleftrightarrow> list_all2 (cstr m) ps ws"

lemma cut_word:
  assumes c: "cstr m q (join (u # us))" and m1: "m1 = (if us = [] then m else m(q + of_nat (length u) \<mapsto> 0))"
  shows "cstr m1 q u" and "us \<noteq> [] \<Longrightarrow> cstr m1 (q + of_nat (Suc (length u))) (join us)"
    and "same_off q (Suc (length (join (u # us)))) m m1"
proof -
  have "cstr m1 q u \<and> (us \<noteq> [] \<longrightarrow> cstr m1 (q + of_nat (Suc (length u))) (join us)) \<and>
    same_off q (Suc (length (join (u # us)))) m m1"
  proof (cases us)
    case Nil
    then show ?thesis using c m1 by simp
  next
    case (Cons x xs)
    then have J: "join (u # us) = u @ 32 # join (x # xs)" by simp
    have q: "q + of_nat (Suc (length u)) = q + of_nat (length u) + 1" by simp
    have "m (q + of_nat (length u)) \<noteq> None" using cstr_nth(1) [OF c, of "length u"] J by auto
    then have "same_off q (Suc (length (join (u # us)))) m m1"
      using same_off_upd [of m q "length u" "Suc (length (join (u # us)))" 0] cstr_length [OF c] Cons m1 J by simp
    then show ?thesis
      using cstr_cut [OF c [unfolded J]] Cons m1 unfolding q by simp
  qed
  then show "cstr m1 q u" and "us \<noteq> [] \<Longrightarrow> cstr m1 (q + of_nat (Suc (length u))) (join us)"
    and "same_off q (Suc (length (join (u # us)))) m m1" by simp_all
qed

text \<open>The loop of \<open>run_cmd\<close>, when the current word has been cut off and the rest of the line follows
  it.\<close>

lemma tokens_run:
  assumes d: "cstr m (lit E '' '') [32]" "lit E '' '' \<noteq> NULL" and w: "\<forall>w \<in> set (v # ws). is_word w"
    and v: "cstr m p v" and rest: "if ws = [] then nx = NULL else nx = p + of_nat (Suc (length v)) \<and> cstr m nx (join ws)"
    and p: "p \<noteq> NULL" "unat p + length (join (v # ws)) < 2 ^ 32"
    and ap: "apart p (Suc (length (join (v # ws)))) (lit E '' '') 2"
  shows "\<exists>nx' m'. tokens_loop E k p args nx m = Some (args @ take k (word_ptrs p (v # ws)), nx', m') \<and>
    words_at m' (take k (word_ptrs p (v # ws))) (take k (v # ws)) \<and>
    same_off p (Suc (length (join (v # ws)))) m m'"
  using assms
proof (induction k arbitrary: m p v ws nx args)
  case 0
  then show ?case by (auto simp: words_at_def intro: exI [of _ nx] exI [of _ m])
next
  case (Suc k)
  note d = Suc.prems(1,2) and w = Suc.prems(3) and v = Suc.prems(4) and rest = Suc.prems(5) and p = Suc.prems(6,7)
    and ap = Suc.prems(8)
  show ?case
  proof (cases ws)
    case Nil
    then have nx: "nx = NULL" using rest by simp
    then have "tokens_loop E (Suc k) p args nx m = tokens_loop E k NULL (args @ [p]) NULL m"
      using p(1) by (simp add: strtok_def)
    also have "\<dots> = Some (args @ [p], NULL, m)" by (cases k) simp_all
    finally show ?thesis using v Nil by (auto simp: words_at_def)
  next
    case (Cons u us)
    let ?n = "Suc (length v)" and ?q = "p + of_nat (Suc (length v))"
    have L: "join (v # ws) = v @ 32 # join (u # us)" using Cons by simp
    have nx: "nx = ?q" "cstr m ?q (join (u # us))" using rest Cons by auto
    have uw: "is_word u" using w Cons by simp
    then have "u \<noteq> []" by (simp add: is_word_def)
    have bound: "unat p + ?n + length (join (u # us)) < 2 ^ 32" using p(2) L by simp
    have uq: "unat ?q = unat p + ?n" by (rule unat_add_small) (use bound in linarith)
    then have q0: "?q \<noteq> NULL" by (metis Suc_neq_Zero add_is_0 unat_0)
    define m1 where "m1 = (if us = [] then m else m(?q + of_nat (length u) \<mapsto> 0))"
    define nx1 where "nx1 = (if us = [] then NULL else ?q + of_nat (Suc (length u)))"
    have tok: "strtok m nx NULL (lit E '' '') = Some (?q, nx1, m1)"
      using strtok_next_word [OF d nx(2) q0 uw, of NULL nx] nx(1) by (simp add: m1_def nx1_def)
    note cw = cut_word [OF nx(2) m1_def]
    have off: "same_off ?q (Suc (length (join (u # us)))) m m1" by (rule cw(3))
    have cut: "cstr m1 ?q u" "us \<noteq> [] \<Longrightarrow> cstr m1 nx1 (join us)"
      using cw(1,2) by (simp_all add: nx1_def)
    have apq: "apart ?q (Suc (length (join (u # us)))) (lit E '' '') 2"
      using apart_sub [OF ap, of ?n "Suc (length (join (u # us)))" 0 2] L by simp
    have d1: "cstr m1 (lit E '' '') [32]"
      using same_off_cstr [OF off _ d(1)] apq by (simp add: numeral_2_eq_2)
    have "\<exists>nx' m'. tokens_loop E k ?q (args @ [p]) nx1 m1 =
        Some ((args @ [p]) @ take k (word_ptrs ?q (u # us)), nx', m') \<and>
        words_at m' (take k (word_ptrs ?q (u # us))) (take k (u # us)) \<and>
        same_off ?q (Suc (length (join (u # us)))) m1 m'"
      by (rule Suc.IH) (use d1 d(2) w Cons cut q0 bound uq apq in \<open>auto simp: nx1_def\<close>)
    then obtain nx' m' where run: "tokens_loop E k ?q (args @ [p]) nx1 m1 =
        Some ((args @ [p]) @ take k (word_ptrs ?q (u # us)), nx', m')"
      "words_at m' (take k (word_ptrs ?q (u # us))) (take k (u # us))"
      "same_off ?q (Suc (length (join (u # us)))) m1 m'" by blast
    have off': "same_off ?q (Suc (length (join (u # us)))) m m'" by (rule same_off_trans [OF off run(3)])
    have "apart ?q (Suc (length (join (u # us)))) p (Suc (length v))"
      using apart_next [of ?n "Suc (length (join (u # us)))" p] bound by simp
    from same_off_cstr [OF off' this v] have "cstr m' p v" .
    moreover have "same_off p (Suc (length (join (v # ws)))) m m'"
      by (rule same_off_sub [OF off']) (simp add: L)
    ultimately show ?thesis
      using tok run p(1) Cons by (auto simp: words_at_def)
  qed
qed

lemma tokenize_words:
  assumes d: "cstr m (lit E '' '') [32]" "lit E '' '' \<noteq> NULL" and w: "\<forall>w \<in> set (v # ws). is_word w"
    and c: "cstr m p (join (v # ws))" and p: "p \<noteq> NULL" "unat p + length (join (v # ws)) < 2 ^ 32"
    and ap: "apart p (Suc (length (join (v # ws)))) (lit E '' '') 2"
  shows "\<exists>nx' m'. tokenize E p nx m = Some (take 4 (word_ptrs p (v # ws)), nx', m') \<and>
    words_at m' (take 4 (word_ptrs p (v # ws))) (take 4 (v # ws)) \<and>
    same_off p (Suc (length (join (v # ws)))) m m'"
proof -
  define m1 where "m1 = (if ws = [] then m else m(p + of_nat (length v) \<mapsto> 0))"
  define nx1 where "nx1 = (if ws = [] then NULL else p + of_nat (Suc (length v)))"
  have tok: "strtok m nx p (lit E '' '') = Some (p, nx1, m1)"
    using strtok_next_word [OF d c p(1), of p nx] w p(1) by (simp add: m1_def nx1_def)
  note cw = cut_word [OF c m1_def]
  have off: "same_off p (Suc (length (join (v # ws)))) m m1" by (rule cw(3))
  have cut: "cstr m1 p v" "ws \<noteq> [] \<Longrightarrow> cstr m1 nx1 (join ws)"
    using cw(1,2) by (simp_all add: nx1_def)
  have d1: "cstr m1 (lit E '' '') [32]"
    using same_off_cstr [OF off _ d(1)] ap by (simp add: numeral_2_eq_2)
  have "if ws = [] then nx1 = NULL else nx1 = p + of_nat (Suc (length v)) \<and> cstr m1 nx1 (join ws)"
    using cut(2) by (simp add: nx1_def)
  note run = tokens_run [OF d1 d(2) w cut(1) this p ap, of 4 "[]"]
  have "\<exists>nx' m'. tokens_loop E 4 p [] nx1 m1 = Some (take 4 (word_ptrs p (v # ws)), nx', m') \<and>
    words_at m' (take 4 (word_ptrs p (v # ws))) (take 4 (v # ws)) \<and>
    same_off p (Suc (length (join (v # ws)))) m1 m'"
    using run unfolding append_Nil .
  then obtain nx' m' where
    t: "tokens_loop E 4 p [] nx1 m1 = Some (take 4 (word_ptrs p (v # ws)), nx', m')"
    "words_at m' (take 4 (word_ptrs p (v # ws))) (take 4 (v # ws))"
    "same_off p (Suc (length (join (v # ws)))) m1 m'" by (elim exE conjE)
  have "tokenize E p nx m = Some (take 4 (word_ptrs p (v # ws)), nx', m')"
    by (simp only: tokenize_def tok bind.bind_lunit prod.case t(1))
  with t(2) same_off_trans [OF off t(3)] show ?thesis by (intro exI conjI)
qed

text \<open>Every word lies inside the line.\<close>

lemma word_ptrs_in:
  "list_all2 (\<lambda>q w. \<exists>i. q = p + of_nat i \<and> i + length w \<le> length (join ws)) (word_ptrs p ws) ws"
proof (induction ws arbitrary: p rule: join.induct)
  case (3 w v ws)
  let ?q = "p + of_nat (Suc (length w))"
  have "list_all2 (\<lambda>q x. \<exists>i. q = p + of_nat i \<and> i + length x \<le> length (join (w # v # ws))) (word_ptrs ?q (v # ws)) (v # ws)"
  proof (rule list_all2_mono [OF "3.IH" [of ?q]])
    fix q x
    assume "\<exists>i. q = ?q + of_nat i \<and> i + length x \<le> length (join (v # ws))"
    then obtain i where i: "q = ?q + of_nat i" "i + length x \<le> length (join (v # ws))" by blast
    then have "q = p + of_nat (Suc (length w) + i)" by (simp add: add.assoc)
    then show "\<exists>i. q = p + of_nat i \<and> i + length x \<le> length (join (w # v # ws))"
      using i(2) by (intro exI [of _ "Suc (length w) + i"]) simp
  qed
  then show ?case by (auto intro: exI [of _ 0])
qed auto

section \<open>Joining the arguments\<close>

lemma strcat_run:
  assumes T: "cstr m p T" and w: "cstr m a w" and ap: "apart p n a (Suc (length w))" and map: "mapped m p n"
    and len: "length T + length w < n" "n \<le> 2 ^ 31"
  shows "\<exists>m'. strcat m p a = Some (p, m') \<and> cstr m' p (T @ w) \<and> same_off p n m m'"
proof -
  let ?q = "p + of_nat (length T)"
  let ?m = "put m ?q (w @ [0])"
  have "mapped m ?q (Suc (length w))" using mapped_sub [OF map, of "length T" "Suc (length w)"] len by simp
  moreover have "apart ?q (Suc (length w)) a (Suc (length w))"
    using apart_sub [OF ap, of "length T" "Suc (length w)" 0] len by simp
  ultimately have run: "strcat m p a = Some (p, ?m)" by (rule strcat_put [OF T w])
  have "apart ?q (length (w @ [0])) p (length T)" using apart_next [of "length T" "Suc (length w)" p] len by simp
  from fetch_put_apart [OF this] have "fetch ?m p (length T) = Some T"
    using T by (metis append_Nil2 cstr_append)
  moreover have "0 \<notin> set T" "0 \<notin> set w" using T w cstr_nonzero by blast+
  moreover have "cstr ?m ?q w" using \<open>0 \<notin> set w\<close> len by (intro cstr_put) simp_all
  ultimately have "cstr ?m p (T @ w)" by (simp add: cstr_append)
  moreover have "same_off p n m ?m"
    by (rule same_off_sub [OF same_off_put [of "w @ [0]" "Suc (length w)"]]) (use len in simp_all)
  ultimately show ?thesis using run by blast
qed

definition apart_from :: "ptr \<Rightarrow> nat \<Rightarrow> ptr list \<Rightarrow> u8 list list \<Rightarrow> bool" where
  "apart_from p n ps ws \<longleftrightarrow> list_all2 (\<lambda>q w. apart p n q (Suc (length w))) ps ws"

lemma words_at_off:
  "same_off p n m m' \<Longrightarrow> apart_from p n ps ws \<Longrightarrow> words_at m ps ws \<Longrightarrow> words_at m' ps ws"
  unfolding words_at_def apart_from_def list_all2_conv_all_nth using same_off_cstr by blast

abbreviation spaced :: "u8 list list \<Rightarrow> u8 list" where
  "spaced ws \<equiv> concat (map (\<lambda>w. w @ [32]) ws)"

lemma append_args_run:
  assumes sp: "apart (str_buf E) 1024 (lit E '' '') 2"
  shows "words_at m ps ws \<Longrightarrow> apart_from (str_buf E) 1024 ps ws \<Longrightarrow> cstr m (lit E '' '') [32] \<Longrightarrow>
    mapped m (str_buf E) 1024 \<Longrightarrow> cstr m (str_buf E) T \<Longrightarrow> length T + length (spaced ws) < 1024 \<Longrightarrow>
    \<exists>m'. append_args E ps m = Some m' \<and> cstr m' (str_buf E) (T @ spaced ws) \<and> same_off (str_buf E) 1024 m m'"
proof (induction ps arbitrary: m ws T)
  case Nil
  then show ?case by (auto simp: words_at_def intro: exI [of _ m])
next
  case (Cons a ps)
  then obtain w us where ws: "ws = w # us" by (cases ws) (auto simp: words_at_def)
  have a: "cstr m a w" "apart (str_buf E) 1024 a (Suc (length w))" and us: "words_at m ps us" "apart_from (str_buf E) 1024 ps us"
    using Cons.prems(1,2) ws by (simp_all add: words_at_def apart_from_def)
  have l: "length T + length w < 1024" "length (T @ w) + length [32 :: u8] < 1024"
    "length ((T @ w) @ [32]) + length (spaced us) < 1024" using Cons.prems(6) ws by simp_all
  obtain m1 where m1: "strcat m (str_buf E) a = Some (str_buf E, m1)" "cstr m1 (str_buf E) (T @ w)"
    "same_off (str_buf E) 1024 m m1"
    using strcat_run [OF Cons.prems(5) a Cons.prems(4) l(1)] by auto
  have sp1: "cstr m1 (lit E '' '') [32]" using same_off_cstr [OF m1(3) _ Cons.prems(3)] sp by (simp add: numeral_2_eq_2)
  have apsp: "apart (str_buf E) 1024 (lit E '' '') (Suc (length [32 :: u8]))" using sp by (simp add: numeral_2_eq_2)
  obtain m2 where m2: "strcat m1 (str_buf E) (lit E '' '') = Some (str_buf E, m2)" "cstr m2 (str_buf E) ((T @ w) @ [32])"
    "same_off (str_buf E) 1024 m1 m2"
    using strcat_run [OF m1(2) sp1 apsp same_off_mapped [OF m1(3) Cons.prems(4)] l(2)] by auto
  have off: "same_off (str_buf E) 1024 m m2" by (rule same_off_trans [OF m1(3) m2(3)])
  have sp2: "cstr m2 (lit E '' '') [32]" using same_off_cstr [OF off apsp Cons.prems(3)] .
  obtain m3 where "append_args E ps m2 = Some m3" "cstr m3 (str_buf E) (((T @ w) @ [32]) @ spaced us)"
    "same_off (str_buf E) 1024 m2 m3"
    using Cons.IH [OF words_at_off [OF off us(2,1)] us(2) sp2 same_off_mapped [OF off Cons.prems(4)] m2(2) l(3)] by blast
  then show ?case using m1(1) m2(1) same_off_trans [OF off] ws by auto
qed

lemma spaced_join: "ws \<noteq> [] \<Longrightarrow> spaced ws = join ws @ [32]"
  by (induction ws rule: join.induct) simp_all

lemma cleared_run:
  assumes "mapped m p 1024"
  shows "cstr (put m p (replicate 1024 0)) p []" and "same_off p 1024 m (put m p (replicate 1024 0))"
  by (simp_all add: put_def same_off_def)

lemma join_args_run:
  assumes w: "words_at m ps ws" "apart_from (str_buf E) 1024 ps ws" and sp: "apart (str_buf E) 1024 (lit E '' '') 2"
    "cstr m (lit E '' '') [32]" and map: "mapped m (str_buf E) 1024" and len: "length (join ws) < 1023" and ws: "ws \<noteq> []"
  shows "\<exists>m'. join_args E ps m = Some m' \<and> cstr m' (str_buf E) (join ws) \<and> same_off (str_buf E) 1024 m m'"
proof -
  let ?p = "str_buf E" and ?m0 = "put m (str_buf E) (replicate 1024 0)"
  note c0 = cleared_run [OF map]
  have sp0: "cstr ?m0 (lit E '' '') [32]" using same_off_cstr [OF c0(2) _ sp(2)] sp(1) by (simp add: numeral_2_eq_2)
  obtain m1 where m1: "append_args E ps ?m0 = Some m1" "cstr m1 ?p (join ws @ [32])" "same_off ?p 1024 ?m0 m1"
    using append_args_run [OF sp(1) words_at_off [OF c0(2) w(2,1)] w(2) sp0 same_off_mapped [OF c0(2) map] c0(1)]
      spaced_join [OF ws] len by auto
  let ?q = "?p + of_nat (length (join ws))"
  have n: "strlen m1 ?p = Some (of_nat (length (join ws)) + 1)" using strlen_cstr [OF m1(2)] by (simp add: add.commute)
  have "m1 ?q \<noteq> None" using cstr_nth(1) [OF m1(2), of "length (join ws)"] by simp
  then have st: "st8 m1 ?q 0 = Some (m1(?q \<mapsto> 0))" and "same_off ?p 1024 m1 (m1(?q \<mapsto> 0))"
    using same_off_upd [of m1 ?p "length (join ws)" 1024 0] len by (simp_all add: st8_def)
  then have "same_off ?p 1024 m (m1(?q \<mapsto> 0))" using same_off_trans c0(2) m1(3) by blast
  moreover have "join_args E ps m = Some (m1(?q \<mapsto> 0))"
    using map m1(1) n st by (simp add: join_args_def)
  moreover have "cstr (m1(?q \<mapsto> 0)) ?p (join ws)" using cstr_cut(1) [of m1 ?p "join ws" 32 "[]"] m1(2) by simp
  ultimately show ?thesis by blast
qed

section \<open>Choosing the command\<close>

lemma dispatch_found:
  assumes "cstr (kmem s) c w"
  shows "\<forall>x \<in> set cs. cstr (kmem s) (lit E (fst x)) (bytes_of (fst x)) \<Longrightarrow>
    dispatch E c cs other s = (case find (\<lambda>x. bytes_of (fst x) = w) cs of Some x \<Rightarrow> snd x s | None \<Rightarrow> other s)"
proof (induction cs)
  case (Cons x cs)
  obtain n a where x: "x = (n, a)" by (cases x)
  have l: "cstr (kmem s) (lit E n) (bytes_of n)" using Cons.prems x by simp
  obtain r where r: "strcmp (kmem s) c (lit E n) = Some r" "r = 0 \<longleftrightarrow> bytes_of n = w"
    using strcmp_cmp_bytes [OF assms l] strcmp_eq_0_iff [OF assms l] by auto
  then show ?case using Cons x by auto
qed simp

text \<open>The literals the shells use, and where things are: the literals in memory, outside the line and the
  two arrays, which are apart from each other.\<close>

definition shell_lits :: "string list" where
  "shell_lits = [''exit'', ''clear'', ''help'', ''heap'', ''mdmp'', ''ptwalk'', '''', ''break'', ''kinfo'', ''sd'',
     ''echo'', ''repeat'', ''color'', ''bgcolor'', '' '', line ''%s'']"

definition shell_mem :: "kshell_env \<Rightarrow> mem \<Rightarrow> ptr \<Rightarrow> bool" where
  "shell_mem E m cmd \<longleftrightarrow>
     (\<forall>x \<in> set shell_lits. cstr m (lit E x) (bytes_of x) \<and> apart cmd 128 (lit E x) (Suc (length x)) \<and>
        apart (str_buf E) 1024 (lit E x) (Suc (length x)) \<and> apart (pr_buffer E) 1024 (lit E x) (Suc (length x))) \<and>
     mapped m (str_buf E) 1024 \<and> mapped m (pr_buffer E) 1024 \<and> lit E '' '' \<noteq> NULL \<and> str_buf E \<noteq> NULL \<and>
     pr_buffer E \<noteq> NULL \<and> cmd \<noteq> NULL \<and> unat cmd + 128 < 2 ^ 32 \<and>
     apart (str_buf E) 1024 cmd 128 \<and> apart (pr_buffer E) 1024 (str_buf E) 1024"

lemma shell_lit:
  assumes "shell_mem E m cmd" and "x \<in> set shell_lits"
  shows "cstr m (lit E x) (bytes_of x)" and "apart cmd 128 (lit E x) (Suc (length x))"
    and "apart (str_buf E) 1024 (lit E x) (Suc (length x))" and "apart (pr_buffer E) 1024 (lit E x) (Suc (length x))"
  using assms unfolding shell_mem_def by blast+

lemma shell_lits_used: "line ''%s'' \<in> set shell_lits" "'' '' \<in> set shell_lits"
  by (simp_all add: shell_lits_def)

lemma length_bytes_of [simp]: "length (bytes_of x) = length x"
  by (simp add: bytes_of_def)

lemma shell_mem_off:
  assumes "shell_mem E m cmd" and "same_off p n m m'" and "(p, n) = (cmd, 128) \<or> (p, n) = (str_buf E, 1024)"
  shows "shell_mem E m' cmd"
proof -
  have "cstr m' (lit E x) (bytes_of x)" if "x \<in> set shell_lits" for x
    using assms same_off_cstr [OF assms(2), of "lit E x" "bytes_of x"] that unfolding shell_mem_def by auto
  then show ?thesis using assms(1) same_off_mapped [OF assms(2)] unfolding shell_mem_def by blast
qed

lemma bytes_names:
  "bytes_of ''exit'' = [101, 120, 105, 116]" "bytes_of ''clear'' = [99, 108, 101, 97, 114]"
  "bytes_of ''help'' = [104, 101, 108, 112]" "bytes_of ''heap'' = [104, 101, 97, 112]"
  "bytes_of ''mdmp'' = [109, 100, 109, 112]" "bytes_of ''ptwalk'' = [112, 116, 119, 97, 108, 107]"
  "bytes_of '''' = []" "bytes_of ''break'' = [98, 114, 101, 97, 107]" "bytes_of ''kinfo'' = [107, 105, 110, 102, 111]"
  "bytes_of ''sd'' = [115, 100]" "bytes_of ''echo'' = [101, 99, 104, 111]" "bytes_of '' '' = [32]"
  "bytes_of (line ''%s'') = [37, 115, 10]"
  by (simp_all add: bytes_of_def line_def)

lemma lits_mem: "x \<in> set shell_lits \<longleftrightarrow> x \<in> {''exit'', ''clear'', ''help'', ''heap'', ''mdmp'', ''ptwalk'', '''', ''break'',
    ''kinfo'', ''sd'', ''echo'', ''repeat'', ''color'', ''bgcolor'', '' '', line ''%s''}"
  by (simp add: shell_lits_def)

lemma find_echo:
  "find (\<lambda>x. bytes_of (fst x) = bytes_of ''echo'') (kcommands E args) = Some (''echo'', stay (cmd_echo (pk E) (shell_env.truncate E) args))"
  by (simp add: kcommands_def Let_def bytes_names)

lemma kcommands_lits: "fst ` set (kcommands E args) \<subseteq> set shell_lits"
  by (simp add: kcommands_def Let_def shell_lits_def)

lemma truncate_sel [simp]:
  "lit (shell_env.truncate E) = lit E" "str_buf (shell_env.truncate E) = str_buf E"
  by (cases E; simp add: shell_env.defs)+

lemma apart_from_words:
  assumes "apart p n cmd 128" and "length (join ws) < 128"
  shows "apart_from p n (word_ptrs cmd ws) ws"
  unfolding apart_from_def
proof (rule list_all2_mono [OF word_ptrs_in])
  fix q w
  assume "\<exists>i. q = cmd + of_nat i \<and> i + length w \<le> length (join ws)"
  then obtain i where "q = cmd + of_nat i" "i + Suc (length w) \<le> 128" using assms(2) by auto
  then show "apart p n q (Suc (length w))" using apart_sub [OF assms(1), of 0 n i "Suc (length w)"] by simp
qed

text \<open>Printing a string on a line of its own.\<close>

lemma print_line:
  assumes sm: "shell_mem E (kmem s) cmd" and c: "cstr (kmem s) (str_buf E) xs" "length xs < 1022" and h: "uart_drains (k_hw E)"
  shows "\<exists>s'. pk E (''%s'' @ [CHR 0x0A]) [str_buf E] s = Some s' \<and> tlog s' = WriteString (xs @ [10]) # tlog s \<and>
    outs s' = outs s @ map (Pair 0x3F8) (crlf (xs @ [10]))"
proof -
  let ?is = "[Str plain (str_buf E) xs, Lit 10]"
  have F: "''%s'' @ [CHR 0x0A] = line ''%s''" by (simp add: line_def)
  have enc: "concat (map encode ?is) = [37, 115, 10]" by (simp add: spec_text_def)
  have "length (line ''%s'') = length [37, 115, 10 :: u8]" by (simp add: line_def)
  then have L: "cstr (kmem s) (lit E (line ''%s'')) [37, 115, 10]"
    "apart (pr_buffer E) 1024 (lit E (line ''%s'')) (Suc (length [37, 115, 10 :: u8]))"
    using shell_lit [OF sm shell_lits_used(1)] bytes_names(13) by metis+
  have fa: "format_at (kmem s) (pr_buffer E) BUFFER_SIZE (lit E (line ''%s'')) (concat (map encode ?is))"
    unfolding enc using sm L by (simp add: format_at_def shell_mem_def BUFFER_SIZE_def)
  have "apart (pr_buffer E) 1024 (str_buf E) (Suc (length xs))"
    using sm apart_mono [of "pr_buffer E" 1024 "str_buf E" 1024 1024 "Suc (length xs)"] c(2) by (simp add: shell_mem_def)
  then have ok: "\<forall>i \<in> set ?is. item_ok (kmem s) (pr_buffer E) BUFFER_SIZE (lit E ''(null)'') i"
    using sm c(1) by (auto simp: shell_mem_def BUFFER_SIZE_def demo_spec_ok)
  have T: "fmt_text ?is = xs @ [10]" by (simp add: fmt_text_def in_field_def pad_field_def)
  have "length (fmt_text ?is) < 2 ^ 31" "take 1023 (xs @ [10]) = xs @ [10]" using c(2) T by simp_all
  with printk_text [OF fa ok _ h, of "[]"] show ?thesis
    unfolding F T by (auto simp: pk_def)
qed

text \<open>Running a line whose first word has been found.\<close>

lemma run_cmd_words:
  assumes sm: "shell_mem E (kmem s) cmd" and c: "cstr (kmem s) cmd (join (v # ws))" "length (join (v # ws)) < 128"
    and w: "\<forall>w \<in> set (v # ws). is_word w"
  shows "\<exists>nx m args. run_cmd E cmd s =
      (case find (\<lambda>x. bytes_of (fst x) = v) (kcommands E args) of
         Some x \<Rightarrow> snd x (s\<lparr>kmem := m, strtok_next := nx\<rparr>)
       | None \<Rightarrow> stay (pk E (line ''sh: error: Unkown command'') []) (s\<lparr>kmem := m, strtok_next := nx\<rparr>)) \<and>
    args = take 4 (word_ptrs cmd (v # ws)) \<and> words_at m args (take 4 (v # ws)) \<and> shell_mem E m cmd \<and> same_off cmd 128 (kmem s) m"
proof -
  have sp: "cstr (kmem s) (lit E '' '') [32]" "lit E '' '' \<noteq> NULL" "apart cmd 128 (lit E '' '') 2"
    using shell_lit [OF sm shell_lits_used(2)] sm bytes_names(12) by (simp_all add: shell_mem_def numeral_2_eq_2)
  have ap: "apart cmd (Suc (length (join (v # ws)))) (lit E '' '') 2" using apart_mono [OF sp(3)] c(2) by simp
  have p: "cmd \<noteq> NULL" "unat cmd + length (join (v # ws)) < 2 ^ 32" using sm c(2) by (auto simp: shell_mem_def)
  obtain nx m where tok: "tokenize (shell_env.truncate E) cmd (strtok_next s) (kmem s) =
      Some (take 4 (word_ptrs cmd (v # ws)), nx, m)"
    "words_at m (take 4 (word_ptrs cmd (v # ws))) (take 4 (v # ws))"
    "same_off cmd (Suc (length (join (v # ws)))) (kmem s) m"
    using tokenize_words [of "kmem s" "shell_env.truncate E", OF _ _ w c(1) p, of "strtok_next s"] sp ap
    by (simp only: truncate_sel) blast
  have off: "same_off cmd 128 (kmem s) m"
    using same_off_sub [of cmd 0 "Suc (length (join (v # ws)))" "kmem s" m 128] tok(3) c(2) by simp
  from shell_mem_off [OF sm off] have sm': "shell_mem E m cmd" by simp
  let ?args = "take 4 (word_ptrs cmd (v # ws))" and ?s = "s\<lparr>kmem := m, strtok_next := nx\<rparr>"
  have a0: "arg_at ?args 0 = cmd" by (simp add: arg_at_def)
  have "cstr m cmd v" using tok(2) by (simp add: words_at_def)
  then have "dispatch (shell_env.truncate E) cmd (kcommands E ?args)
      (stay (pk E (line ''sh: error: Unkown command'') [])) ?s =
      (case find (\<lambda>x. bytes_of (fst x) = v) (kcommands E ?args) of
         Some x \<Rightarrow> snd x ?s | None \<Rightarrow> stay (pk E (line ''sh: error: Unkown command'') []) ?s)"
    using kcommands_lits [of E ?args] sm' by (intro dispatch_found) (auto simp: shell_mem_def)
  then show ?thesis
    using tok(1,2) sm' a0 off by (intro exI [of _ nx] exI [of _ m] exI [of _ ?args]) (simp only: run_cmd_def bind.bind_lunit prod.case Let_def)
qed

lemma run_echo:
  assumes sm: "shell_mem E (kmem s) cmd" and c: "cstr (kmem s) cmd (join (bytes_of ''echo'' # ws))"
    and len: "length (join (bytes_of ''echo'' # ws)) < 128" and w: "\<forall>w \<in> set ws. is_word w"
  obtains nx m args where "run_cmd E cmd s = stay (cmd_echo (pk E) (shell_env.truncate E) args) (s\<lparr>kmem := m, strtok_next := nx\<rparr>)"
    and "args = take 4 (word_ptrs cmd (bytes_of ''echo'' # ws))" and "words_at m args (take 4 (bytes_of ''echo'' # ws))"
    and "shell_mem E m cmd" and "same_off cmd 128 (kmem s) m"
proof -
  have "\<forall>w \<in> set (bytes_of ''echo'' # ws). is_word w" using w by (simp add: bytes_names is_word_def)
  from run_cmd_words [OF sm c len this] obtain nx m args where
    "run_cmd E cmd s = (case find (\<lambda>x. bytes_of (fst x) = bytes_of ''echo'') (kcommands E args) of
         Some x \<Rightarrow> snd x (s\<lparr>kmem := m, strtok_next := nx\<rparr>)
       | None \<Rightarrow> stay (pk E (line ''sh: error: Unkown command'') []) (s\<lparr>kmem := m, strtok_next := nx\<rparr>))"
    "args = take 4 (word_ptrs cmd (bytes_of ''echo'' # ws))" "words_at m args (take 4 (bytes_of ''echo'' # ws))"
    "shell_mem E m cmd" "same_off cmd 128 (kmem s) m" by (elim exE conjE)
  then show thesis by (intro that) (simp_all only: find_echo option.case snd_conv)
qed

end
