(* ===== verification/ShellDemo.thy ===== *)
theory ShellDemo
  imports ShellRun SchedDemo
begin

text \<open>
  A concrete machine for the witnesses about the shell: the literals in blocks of 32 bytes at address 4096,
  the line at 8192, the array of \<open>echo\<close> at 16384, the buffer of \<open>printk\<close> at 32768, and a serial port
  that is always ready.
\<close>

definition lit_index :: "string \<Rightarrow> nat" where
  "lit_index x = length (takeWhile (\<lambda>y. y \<noteq> x) shell_lits)"

definition demo_lits :: "u8 list" where
  "demo_lits = concat (map (\<lambda>x. pad_to 32 (bytes_of x)) shell_lits)"

definition demo_line :: "u8 list \<Rightarrow> mem" where
  "demo_line L = put (put (\<lambda>_. Some 0) 4096 demo_lits) 8192 (L @ [0])"

definition ready_port :: hw where
  "ready_port = \<lparr>hw_in = \<lambda>_ _. 0x60, hw_irqs = \<lambda>_. [], hw_dma = \<lambda>_. (0, [])\<rparr>"

definition demo_shell :: kshell_env where
  "demo_shell = \<lparr>lit = \<lambda>x. 4096 + of_nat (32 * lit_index x), pr_buffer = 32768, str_buf = 16384, cmd_buf = 8192,
     cur_esp = 0, k_hw = ready_port, k_pagedir = 0, k_start = 0, k_end = 0, k_input = \<lambda>_ _. []\<rparr>"

definition demo_tty :: "mem \<Rightarrow> ttyst" where
  "demo_tty m = procst.extend (blank_kernel\<lparr>kmem := m\<rparr>) (ttyst.fields [] NULL)"

lemma demo_tty_sel [simp]: "kmem (demo_tty m) = m" "tlog (demo_tty m) = []" "io (demo_tty m) = []"
  by (simp_all add: demo_tty_def blank_kernel_def procst.defs ttyst.defs)

lemma ready_port_drains: "uart_drains ready_port"
  by (auto simp: ready_port_def uart_drains_def drained_def LINESTAT_THR_EMPTY_def)

lemma drop_concat: "\<forall>x \<in> set xss. length x = n \<Longrightarrow> drop (n * j) (concat xss) = concat (drop j xss)"
proof (induction j arbitrary: xss)
  case (Suc j)
  then show ?case by (cases xss) simp_all
qed simp

lemma lits_length: "\<forall>x \<in> set shell_lits. length x < 32" "length shell_lits = 16"
  by (simp_all add: shell_lits_def line_def)

lemma lits_nonzero: "\<forall>x \<in> set shell_lits. 0 \<notin> set (bytes_of x)"
  by (simp add: shell_lits_def line_def bytes_of_def)

lemma demo_lits_length: "length demo_lits = 512"
proof -
  have "map length (map (\<lambda>x. pad_to 32 (bytes_of x)) shell_lits) = replicate 16 32"
    by (simp add: map_replicate_const lits_length comp_def)
  then show ?thesis by (simp only: demo_lits_def length_concat) (simp add: sum_list_replicate)
qed

lemma lit_index_nth: "x \<in> set shell_lits \<Longrightarrow> lit_index x < 16 \<and> shell_lits ! lit_index x = x"
proof -
  assume x: "x \<in> set shell_lits"
  then have l: "lit_index x < length shell_lits"
    unfolding lit_index_def
    by (metis (mono_tags, lifting) length_takeWhile_le nat_less_le set_takeWhileD takeWhile_eq_take take_all_iff order_refl)
  then have "\<not> shell_lits ! lit_index x \<noteq> x" unfolding lit_index_def by (rule nth_length_takeWhile)
  with l show ?thesis by (simp add: lits_length)
qed

lemma demo_lit_fetch:
  assumes "x \<in> set shell_lits" and "length L < 128"
  shows "fetch (demo_line L) (lit demo_shell x) (Suc (length x)) = Some (bytes_of x @ [0])"
    and "apart p n 4096 512 \<Longrightarrow> apart p n (lit demo_shell x) (Suc (length x))"
proof -
  let ?i = "lit_index x" and ?k = "Suc (length x)"
  have i: "?i < 16" "shell_lits ! ?i = x" and len: "length x < 32"
    using lit_index_nth [OF assms(1)] lits_length(1) assms(1) by auto
  have lit: "lit demo_shell x = 4096 + of_nat (32 * ?i)" by (simp add: demo_shell_def)
  have sub: "32 * ?i + ?k \<le> 512" using i(1) len by linarith
  have blocks: "\<forall>b \<in> set (map (\<lambda>x. pad_to 32 (bytes_of x)) shell_lits). length b = 32" by simp
  have "drop (32 * ?i) demo_lits = concat (drop ?i (map (\<lambda>x. pad_to 32 (bytes_of x)) shell_lits))"
    unfolding demo_lits_def by (rule drop_concat [OF blocks])
  also have "drop ?i (map (\<lambda>x. pad_to 32 (bytes_of x)) shell_lits) =
      pad_to 32 (bytes_of x) # drop (Suc ?i) (map (\<lambda>x. pad_to 32 (bytes_of x)) shell_lits)"
    using i by (simp add: Cons_nth_drop_Suc [symmetric] lits_length)
  finally have "take ?k (drop (32 * ?i) demo_lits) = take ?k (pad_to 32 (bytes_of x))" using len by simp
  also have "\<dots> = bytes_of x @ [0]"
    using len by (simp add: pad_to_def Suc_diff_le)
  finally have tk: "take ?k (drop (32 * ?i) demo_lits) = bytes_of x @ [0]" .
  have "fetch (put (\<lambda>_. Some 0) 4096 demo_lits) 4096 512 = Some demo_lits"
    using fetch_put_same [of demo_lits "\<lambda>_. Some 0" 4096] demo_lits_length by simp
  from fetch_sub [OF this sub] have "fetch (put (\<lambda>_. Some 0) 4096 demo_lits) (lit demo_shell x) ?k = Some (bytes_of x @ [0])"
    by (simp only: tk lit)
  moreover have "apart (8192 :: u32) (length (L @ [0])) (lit demo_shell x) ?k"
  proof -
    have "apart (8192 :: u32) 129 4096 512" by (simp add: apart_def)
    from apart_sub [OF this, of 0 "length (L @ [0])" "32 * ?i" ?k] show ?thesis using assms(2) sub lit by simp
  qed
  ultimately show "fetch (demo_line L) (lit demo_shell x) ?k = Some (bytes_of x @ [0])"
    unfolding demo_line_def by (simp only: fetch_put_apart)
  show "apart p n (lit demo_shell x) ?k" if "apart p n 4096 512"
    using apart_sub [OF that, of 0 n "32 * ?i" ?k] sub lit by simp
qed

lemma demo_shell_mem:
  assumes "length L < 128"
  shows "shell_mem demo_shell (demo_line L) 8192"
proof -
  have m: "mapped (demo_line L) p n" for p n by (simp add: demo_line_def mapped_iff put_def)
  have ap: "apart (8192 :: u32) 128 4096 512" "apart (16384 :: u32) 1024 4096 512" "apart (32768 :: u32) 1024 4096 512"
    "apart (16384 :: u32) 1024 8192 128" "apart (32768 :: u32) 1024 16384 1024" by (simp_all add: apart_def)
  have E: "str_buf demo_shell = 16384" "pr_buffer demo_shell = 32768" by (simp_all add: demo_shell_def)
  have nn: "lit demo_shell '' '' \<noteq> NULL" by (simp add: demo_shell_def lit_index_def shell_lits_def)
  have "cstr (demo_line L) (lit demo_shell x) (bytes_of x)" if "x \<in> set shell_lits" for x
    using demo_lit_fetch(1) [OF that assms] lits_nonzero that by (simp add: cstr_iff_fetch del: fetch.simps)
  then show ?thesis
    unfolding shell_mem_def E using m ap nn demo_lit_fetch(2) [OF _ assms] by auto
qed

lemma demo_line_cstr: "0 \<notin> set L \<Longrightarrow> length L < 128 \<Longrightarrow> cstr (demo_line L) 8192 L"
  unfolding demo_line_def by (rule cstr_put) simp_all

end
