(* ===== verification/ShellProps.thy ===== *)
theory ShellProps
  imports ShellDemo
begin

text \<open>
  The properties of printing and of the command interpreter: what \<open>printk\<close> sends, what \<open>printf\<close> gives
  away, that \<open>echo\<close> prints its words, and two lines the interpreter does not survive.
\<close>

section \<open>Printing\<close>

text \<open>For any well-formed format, printk called with arguments in range returns the length of the whole
  text and sends the text, cut to 1023 characters, once to the terminal and, with a carriage return before each
  line feed, to the serial port.\<close>

lemma printk_sends:
  assumes "format_at (kmem s) buffer BUFFER_SIZE fmt (concat (map encode is))"
    and "\<forall>i \<in> set is. item_ok (kmem s) buffer BUFFER_SIZE ns i" and "length (fmt_text is) < 2 ^ 31" and "uart_drains h"
  shows "\<exists>s'. printk h ns buffer fmt (concat (map item_args is)) s = Some (of_nat (length (fmt_text is)), s') \<and>
    tlog s' = WriteString (take 1023 (fmt_text is)) # tlog s \<and>
    outs s' = outs s @ map (Pair 0x3F8) (crlf (take 1023 (fmt_text is)))"
  using printk_text [OF assms, of "[]"] by auto

lemma printk_sends_witness:
  "\<exists>s'. printk ready_port 0 32768 4096 [of_int (-42)] (demo_tty (fmt_mem [120, 61, 37, 48, 53, 100, 33, 33])) = Some (9, s') \<and>
    tlog s' = [WriteString [120, 61, 45, 48, 48, 52, 50, 33, 33]]"
proof -
  have m: "mapped (fmt_mem F) p n" for F p n by (simp add: fmt_mem_def mapped_iff put_def)
  have "cstr (fmt_mem [120, 61, 37, 48, 53, 100, 33, 33]) 4096 [120, 61, 37, 48, 53, 100, 33, 33]"
    unfolding fmt_mem_def by (rule cstr_put) simp_all
  then have "format_at (kmem (demo_tty (fmt_mem [120, 61, 37, 48, 53, 100, 33, 33]))) 32768 BUFFER_SIZE 4096
      (concat (map encode demo_items))"
    unfolding demo_format demo_tty_sel format_at_def using m by (simp add: apart_def BUFFER_SIZE_def)
  from printk_sends [OF this demo_ok _ ready_port_drains, of 0]
  have "\<exists>s'. printk ready_port 0 32768 4096 (concat (map item_args demo_items))
      (demo_tty (fmt_mem [120, 61, 37, 48, 53, 100, 33, 33])) = Some (9, s') \<and>
      tlog s' = [WriteString [120, 61, 45, 48, 48, 52, 50, 33, 33]]" by (simp add: demo_text) blast
  then show ?thesis by (simp add: demo_items_def)
qed

definition long_item :: item where
  "long_item = Num (padded 1030) Plain 100 7"

lemma long_chars: "num_chars small 10 7 = [55]" "num_chars False 10 1030 = [49, 48, 51, 48]"
proof -
  show "num_chars small 10 7 = [55]" by (subst num_chars.simps) (simp add: dig_def)
  have "num_chars False 10 1 = [49]" by (subst num_chars.simps) (simp add: dig_def)
  then have "num_chars False 10 10 = [49, 48]" by (subst num_chars.simps) (simp add: dig_def)
  then have "num_chars False 10 103 = [49, 48, 51]" by (subst num_chars.simps) (simp add: dig_def)
  then show "num_chars False 10 1030 = [49, 48, 51, 48]" by (subst num_chars.simps) (simp add: dig_def)
qed

lemma long_text: "fmt_text [long_item] = replicate 1029 48 @ [55]"
proof -
  have "bit (34 :: u32) 2 = False" "bit (34 :: u32) 1 = True" "bit (34 :: u32) 0 = False" "bit (34 :: u32) 5 = True"
    by simp_all
  then show ?thesis
    by (simp only: fmt_text_def long_item_def list.map concat.simps append_Nil2 item_text.simps padded_flags spec_sel width_val.simps)
      (simp add: conv_flags_def F_SIGNED_def int_text_def sign_text_def alt_text_def fmt_base_def pad_field_def long_chars Let_def)
qed

text \<open>C33: printf passes the system call as many bytes of its buffer as the whole text has characters: when
  the text does not fit into the buffer of 1024 bytes, what lies behind the buffer is written out.\<close>

theorem printf_writes_past_buffer:
  assumes "format_at (kmem s) buffer BUFFER_SIZE fmt (concat (map encode is))"
    and "\<forall>i \<in> set is. item_ok (kmem s) buffer BUFFER_SIZE ns i"
    and "1024 < length (fmt_text is)" and "length (fmt_text is) < 2 ^ 31"
    and "fetch (kmem s) (buffer + 1024) (length (fmt_text is) - 1024) = Some bs"
  shows "\<exists>s'. printf ns buffer fmt (concat (map item_args is)) s = Some (of_nat (length (fmt_text is)), s') \<and>
    ulog s' = SysWrite (take 1023 (fmt_text is) @ 0 # bs) # ulog s"
  using printf_overrun [OF assms, of "[]"] by auto

definition demo_ust :: "mem \<Rightarrow> ust" where
  "demo_ust m = \<lparr>kmem = m, hlog = [], ulog = [], u_strtok_next = NULL\<rparr>"

text \<open>\<open>printf ("%01030d", 7)\<close>: six bytes from behind the buffer are written.\<close>

theorem printf_writes_past_buffer_witness:
  "\<exists>s'. printf 0 32768 4096 [7] (demo_ust (fmt_mem [37, 48, 49, 48, 51, 48, 100])) = Some (1030, s') \<and>
    ulog s' = [SysWrite (replicate 1023 48 @ 0 # replicate 6 0)]"
proof -
  let ?F = "[37, 48, 49, 48, 51, 48, 100] :: u8 list"
  have e: "concat (map encode [long_item]) = ?F"
    by (simp add: long_item_def spec_text_def long_chars)
  have m: "mapped (fmt_mem F) p n" for F p n by (simp add: fmt_mem_def mapped_iff put_def)
  have "cstr (fmt_mem ?F) 4096 ?F" unfolding fmt_mem_def by (rule cstr_put) simp_all
  then have fa: "format_at (kmem (demo_ust (fmt_mem ?F))) 32768 BUFFER_SIZE 4096 (concat (map encode [long_item]))"
    unfolding e using m by (simp add: format_at_def apart_def BUFFER_SIZE_def demo_ust_def)
  have ok: "\<forall>i \<in> set [long_item]. item_ok (kmem (demo_ust (fmt_mem ?F))) 32768 BUFFER_SIZE 0 i"
    by (simp add: long_item_def num_ok_def demo_spec_ok)
  have l: "length (fmt_text [long_item]) = 1030" by (simp add: long_text)
  have t: "take 1023 (fmt_text [long_item]) = replicate 1023 48" by (simp add: long_text)
  have f: "fetch (kmem (demo_ust (fmt_mem ?F))) (32768 + 1024) (length (fmt_text [long_item]) - 1024) = Some (replicate 6 0)"
  proof -
    have "apart (4096 :: u32) (length (?F @ [0])) 33792 6" by (simp add: apart_def)
    from fetch_put_apart [OF this, of "\<lambda>_. Some 0"] show ?thesis
      unfolding l by (simp add: demo_ust_def fmt_mem_def fetch_iff)
  qed
  have a: "concat (map item_args [long_item]) = [7]" by (simp add: long_item_def)
  from printf_writes_past_buffer [OF fa ok _ _ f] show ?thesis
    unfolding l t a by (simp add: demo_ust_def)
qed

section \<open>Commands\<close>

lemma join_take: "length (join (take k ws)) \<le> length (join ws)"
proof (induction ws arbitrary: k rule: join.induct)
  case (2 w)
  then show ?case by (cases k) simp_all
next
  case (3 w v ws)
  show ?case
  proof (cases k)
    case (Suc j)
    then show ?thesis using "3.IH" [of j] by (cases j) simp_all
  qed simp
qed simp

lemma apart_from_take: "apart_from p n ps ws \<Longrightarrow> apart_from p n (take k ps) (take k ws)"
  by (simp add: apart_from_def)

text \<open>C14: The command echo of the kernel's shell, given a line of words with one space between them, prints
  the first three words after the command, with one space between them, on a line of their own, and the shell
  goes on.\<close>

theorem echo_prints_words:
  assumes "shell_mem E (kmem s) cmd" and "cstr (kmem s) cmd (join (bytes_of ''echo'' # ws))"
    and "length (join (bytes_of ''echo'' # ws)) < 128" and "\<forall>w \<in> set ws. is_word w" and "ws \<noteq> []" and "uart_drains (k_hw E)"
  shows "\<exists>s'. run_cmd E cmd s = Some (False, s') \<and> tlog s' = WriteString (join (take 3 ws) @ [10]) # tlog s \<and>
    outs s' = outs s @ map (Pair 0x3F8) (crlf (join (take 3 ws) @ [10]))"
proof -
  let ?v = "bytes_of ''echo''" and ?E = "shell_env.truncate E"
  obtain nx m args where run: "run_cmd E cmd s = stay (cmd_echo (pk E) ?E args) (s\<lparr>kmem := m, strtok_next := nx\<rparr>)"
    and args: "args = take 4 (word_ptrs cmd (?v # ws))" "words_at m args (take 4 (?v # ws))" "shell_mem E m cmd"
    by (rule run_echo [OF assms(1-4)])
  let ?ps = "take 3 (word_ptrs (cmd + of_nat (Suc (length ?v))) ws)" and ?ws = "take 3 ws"
  have ps: "drop 1 args = ?ps" and words: "words_at m ?ps ?ws"
    using args(1,2) by (simp_all add: words_at_def)
  have "apart_from (str_buf E) 1024 (word_ptrs cmd (?v # ws)) (?v # ws)"
    using apart_from_words [OF _ assms(3)] assms(1) by (simp add: shell_mem_def)
  then have ap: "apart_from (str_buf E) 1024 ?ps ?ws"
    by (intro apart_from_take) (simp add: apart_from_def)
  have len: "length (join ?ws) < 127"
    using join_take [of 3 ws] assms(3,5) by (cases ws) (simp_all add: bytes_names)
  have sp: "apart (str_buf E) 1024 (lit E '' '') 2" "cstr m (lit E '' '') [32]"
    using shell_lit [OF args(3) shell_lits_used(2)] bytes_names(12) by (simp_all add: numeral_2_eq_2)
  have map: "mapped m (str_buf E) 1024" using args(3) by (simp add: shell_mem_def)
  obtain m' where m': "join_args ?E ?ps m = Some m'" "cstr m' (str_buf E) (join ?ws)" "same_off (str_buf E) 1024 m m'"
    using join_args_run [of m ?ps ?ws ?E] words ap sp map len assms(5) by auto
  have "shell_mem E m' cmd" using shell_mem_off [OF args(3) m'(3)] by simp
  from print_line [of E "s\<lparr>strtok_next := nx, kmem := m'\<rparr>" cmd "join ?ws", OF _ _ _ assms(6)] this m'(2) len
  obtain s' where "pk E (''%s'' @ [CHR 0x0A]) [str_buf E] (s\<lparr>strtok_next := nx, kmem := m'\<rparr>) = Some s'"
    "tlog s' = WriteString (join ?ws @ [10]) # tlog s" "outs s' = outs s @ map (Pair 0x3F8) (crlf (join ?ws @ [10]))"
    by auto
  then show ?thesis using run m'(1) ps by (simp add: stay_def cmd_echo_def)
qed

theorem echo_prints_words_witness:
  "\<exists>s'. run_cmd demo_shell 8192 (demo_tty (demo_line [101, 99, 104, 111, 32, 104, 105])) = Some (False, s') \<and>
    tlog s' = [WriteString [104, 105, 10]] \<and> outs s' = [(0x3F8, 104), (0x3F8, 105), (0x3F8, 13), (0x3F8, 10)]"
proof -
  have j: "join (bytes_of ''echo'' # [[104, 105]]) = [101, 99, 104, 111, 32, 104, 105]" by (simp add: bytes_names)
  have "k_hw demo_shell = ready_port" by (simp add: demo_shell_def)
  then show ?thesis
    using echo_prints_words [of demo_shell "demo_tty (demo_line [101, 99, 104, 111, 32, 104, 105])" 8192 "[[104, 105]]"]
      demo_shell_mem [of "[101, 99, 104, 111, 32, 104, 105]"] demo_line_cstr [of "[101, 99, 104, 111, 32, 104, 105]"]
      ready_port_drains unfolding j by (simp add: is_word_def)
qed

text \<open>C36: An empty line makes the kernel's shell compare the string at address 0 with the names of the
  commands: run_cmd faults where nothing is mapped there.\<close>

theorem empty_line_reads_null:
  assumes "kmem s cmd = Some 0" and "cmd \<noteq> NULL" and "kmem s NULL = None"
  shows "run_cmd E cmd s = None"
proof -
  have "tokenize (shell_env.truncate E) cmd (strtok_next s) (kmem s) = Some ([], cmd, kmem s)"
    using assms by (simp add: tokenize_def strtok_def Let_def eval_nat_numeral)
  moreover have "strcmp (kmem s) NULL q = None" for q
    using assms(3) by (subst strcmp.simps) simp
  ultimately show ?thesis
    by (simp add: run_cmd_def arg_at_def kcommands_def Let_def)
qed

theorem empty_line_reads_null_witness:
  "run_cmd demo_shell 8192 (demo_tty ((\<lambda>_. None)(8192 \<mapsto> 0))) = None"
  using empty_line_reads_null [of "demo_tty ((\<lambda>_. None)(8192 \<mapsto> 0))" 8192 demo_shell] by simp

lemma unat_minus_1: "unat (- 1 :: u32) = 2 ^ 32 - 1"
  by (simp add: unsigned_minus_1_eq_mask mask_eq_exp_minus_1)

text \<open>C35: The command echo without a word to print stores a NUL character in the byte before its array:
  run_cmd faults where that byte is not mapped.\<close>

theorem echo_alone_writes_before_array:
  assumes "shell_mem E (kmem s) cmd" and "cstr (kmem s) cmd (bytes_of ''echo'')"
    and "kmem s (str_buf E - 1) = None" and "apart cmd 128 (str_buf E - 1) 1"
  shows "run_cmd E cmd s = None"
proof -
  let ?v = "bytes_of ''echo''" and ?E = "shell_env.truncate E" and ?p = "str_buf E"
  have c: "cstr (kmem s) cmd (join [?v])" "length (join [?v]) < 128" "\<forall>w \<in> set []. is_word w"
    using assms(2) by (simp_all add: bytes_names)
  obtain nx m args where run: "run_cmd E cmd s = stay (cmd_echo (pk E) ?E args) (s\<lparr>kmem := m, strtok_next := nx\<rparr>)"
    and args: "args = take 4 (word_ptrs cmd [?v])" and m: "shell_mem E m cmd" "same_off cmd 128 (kmem s) m"
    by (rule run_echo [OF assms(1) c])
  have map: "mapped m ?p 1024" using m(1) by (simp add: shell_mem_def)
  have before: "m (?p - 1) = None" using same_off_at [OF m(2) assms(4), of 0] assms(3) by simp
  let ?m = "put m ?p (replicate 1024 0)"
  have "?m (?p - 1) = None" using before by (simp add: put_def unat_minus_1)
  moreover have "strlen ?m ?p = Some 0" using strlen_cstr [OF cleared_run(1) [OF map]] by simp
  ultimately have "join_args ?E [] m = None" using map by (simp add: join_args_def st8_def)
  then show ?thesis using run args by (simp add: stay_def cmd_echo_def)
qed

theorem echo_alone_writes_before_array_witness:
  "run_cmd demo_shell 8192 (demo_tty (\<lambda>a. if a = 16383 then None else demo_line [101, 99, 104, 111] a)) = None"
proof -
  let ?L = "[101, 99, 104, 111] :: u8 list" and ?m = "\<lambda>a. if a = 16383 then None else demo_line [101, 99, 104, 111] a"
  have out: "?m (p + of_nat i) = demo_line ?L (p + of_nat i)" if "apart 16383 1 p n" "i < n" for p n i
    using that unfolding apart_iff by fastforce
  have same: "fetch ?m p n = Some bs" if "apart 16383 1 p n" "fetch (demo_line ?L) p n = Some bs" for p n bs
    using that(2) out [OF that(1)] by (simp add: fetch_iff)
  have all: "demo_line ?L a \<noteq> None" for a by (simp add: demo_line_def put_def)
  have ap: "apart (16383 :: u32) 1 4096 512" "apart (16383 :: u32) 1 16384 1024"
    "apart (16383 :: u32) 1 32768 1024" "apart (8192 :: u32) 128 16383 1"
    by (simp_all add: apart_def unat_minus_1)
  have sm: "shell_mem demo_shell (demo_line ?L) 8192" by (rule demo_shell_mem) simp
  have E: "str_buf demo_shell = 16384" "pr_buffer demo_shell = 32768" by (simp_all add: demo_shell_def)
  have "cstr ?m (lit demo_shell x) (bytes_of x)" if "x \<in> set shell_lits" for x
    using shell_lit(1) [OF sm that] same [OF demo_lit_fetch(2) [OF that _ ap(1), of ?L]]
    unfolding cstr_iff_fetch by simp
  moreover have "mapped ?m p n" if "apart 16383 1 p n" for p n
    unfolding mapped_iff using out [OF that] all by metis
  ultimately have "shell_mem demo_shell ?m 8192" using sm ap unfolding shell_mem_def E by auto
  moreover have "cstr ?m 8192 (bytes_of ''echo'')"
  proof -
    have l: "cstr (demo_line ?L) 8192 ?L" by (rule demo_line_cstr) simp_all
    have "apart (16383 :: u32) 1 8192 (Suc (length ?L))" by (simp add: apart_def unat_minus_1)
    from same [OF this cstr_fetch [OF l]] show ?thesis unfolding cstr_iff_fetch bytes_names using l
      by (simp only: cstr_iff_fetch simp_thms)
  qed
  ultimately show ?thesis
    using echo_alone_writes_before_array [of demo_shell "demo_tty ?m" 8192] ap(4) by (simp add: E)
qed

end
