(* ===== verification/Kmain.thy ===== *)
theory Kmain
  imports Shell Timer Fdc Vfs Descriptors
begin

text \<open>
  \<open>kmain\<close> of \<open>init/kmain.c\<close>: the order in which the kernel brings up its parts before it gives
  the machine to the shell, and the logging macros of \<open>include/log.h\<close> it announces them with. The
  initialisation routines that are only present as object files are fields of \<open>kmain_env\<close>, and so are
  the arguments of the modelled ones. \<open>Some\<close> is the state in which the processor is halted.
\<close>

section \<open>Logging\<close>

definition LOG_COLOR_PRI :: u8 where "LOG_COLOR_PRI = 10"
definition INF_PREFIX :: string where "INF_PREFIX = '' [ + ] - ''"

text \<open>\<open>LOG_P\<close> in a module that sets no name; \<open>LOG_DEBUG\<close> prints nothing unless \<open>DEBUG\<close> is
  set, which the release build does not do.\<close>

definition LOG_P :: "kshell_env \<Rightarrow> string \<Rightarrow> 'z ttyst_scheme \<Rightarrow> 'z ttyst_scheme option" where
  "LOG_P E msg s = do {
     s \<leftarrow> pk E ''%s'' [lit E INF_PREFIX] (tty_log (TextColor LOG_COLOR_PRI) s);
     pk E (line msg) [] (tty_log ResetColor s)
   }"

section \<open>Bringing the kernel up\<close>

definition VGA_COLOR_CYAN :: u8 where "VGA_COLOR_CYAN = 3"
definition VGA_COLOR_WHITE :: u8 where "VGA_COLOR_WHITE = 15"

record 's kmain_env =
  m_shell :: kshell_env
  m_tty_init :: "'s \<Rightarrow> 's option"
  m_interrupts :: "'s \<Rightarrow> 's option"
  m_stdin_init :: "'s \<Rightarrow> 's option"
  m_syscall_init :: "'s \<Rightarrow> 's option"
  m_kmm_init :: "'s \<Rightarrow> 's option"
  m_vmm_init :: "'s \<Rightarrow> 's option"
  m_kheap_init :: "'s \<Rightarrow> 's option"
  m_alloc :: allocator
  m_realloc :: reallocator
  m_gdt_addrs :: "u32 \<times> u32 \<times> u32"
  m_fdc_link :: fdc_link
  m_types :: "ptr list"
  m_junk :: "u32 \<times> ptr \<times> ptr"
  m_bss_start :: ptr
  m_bss_end :: ptr

definition zero_bss :: "'z ttyst_scheme kmain_env \<Rightarrow> 'z ttyst_scheme \<Rightarrow> 'z ttyst_scheme option" where
  "zero_bss K s = do {
     (_, m) \<leftarrow> memset (kmem s) (m_bss_start K) 0 (m_bss_end K - m_bss_start K);
     Some (s\<lparr>kmem := m\<rparr>)
   }"

definition load_msg :: "kshell_env \<Rightarrow> 'z ttyst_scheme \<Rightarrow> 'z ttyst_scheme option" where
  "load_msg E s = do {
     s \<leftarrow> pk E (replicate 21 (CHR '' '')) [] s;
     let s = tty_log (TextColor VGA_COLOR_WHITE) (tty_log (BgColor VGA_COLOR_CYAN) s);
     s \<leftarrow> pk E (line (line '' ~[ leenix1.0 kernel initalizing! ]~ '')) [] s;
     let s = tty_log ResetColor s;
     pk E (line ('' +'' @ replicate 75 (CHR ''-'') @ ''+'')) [] s
   }"

text \<open>What the test build announces before its harness takes over (\<open>TestMain\<close>).\<close>

definition VGA_COLOR_RED :: u8 where "VGA_COLOR_RED = 4"

definition tests_msg :: "kshell_env \<Rightarrow> 'z ttyst_scheme \<Rightarrow> 'z ttyst_scheme option" where
  "tests_msg E s = do {
     s \<leftarrow> pk E (CHR 0x0A # line ('' +'' @ replicate 75 (CHR ''-'') @ ''+'')) [] s;
     s \<leftarrow> pk E (replicate 21 (CHR '' '')) [] s;
     let s = tty_log (TextColor VGA_COLOR_RED) (tty_log (BgColor VGA_COLOR_CYAN) s);
     s \<leftarrow> pk E '' ~[ Starting Kernel Tests! ]~ '' [] s;
     let s = tty_log ResetColor s;
     pk E (line (line '''')) [] s
   }"

definition kmain ::
  "hw \<Rightarrow> 'z ttyst_ext procst_scheme fs_calls \<Rightarrow> 'z ttyst_ext procst_scheme vmm \<Rightarrow> 'z ttyst_scheme kmain_env \<Rightarrow>
   'z ttyst_scheme \<Rightarrow> 'z ttyst_scheme option" where
  "kmain h calls vm K s = do {
     let E = m_shell K;
     s \<leftarrow> zero_bss K s;
     s \<leftarrow> m_tty_init K s;
     s \<leftarrow> load_msg E s;
     s \<leftarrow> serial_init False s;
     s \<leftarrow> LOG_P E ''Initializing system descriptors...'' s;
     let (a, b, c) = m_gdt_addrs K;
     let s = s\<lparr>gdts := gdt_init_flat_protected a b c (gdts s)\<rparr>;
     s \<leftarrow> LOG_P E ''Initializing system interrupts...'' s;
     s \<leftarrow> m_interrupts K s;
     s \<leftarrow> LOG_P E ''Initializing terminal input...'' s;
     s \<leftarrow> m_stdin_init K s;
     s \<leftarrow> LOG_P E ''Initializing syscalls interface'' s;
     s \<leftarrow> m_syscall_init K s;
     s \<leftarrow> LOG_P E ''Initializing kernel memory manager...'' s;
     s \<leftarrow> m_kmm_init K s;
     s \<leftarrow> LOG_P E ''Initializing virtual memory manager...'' s;
     s \<leftarrow> m_vmm_init K s;
     s \<leftarrow> LOG_P E ''Initializing kernel heap...'' s;
     s \<leftarrow> m_kheap_init K s;
     s \<leftarrow> LOG_P E ''Initializing system timer at 1000 Hz...'' s;
     s \<leftarrow> init_system_timer 1000 s;
     s \<leftarrow> LOG_P E ''Initializing floppy disk controller...'' s;
     s \<leftarrow> fdc_init h (m_alloc K) (m_fdc_link K) s;
     s \<leftarrow> LOG_P E ''Initializing VFS layer...'' s;
     s \<leftarrow> vfs_init (m_alloc K) s;
     s \<leftarrow> LOG_P E ''Mounting initfs'' s;
     (_, s) \<leftarrow> vfs_mount calls (m_realloc K) (m_alloc K) (m_types K) (lit E ''fd0'') (lit E ''/fd0'') (lit E ''fat12'') s;
     s \<leftarrow> LOG_P E ''Initializing scheduler...'' s;
     s \<leftarrow> scheduler_init vm (m_alloc K) (m_junk K) s;
     shell E s
   }"

end
