(* ===== verification/SysCall.thy ===== *)
theory SysCall
  imports Console
begin

text \<open>
  The system call stubs, \<open>libc/unitstd.c\<close>: each puts the number of the call into \<open>eax\<close> and its arguments into
  \<open>ebx\<close>, \<open>ecx\<close>, \<open>edx\<close> and \<open>esi\<close>, raises the interrupt \<open>0x80\<close> and returns what it finds in
  \<open>eax\<close>. What the interrupt does with the registers is a parameter, an interrupt gate; the other registers hold
  whatever they held before.
\<close>

section \<open>The stubs\<close>

record regs =
  eax :: u32
  ebx :: u32
  ecx :: u32
  edx :: u32
  esi :: u32

type_synonym 's gate = "regs \<Rightarrow> 's \<Rightarrow> (u32 \<times> 's) option"

definition SYS_read :: u32 where "SYS_read = 0"
definition SYS_write :: u32 where "SYS_write = 1"
definition SYS_fork :: u32 where "SYS_fork = 2"

definition syscall_P0 :: "u32 \<Rightarrow> 's gate \<Rightarrow> regs \<Rightarrow> 's \<Rightarrow> (u32 \<times> 's) option" where
  "syscall_P0 num g r s = g (r\<lparr>eax := num\<rparr>) s"

definition syscall_P1 :: "u32 \<Rightarrow> 's gate \<Rightarrow> regs \<Rightarrow> u32 \<Rightarrow> 's \<Rightarrow> (u32 \<times> 's) option" where
  "syscall_P1 num g r p1 s = g (r\<lparr>eax := num, ebx := p1\<rparr>) s"

definition syscall_P2 :: "u32 \<Rightarrow> 's gate \<Rightarrow> regs \<Rightarrow> u32 \<Rightarrow> u32 \<Rightarrow> 's \<Rightarrow> (u32 \<times> 's) option" where
  "syscall_P2 num g r p1 p2 s = g (r\<lparr>eax := num, ebx := p1, ecx := p2\<rparr>) s"

definition syscall_P3 :: "u32 \<Rightarrow> 's gate \<Rightarrow> regs \<Rightarrow> u32 \<Rightarrow> u32 \<Rightarrow> u32 \<Rightarrow> 's \<Rightarrow> (u32 \<times> 's) option" where
  "syscall_P3 num g r p1 p2 p3 s = g (r\<lparr>eax := num, ebx := p1, ecx := p2, edx := p3\<rparr>) s"

definition syscall_P4 ::
  "u32 \<Rightarrow> 's gate \<Rightarrow> regs \<Rightarrow> u32 \<Rightarrow> u32 \<Rightarrow> u32 \<Rightarrow> u32 \<Rightarrow> 's \<Rightarrow> (u32 \<times> 's) option" where
  "syscall_P4 num g r p1 p2 p3 p4 s = g (r\<lparr>eax := num, ebx := p1, ecx := p2, edx := p3, esi := p4\<rparr>) s"

definition sc_write :: "'s gate \<Rightarrow> regs \<Rightarrow> ptr \<Rightarrow> u32 \<Rightarrow> 's \<Rightarrow> (u32 \<times> 's) option" where
  "sc_write g r buf count s = syscall_P2 SYS_write g r buf count s"

definition sc_read :: "'s gate \<Rightarrow> regs \<Rightarrow> ptr \<Rightarrow> u32 \<Rightarrow> 's \<Rightarrow> (u32 \<times> 's) option" where
  "sc_read g r buf count s = syscall_P2 SYS_read g r buf count s"

definition sc_fork :: "'s gate \<Rightarrow> regs \<Rightarrow> 's \<Rightarrow> (u32 \<times> 's) option" where
  "sc_fork g r s = syscall_P0 SYS_fork g r s"

section \<open>A gate that serves the numbers of the kernel\<close>

text \<open>The numbers of the kernel's interface, and what \<open>include/init/syscall.h\<close> says of them: the kernel calls
  the function of the number with the arguments the registers hold.\<close>

datatype syscall_nr = SYSCALL_READ | SYSCALL_WRITE | SYSCALL_FORK

primrec nr_of :: "syscall_nr \<Rightarrow> u32" where
  "nr_of SYSCALL_READ = 0"
| "nr_of SYSCALL_WRITE = 1"
| "nr_of SYSCALL_FORK = 2"

definition gate_serves ::
  "'s gate \<Rightarrow> (u32 \<Rightarrow> u32 \<Rightarrow> 's \<Rightarrow> (u32 \<times> 's) option) \<Rightarrow> (u32 \<Rightarrow> u32 \<Rightarrow> 's \<Rightarrow> (u32 \<times> 's) option) \<Rightarrow>
   ('s \<Rightarrow> (u32 \<times> 's) option) \<Rightarrow> bool" where
  "gate_serves g rd wr fk \<longleftrightarrow>
     (\<forall>r s. (eax r = nr_of SYSCALL_READ \<longrightarrow> g r s = rd (ebx r) (ecx r) s)
        \<and> (eax r = nr_of SYSCALL_WRITE \<longrightarrow> g r s = wr (ebx r) (ecx r) s)
        \<and> (eax r = nr_of SYSCALL_FORK \<longrightarrow> g r s = fk s))"

text \<open>The library and the kernel agree on the numbers and on the registers of the arguments.\<close>

lemma stubs_reach:
  assumes "gate_serves g rd wr fk"
  shows "sc_read g r p n s = rd p n s" and "sc_write g r p n s = wr p n s" and "sc_fork g r s = fk s"
  using assms
  by (simp_all add: gate_serves_def sc_read_def sc_write_def sc_fork_def syscall_P2_def syscall_P0_def SYS_read_def
      SYS_write_def SYS_fork_def)

text \<open>With a kernel whose calls store and answer as the log of system calls records them, output and input over the
  stubs are \<open>printf\<close> and \<open>getline\<close>.\<close>

definition log_read :: "sys_input \<Rightarrow> ptr \<Rightarrow> u32 \<Rightarrow> 'z ust_scheme \<Rightarrow> (u32 \<times> 'z ust_scheme) option" where
  "log_read inp p n s = map_option (\<lambda>t. (n, t)) (sys_read inp p n s)"

definition log_write :: "ptr \<Rightarrow> u32 \<Rightarrow> 'z ust_scheme \<Rightarrow> (u32 \<times> 'z ust_scheme) option" where
  "log_write p n s = map_option (\<lambda>t. (n, t)) (sys_write p n s)"

lemma printf_over_stubs:
  assumes "gate_serves g rd log_write fk"
  shows "printf null_str buffer fmt args s = do {
     (len, m) \<leftarrow> vsnprintf null_str buffer BUFFER_SIZE fmt args (kmem s);
     (_, s) \<leftarrow> sc_write g r buffer len (s\<lparr>kmem := m\<rparr>);
     Some (len, s)
   }"
  unfolding printf_def stubs_reach(2) [OF assms] log_write_def
  by (auto simp: case_prod_unfold split: Option.bind_split)

lemma getline_over_stubs:
  assumes "gate_serves g (log_read inp) wr fk"
  shows "getline inp buf n s =
     (if buf = NULL \<or> n = 0 then Some (-1, s)
      else do { (_, s) \<leftarrow> sc_read g r buf (n - 1) s; Some (0, s) })"
  unfolding getline_def stubs_reach(1) [OF assms] log_read_def
  by (auto simp: case_prod_unfold split: Option.bind_split)

end
