(* ===== verification/UserProgs.thy ===== *)
theory UserProgs
  imports Shell
begin

text \<open>
  The small user programs \<open>user/echo.c\<close>, \<open>user/greet.c\<close> and \<open>user/hello.c\<close>, over \<open>printf\<close> and
  \<open>getline\<close>. The result of the \<open>fork\<close> system call is an argument; a program that loops for ever does
  not return, \<open>None\<close>.
\<close>

fun echo_args :: "ushell_env \<Rightarrow> ptr list \<Rightarrow> 'z ust_scheme \<Rightarrow> 'z ust_scheme option" where
  "echo_args E [] s = Some s"
| "echo_args E (a # as) s = do { s \<leftarrow> pf E ''%s '' [a] s; echo_args E as s }"

definition echo_main :: "ushell_env \<Rightarrow> ptr list \<Rightarrow> 'z ust_scheme \<Rightarrow> (u32 \<times> 'z ust_scheme) option" where
  "echo_main E argv s = do {
     s \<leftarrow> echo_args E argv s;
     s \<leftarrow> pf E (line '''') [] s;
     Some (0, s)
   }"

definition greet_main :: "ushell_env \<Rightarrow> ptr \<Rightarrow> 'z ust_scheme \<Rightarrow> (u32 \<times> 'z ust_scheme) option" where
  "greet_main E name s = do {
     s \<leftarrow> pf E ''Enter your name: '' [] s;
     (_, s) \<leftarrow> getline (u_input E) name 50 s;
     s \<leftarrow> pf E (line ''Hello, %s!'') [name] s;
     Some (0, s)
   }"

definition hello_main :: "ushell_env \<Rightarrow> u32 \<Rightarrow> 'z ust_scheme \<Rightarrow> (u32 \<times> 'z ust_scheme) option" where
  "hello_main E pid s = do {
     s \<leftarrow> pf E (line ''Hello, World!'') [] s;
     if pid = 0 then do { s \<leftarrow> pf E (line ''Hello from the child process! PID'') [] s; None }
     else if 0 < sint pid then do { s \<leftarrow> pf E (line ''Hello from the parent process!'') [] s; None }
     else do { s \<leftarrow> pf E (line ''Fork failed!'') [] s; Some (0, s) }
   }"

end
