(* ===== verification/Keyboard.thy ===== *)
theory Keyboard
  imports Prelude
begin

text \<open>
  The codes of the keys, \<open>include/driver/keyboard.h\<close>. The driver behind this header is only present as an object
  file; what the header fixes is the code of every key, the test for an ASCII code and the entries of
  the driver's buffer. The enumeration is the list of its enumerators with the values the header
  writes out; the others follow from the one before.
\<close>

section \<open>Values of an enumeration\<close>

fun enum_values :: "u32 \<Rightarrow> (string \<times> u32 option) list \<Rightarrow> (string \<times> u32) list" where
  "enum_values next_value [] = []"
| "enum_values next_value ((name, v) # es) =
     (let x = (case v of None \<Rightarrow> next_value | Some y \<Rightarrow> y) in (name, x) # enum_values (x + 1) es)"

lemma enum_values_names: "map fst (enum_values n es) = map fst es"
  by (induction n es rule: enum_values.induct) (simp_all add: Let_def)

definition KBD_KEYCODE :: "(string \<times> u32 option) list" where
  "KBD_KEYCODE =
  [(''KEY_SPACE'', Some 32), (''KEY_0'', Some 48), (''KEY_1'', Some 49), (''KEY_2'', Some 50),
   (''KEY_3'', Some 51), (''KEY_4'', Some 52), (''KEY_5'', Some 53), (''KEY_6'', Some 54), (''KEY_7'', Some 55),
   (''KEY_8'', Some 56), (''KEY_9'', Some 57), (''KEY_A'', Some 97), (''KEY_B'', Some 98), (''KEY_C'', Some 99),
   (''KEY_D'', Some 100), (''KEY_E'', Some 101), (''KEY_F'', Some 102), (''KEY_G'', Some 103),
   (''KEY_H'', Some 104), (''KEY_I'', Some 105), (''KEY_J'', Some 106), (''KEY_K'', Some 107),
   (''KEY_L'', Some 108), (''KEY_M'', Some 109), (''KEY_N'', Some 110), (''KEY_O'', Some 111),
   (''KEY_P'', Some 112), (''KEY_Q'', Some 113), (''KEY_R'', Some 114), (''KEY_S'', Some 115),
   (''KEY_T'', Some 116), (''KEY_U'', Some 117), (''KEY_V'', Some 118), (''KEY_W'', Some 119),
   (''KEY_X'', Some 120), (''KEY_Y'', Some 121), (''KEY_Z'', Some 122), (''KEY_RETURN'', Some 13),
   (''KEY_ESCAPE'', Some 0x1001), (''KEY_BACKSPACE'', Some 8), (''KEY_UP'', Some 0x1100),
   (''KEY_DOWN'', Some 0x1101), (''KEY_LEFT'', Some 0x1102), (''KEY_RIGHT'', Some 0x1103),
   (''KEY_F1'', Some 0x1201), (''KEY_F2'', Some 0x1202), (''KEY_F3'', Some 0x1203), (''KEY_F4'', Some 0x1204),
   (''KEY_F5'', Some 0x1205), (''KEY_F6'', Some 0x1206), (''KEY_F7'', Some 0x1207), (''KEY_F8'', Some 0x1208),
   (''KEY_F9'', Some 0x1209), (''KEY_F10'', Some 0x120a), (''KEY_F11'', Some 0x120b),
   (''KEY_F12'', Some 0x120b), (''KEY_F13'', Some 0x120c), (''KEY_F14'', Some 0x120d),
   (''KEY_F15'', Some 0x120e), (''KEY_DOT'', Some 46), (''KEY_COMMA'', Some 44), (''KEY_COLON'', Some 58),
   (''KEY_SEMICOLON'', Some 59), (''KEY_SLASH'', Some 47), (''KEY_BACKSLASH'', Some 92),
   (''KEY_PLUS'', Some 43), (''KEY_MINUS'', Some 45), (''KEY_ASTERISK'', Some 42),
   (''KEY_EXCLAMATION'', Some 33), (''KEY_QUESTION'', Some 63), (''KEY_QUOTEDOUBLE'', Some 34),
   (''KEY_QUOTE'', Some 39), (''KEY_EQUAL'', Some 61), (''KEY_HASH'', Some 35), (''KEY_PERCENT'', Some 37),
   (''KEY_AMPERSAND'', Some 38), (''KEY_UNDERSCORE'', Some 95), (''KEY_LEFTPAREN'', Some 40),
   (''KEY_RIGHTPAREN'', Some 41), (''KEY_LEFTBRACKET'', Some 91), (''KEY_RIGHTBRACKET'', Some 93),
   (''KEY_LEFTCURL'', Some 123), (''KEY_RIGHTCURL'', Some 125), (''KEY_DOLLAR'', Some 36),
   (''KEY_POUND'', Some 36), (''KEY_EURO'', Some 36), (''KEY_LESS'', Some 60), (''KEY_GREATER'', Some 62),
   (''KEY_BAR'', Some 124), (''KEY_GRAVE'', Some 96), (''KEY_TILDE'', Some 126), (''KEY_AT'', Some 64),
   (''KEY_CARRET'', Some 94), (''KEY_KP_0'', Some 48), (''KEY_KP_1'', Some 49), (''KEY_KP_2'', Some 50),
   (''KEY_KP_3'', Some 51), (''KEY_KP_4'', Some 52), (''KEY_KP_5'', Some 53), (''KEY_KP_6'', Some 54),
   (''KEY_KP_7'', Some 55), (''KEY_KP_8'', Some 56), (''KEY_KP_9'', Some 57), (''KEY_KP_PLUS'', Some 43),
   (''KEY_KP_MINUS'', Some 45), (''KEY_KP_DECIMAL'', Some 46), (''KEY_KP_DIVIDE'', Some 47),
   (''KEY_KP_ASTERISK'', Some 42), (''KEY_KP_NUMLOCK'', Some 0x300f), (''KEY_KP_ENTER'', Some 0x3010),
   (''KEY_TAB'', Some 0x4000), (''KEY_CAPSLOCK'', Some 0x4001), (''KEY_LSHIFT'', Some 0x4002),
   (''KEY_LCTRL'', Some 0x4003), (''KEY_LALT'', Some 0x4004), (''KEY_LWIN'', Some 0x4005),
   (''KEY_RSHIFT'', Some 0x4006), (''KEY_RCTRL'', Some 0x4007), (''KEY_RALT'', Some 0x4008),
   (''KEY_RWIN'', Some 0x4009), (''KEY_INSERT'', Some 0x400a), (''KEY_DELETE'', Some 0x400b),
   (''KEY_HOME'', Some 0x400c), (''KEY_END'', Some 0x400d), (''KEY_PAGEUP'', Some 0x400e),
   (''KEY_PAGEDOWN'', Some 0x400f), (''KEY_SCROLLLOCK'', Some 0x4010), (''KEY_PAUSE'', Some 0x4011),
   (''KEY_UNKNOWN'', None), (''KEY_NUMKEYCODES'', None)]"

definition keycode :: "string \<Rightarrow> u32 option" where
  "keycode name = map_of (enum_values 0 KBD_KEYCODE) name"

definition KBD_IS_ASCII :: "u32 \<Rightarrow> bool" where
  "KBD_IS_ASCII c \<longleftrightarrow> 0x7 \<le> c \<and> c \<le> 0x7F"

record kbd_entry =
  kb_keycode :: u32
  kb_ascii :: u8

section \<open>Which keys the codes tell apart\<close>

text \<open>The keys of a code. The two keys without a value get the next ones, so the codes end with their number.\<close>

definition keys_of :: "u32 \<Rightarrow> string list" where
  "keys_of c = map fst (filter (\<lambda>(_, v). v = c) (enum_values 0 KBD_KEYCODE))"

lemma keycode_names: "distinct (map fst KBD_KEYCODE)"
  by code_simp

lemma keycode_unnumbered: "keycode ''KEY_UNKNOWN'' = Some 0x4012" "keycode ''KEY_NUMKEYCODES'' = Some 0x4013"
  by code_simp+

text \<open>A code the macro calls ASCII is one below 128, and every key has a code that is not below 7: the codes of the other
  keys start at \<open>0x1001\<close>.\<close>

lemma keycode_ascii:
  "list_all (\<lambda>(_, v). KBD_IS_ASCII v \<and> v < 0x80 \<or> \<not> KBD_IS_ASCII v \<and> 0x1001 \<le> v) (enum_values 0 KBD_KEYCODE)"
  by code_simp

text \<open>Two keys of the main block have the same code only in two places, which reads as a slip: F11 and F12, and the three
  currency signs. Every other code that two keys share belongs to a key of the numeric keypad.\<close>

lemma keycode_shared:
  "keys_of 0x120b = [''KEY_F11'', ''KEY_F12'']" "keys_of 36 = [''KEY_DOLLAR'', ''KEY_POUND'', ''KEY_EURO'']"
  by code_simp+

definition on_keypad :: "string \<Rightarrow> bool" where
  "on_keypad name \<longleftrightarrow> take 7 name = ''KEY_KP_''"

lemma keycode_distinct:
  "distinct (map snd (filter (\<lambda>(n, _). \<not> on_keypad n \<and> n \<notin> {''KEY_F12'', ''KEY_POUND'', ''KEY_EURO''})
     (enum_values 0 KBD_KEYCODE)))"
  by code_simp

end
