(* ===== verification/TestMain.thy ===== *)
theory TestMain
  imports Serial KFormatRun
begin

text \<open>
  The harness of the test build, \<open>tests/testmain.c\<close>: the conversion of numbers, the commands that arrive on the
  serial port, and the answers. The test functions are a parameter, a table of names and actions. Addresses of the
  command buffer and of string literals are parameters.
\<close>

section \<open>Numbers\<close>

text \<open>The digits go into a local array of sixteen characters, the least significant first, and are copied backwards.\<close>

function utoa_digits :: "u32 \<Rightarrow> u8 list \<Rightarrow> u8 list" where
  "utoa_digits val tmp =
     (if 0 < val \<and> length tmp < 16 then utoa_digits (val div 10) (tmp @ [48 + ucast (val mod 10)]) else tmp)"
  by pat_completeness auto
termination
  by (relation "measure (\<lambda>(val, tmp). 16 - length tmp)") auto

declare utoa_digits.simps [simp del]

primrec utoa_copy :: "mem \<Rightarrow> ptr \<Rightarrow> u8 list \<Rightarrow> nat \<Rightarrow> u32 \<Rightarrow> mem option" where
  "utoa_copy m buf tmp 0 j = st8 m (buf + j) 0"
| "utoa_copy m buf tmp (Suc i) j = do { m \<leftarrow> st8 m (buf + j) (tmp ! i); utoa_copy m buf tmp i (j + 1) }"

definition utoa :: "u32 \<Rightarrow> ptr \<Rightarrow> mem \<Rightarrow> mem option" where
  "utoa val buf m =
     (if val = 0 then do { m \<leftarrow> st8 m buf 48; st8 m (buf + 1) 0 }
      else let tmp = utoa_digits val [] in utoa_copy m buf tmp (length tmp) 0)"

section \<open>Commands\<close>

definition CMD_BUF_SIZE :: u32 where "CMD_BUF_SIZE = 128"

partial_function (option) read_command_loop ::
  "hw \<Rightarrow> ptr \<Rightarrow> u32 \<Rightarrow> 'z mach_scheme \<Rightarrow> (u32 \<times> 'z mach_scheme) option" where
  "read_command_loop h cmd_buf start s = do {
     (c, s) \<leftarrow> serial_getc h s;
     if c = 0 \<or> c = 10 \<or> c = 13 then do { m \<leftarrow> st8 (kmem s) (cmd_buf + start) 0; Some (start, s\<lparr>kmem := m\<rparr>) }
     else if start < CMD_BUF_SIZE - 1
       then do { m \<leftarrow> st8 (kmem s) (cmd_buf + start) c; read_command_loop h cmd_buf (start + 1) (s\<lparr>kmem := m\<rparr>) }
     else read_command_loop h cmd_buf start s
   }"

definition read_command :: "hw \<Rightarrow> ptr \<Rightarrow> 'z mach_scheme \<Rightarrow> (u32 \<times> 'z mach_scheme) option" where
  "read_command h cmd_buf s = do {
     (_, m) \<leftarrow> memset (kmem s) cmd_buf 0 CMD_BUF_SIZE;
     read_command_loop h cmd_buf 0 (s\<lparr>kmem := m\<rparr>)
   }"

definition send_msg :: "hw \<Rightarrow> ptr \<Rightarrow> 'z mach_scheme \<Rightarrow> 'z mach_scheme option" where
  "send_msg h msg s = do { s \<leftarrow> serial_puts h msg s; serial_putc h 42 s }"

text \<open>The table of the tests ends with a NULL name, here the end of the list.\<close>

type_synonym 's test_cases = "(ptr \<times> ('s \<Rightarrow> 's option)) list"

fun run_test :: "ptr \<Rightarrow> 'z mach_scheme test_cases \<Rightarrow> 'z mach_scheme \<Rightarrow> (bool \<times> 'z mach_scheme) option" where
  "run_test cmd_buf [] s = Some (False, s)"
| "run_test cmd_buf ((name, func) # cases) s = do {
     r \<leftarrow> strcmp (kmem s) cmd_buf name;
     if r = 0 then do { s \<leftarrow> func s; Some (True, s) } else run_test cmd_buf cases s
   }"

text \<open>One round of the loop of \<open>start_tests\<close>, which has no end.\<close>

definition test_round ::
  "hw \<Rightarrow> ptr \<Rightarrow> ptr \<Rightarrow> 'z mach_scheme test_cases \<Rightarrow> 'z mach_scheme \<Rightarrow> 'z mach_scheme option" where
  "test_round h cmd_buf unknown cases s = do {
     (cmd_size, s) \<leftarrow> read_command h cmd_buf s;
     if cmd_size = 0 then Some s
     else do {
       (found, s) \<leftarrow> run_test cmd_buf cases s;
       if found then Some s else send_msg h unknown s
     }
   }"

section \<open>A number is written in decimal\<close>

lemma digit_of_mod: "48 + ucast (val mod 10 :: u32) = dig small (unat val mod 10)"
proof -
  have d: "unat (val mod 10) = unat val mod 10" by (simp add: unat_mod_distrib)
  have "(ucast (val mod 10) :: u8) = of_nat (unat val mod 10)"
    unfolding d [symmetric] by simp
  then show ?thesis by (simp add: dig_def)
qed

text \<open>The array is never full: a 32-bit number has ten digits.\<close>

lemma utoa_digits_rev:
  "0 < val \<Longrightarrow> unat val < 10 ^ (16 - length tmp) \<Longrightarrow>
     rev (utoa_digits val tmp) = num_chars False 10 (unat val) @ rev tmp"
proof (induction val tmp rule: utoa_digits.induct)
  case (1 val tmp)
  have room: "length tmp < 16"
    using 1 (2,3) by (cases "length tmp < 16") (simp_all add: word_less_nat_alt)
  have step: "utoa_digits val tmp = utoa_digits (val div 10) (tmp @ [dig False (unat val mod 10)])"
    using 1 (2) room by (subst utoa_digits.simps) (simp add: digit_of_mod [of val False])
  show ?case
  proof (cases "unat val < 10")
    case True
    then have "val div 10 = 0" by (simp add: word_unat_eq_iff unat_div_distrib)
    then have "utoa_digits (val div 10) (tmp @ [dig False (unat val mod 10)]) = tmp @ [dig False (unat val)]"
      using True by (subst utoa_digits.simps) simp
    then show ?thesis using True by (subst num_chars.simps) (simp add: step)
  next
    case False
    have q: "unat (val div 10) = unat val div 10" by (simp add: unat_div_distrib)
    then have "0 < val div 10" using False by (simp add: word_less_nat_alt)
    moreover have "unat (val div 10) < 10 ^ (16 - length (tmp @ [dig False (unat val mod 10)]))"
    proof -
      have "16 - length tmp = Suc (15 - length tmp)" using room by simp
      then have "unat val < 10 ^ (15 - length tmp) * 10" using 1 (3) by simp
      then show ?thesis unfolding q by (simp add: less_mult_imp_div_less)
    qed
    ultimately have "rev (utoa_digits (val div 10) (tmp @ [dig False (unat val mod 10)])) =
        num_chars False 10 (unat val div 10) @ dig False (unat val mod 10) # rev tmp"
      using 1 (1) [OF conjI [OF 1 (2) room]] by (simp add: q digit_of_mod [of val False])
    then show ?thesis using False by (subst num_chars.simps) (simp add: step)
  qed
qed

lemma utoa_copy_put:
  assumes "mapped m buf (Suc n)" and "n < 2 ^ 31" and "n = length bs + i" and "i \<le> length tmp"
  shows "utoa_copy (put m buf bs) buf tmp i (of_nat (length bs)) = Some (put m buf (bs @ rev (take i tmp) @ [0]))"
  using assms(3,4)
proof (induction i arbitrary: bs)
  case 0
  then show ?case using assms(1,2) by (simp add: st8_put_snoc mapped_iff)
next
  case (Suc i)
  have "st8 (put m buf bs) (buf + of_nat (length bs)) (tmp ! i) = Some (put m buf (bs @ [tmp ! i]))"
    using Suc.prems assms(1,2) by (intro st8_put_snoc) (simp_all add: mapped_iff)
  then show ?case using Suc.IH [of "bs @ [tmp ! i]"] Suc.prems by (simp add: add.commute take_Suc_conv_app_nth)
qed

lemma utoa_writes:
  assumes "mapped m buf (Suc (length (num_chars False 10 (unat val))))"
  shows "utoa val buf m = Some (put m buf (num_chars False 10 (unat val) @ [0]))"
proof (cases "val = 0")
  case True
  have n: "num_chars False 10 0 = [48]" by (subst num_chars.simps) (simp add: dig_def)
  then have a: "m buf \<noteq> None" "m (buf + 1) \<noteq> None" using assms True by auto
  then show ?thesis
    using st8_put_snoc [of "[]" m buf 48] st8_put_snoc [of "[48]" m buf 0] by (simp add: utoa_def True n)
next
  case False
  then have "0 < val" by (simp add: word_neq_0_conv)
  moreover have "unat val < 10 ^ (16 - length ([] :: u8 list))" using unat_lt_2p32 [of val] by simp
  ultimately have r: "rev (utoa_digits val []) = num_chars False 10 (unat val)"
    using utoa_digits_rev [of val "[]"] by simp
  have "length tmp \<le> 16 \<Longrightarrow> length (utoa_digits v tmp) \<le> 16" for v tmp
    by (induction v tmp rule: utoa_digits.induct) (subst utoa_digits.simps, auto)
  from this [of "[]" val] have l: "length (utoa_digits val []) < 2 ^ 31" by simp
  show ?thesis
    using utoa_copy_put [of m buf "length (utoa_digits val [])" "[]" "length (utoa_digits val [])" "utoa_digits val []"]
      assms l False
    by (simp add: utoa_def Let_def flip: r)
qed

section \<open>A command is read\<close>

text \<open>A byte arrives on a port that answers from the log \<open>l\<close>, after some rounds of polling; a command is the bytes
  up to the first that ends it.\<close>

inductive byte_arrives :: "hw \<Rightarrow> io_log \<Rightarrow> u8 \<Rightarrow> io_log \<Rightarrow> bool" for h where
  ready: "hw_in h l 0x3FD AND LINESTAT_DATARDY \<noteq> 0 \<Longrightarrow> l1 = In 0x3FD (hw_in h l 0x3FD) # l \<Longrightarrow>
    byte_arrives h l (hw_in h l1 0x3F8) (In 0x3F8 (hw_in h l1 0x3F8) # l1)"
| poll: "hw_in h l 0x3FD AND LINESTAT_DATARDY = 0 \<Longrightarrow> byte_arrives h (In 0x3FD (hw_in h l 0x3FD) # l) c l' \<Longrightarrow>
    byte_arrives h l c l'"

inductive line_arrives :: "hw \<Rightarrow> io_log \<Rightarrow> u8 list \<Rightarrow> io_log \<Rightarrow> bool" for h where
  ended: "byte_arrives h l c l' \<Longrightarrow> c \<in> {0, 10, 13} \<Longrightarrow> line_arrives h l [] l'"
| more: "byte_arrives h l c l1 \<Longrightarrow> c \<notin> {0, 10, 13} \<Longrightarrow> line_arrives h l1 cs l' \<Longrightarrow> line_arrives h l (c # cs) l'"

lemma serial_byte_avail_eq:
  "serial_byte_avail h s =
     (hw_in h (io s) 0x3FD AND LINESTAT_DATARDY \<noteq> 0, s\<lparr>io := In 0x3FD (hw_in h (io s) 0x3FD) # io s\<rparr>)"
  by (simp add: serial_byte_avail_def COM1_IO_BASE_def SERIAL_LINESTAT_def inb_def Let_def)

lemma serial_getc_arrives: "byte_arrives h l c l' \<Longrightarrow> io s = l \<Longrightarrow> serial_getc h s = Some (c, s\<lparr>io := l'\<rparr>)"
proof (induction arbitrary: s rule: byte_arrives.induct)
  case (ready l l1)
  then show ?case
    unfolding serial_getc_def
    by (subst serial_wait.simps) (simp add: serial_byte_avail_eq inb_def Let_def COM1_IO_BASE_def SERIAL_RCVBUF_def)
next
  case (poll l c l')
  let ?s = "s\<lparr>io := In 0x3FD (hw_in h l 0x3FD) # l\<rparr>"
  have "serial_getc h s = serial_getc h ?s"
    using poll.hyps(1) poll.prems unfolding serial_getc_def
    by (subst serial_wait.simps) (simp add: serial_byte_avail_eq)
  then show ?case using poll.IH [of ?s] by simp
qed

text \<open>The buffer after the characters \<open>cs\<close>: what does not fit is dropped, and the rest stays cleared.\<close>

definition cmd_bytes :: "u8 list \<Rightarrow> u8 list" where
  "cmd_bytes cs = take 127 cs @ replicate (128 - length (take 127 cs)) 0"

lemma cmd_bytes_length: "length (cmd_bytes cs) = 128"
  by (simp add: cmd_bytes_def)

lemma cmd_bytes_more: "length cs < 127 \<Longrightarrow> (cmd_bytes cs)[length cs := c] = cmd_bytes (cs @ [c])"
proof -
  assume "length cs < 127"
  then have "128 - length cs = Suc (127 - length cs)" "take 126 cs = cs" by simp_all
  then show ?thesis using \<open>length cs < 127\<close> by (simp add: cmd_bytes_def list_update_append)
qed

lemma cmd_bytes_end: "length cs \<le> 127 \<Longrightarrow> (cmd_bytes cs)[length cs := 0] = cmd_bytes cs"
  by (simp add: cmd_bytes_def list_update_append list_update_same_conv)

lemma cmd_store:
  assumes "i < 128" and "mapped m p 128"
  shows "st8 (put m p (cmd_bytes cs)) (p + of_nat i) b = Some (put m p ((cmd_bytes cs)[i := b]))"
  using assms put_mapped_at [of m "p + of_nat i" p "cmd_bytes cs"]
  by (simp add: st8_def mapped_iff put_update cmd_bytes_length)

lemma read_loop_line:
  "line_arrives h l cs l' \<Longrightarrow> io s = l \<Longrightarrow> kmem s = put m p (cmd_bytes ds) \<Longrightarrow> length ds \<le> 127 \<Longrightarrow> mapped m p 128 \<Longrightarrow>
     read_command_loop h p (of_nat (length ds)) s =
       Some (of_nat (min 127 (length ds + length cs)), s\<lparr>io := l', kmem := put m p (cmd_bytes (ds @ cs))\<rparr>)"
proof (induction arbitrary: s ds rule: line_arrives.induct)
  case (ended l c l')
  have g: "serial_getc h s = Some (c, s\<lparr>io := l'\<rparr>)" by (rule serial_getc_arrives [OF ended.hyps(1) ended.prems(1)])
  show ?case
    using ended.hyps(2) ended.prems cmd_store [of "length ds" m p ds 0] cmd_bytes_end [of ds]
    by (subst read_command_loop.simps) (auto simp: g)
next
  case (more l c l1 cs l')
  have g: "serial_getc h s = Some (c, s\<lparr>io := l1\<rparr>)" by (rule serial_getc_arrives [OF more.hyps(1) more.prems(1)])
  have lt: "of_nat (length ds) < CMD_BUF_SIZE - 1 \<longleftrightarrow> length ds < 127"
    using more.prems(3) by (simp add: CMD_BUF_SIZE_def word_less_nat_alt unat_of_nat32)
  show ?case
  proof (cases "length ds < 127")
    case True
    let ?s = "s\<lparr>io := l1, kmem := put m p (cmd_bytes (ds @ [c]))\<rparr>"
    have "read_command_loop h p (of_nat (length ds)) s = read_command_loop h p (of_nat (length ds) + 1) ?s"
      using more.hyps(2) more.prems(2,4) True cmd_store [of "length ds" m p ds c] cmd_bytes_more [of ds c] lt
      by (subst read_command_loop.simps) (simp add: g)
    then show ?thesis
      using more.IH [of ?s "ds @ [c]"] more.prems(4) True by (simp add: add.commute)
  next
    case False
    let ?s = "s\<lparr>io := l1\<rparr>"
    have "read_command_loop h p (of_nat (length ds)) s = read_command_loop h p (of_nat (length ds)) ?s"
      using more.hyps(2) False lt by (subst read_command_loop.simps) (simp add: g)
    moreover have "length ds = 127" using False more.prems(3) by simp
    then have "cmd_bytes (ds @ cs) = cmd_bytes (ds @ c # cs)" by (simp add: cmd_bytes_def)
    ultimately show ?thesis using more.IH [of ?s ds] more.prems False by simp
  qed
qed

text \<open>The buffer of 128 bytes then holds the first 127 characters of the command, terminated, however long it is.\<close>

lemma read_command_reads:
  assumes "mapped (kmem s) cmd_buf 128" and "line_arrives h (io s) cs l'"
  shows "read_command h cmd_buf s =
    Some (of_nat (min 127 (length cs)), s\<lparr>io := l', kmem := put (kmem s) cmd_buf (cmd_bytes cs)\<rparr>)"
proof -
  have "memset (kmem s) cmd_buf 0 CMD_BUF_SIZE = Some (cmd_buf, put (kmem s) cmd_buf (cmd_bytes []))"
    using memset_put [of "kmem s" cmd_buf CMD_BUF_SIZE 0] assms(1) by (simp add: CMD_BUF_SIZE_def cmd_bytes_def)
  then show ?thesis
    using read_loop_line [OF assms(2), of "s\<lparr>kmem := put (kmem s) cmd_buf (cmd_bytes [])\<rparr>" "kmem s" cmd_buf "[]"] assms(1)
    by (simp add: read_command_def)
qed

lemma line_no_end: "line_arrives h l cs l' \<Longrightarrow> 0 \<notin> set cs"
  by (induction rule: line_arrives.induct) simp_all

lemma cmd_string:
  assumes "0 \<notin> set cs" and "length cs \<le> 127"
  shows "cstr (put m p (cmd_bytes cs)) p cs"
proof -
  have "fetch (put m p (cmd_bytes cs)) p 128 = Some (cmd_bytes cs)"
    using fetch_put_same [of "cmd_bytes cs" m p] by (simp add: cmd_bytes_length)
  then have "fetch (put m p (cmd_bytes cs)) p (Suc (length cs)) = Some (take (Suc (length cs)) (cmd_bytes cs))"
    by (rule fetch_take) (use assms(2) in linarith)
  moreover have "128 - length cs = Suc (127 - length cs)" using assms(2) by simp
  then have "take (Suc (length cs)) (cmd_bytes cs) = cs @ [0]" using assms(2) by (simp add: cmd_bytes_def)
  ultimately show ?thesis using assms(1) by (simp add: cstr_iff_fetch)
qed

text \<open>The test that runs is the first of the table with the name that was sent, and no other.\<close>

lemma run_test_finds:
  assumes "cstr (kmem s) cmd_buf cs" and "\<forall>(p, f) \<in> set cases. cstr (kmem s) p (nm p)"
  shows "run_test cmd_buf cases s =
    (case find (\<lambda>(p, f). nm p = cs) cases of None \<Rightarrow> Some (False, s) | Some (p, f) \<Rightarrow> map_option (Pair True) (f s))"
  using assms(2)
proof (induction cases)
  case (Cons pf cases)
  obtain p f where pf: "pf = (p, f)" by (cases pf)
  then have p: "cstr (kmem s) p (nm p)" using Cons.prems by auto
  have "strcmp (kmem s) cmd_buf p = Some 0 \<longleftrightarrow> nm p = cs" using strcmp_eq_0_iff [OF assms(1) p] by auto
  moreover obtain r where "strcmp (kmem s) cmd_buf p = Some r" using strcmp_cmp_bytes [OF assms(1) p] by blast
  ultimately show ?case using Cons by (auto simp: pf split: Option.bind_splits option.splits)
qed simp

end
