(* ===== verification/Spec2Isabelle.thy ===== *)
theory Spec2Isabelle
  imports Prelude KString PortIO PortBlock Irq Timer Dma Pic Paging Serial Descriptors Block Fdc Floppy
    BlockSource Fat12 Fat12Spec Fat12Names Fat12Read FatVolume
    Fat12Dir Fat12Mount Vfs Elf FileIO ElfMem ElfRun FatPath Sched Process SchedSpec SchedRun SchedInv SchedFair SchedDemo SchedProps ThreadList
    ProcProps VfsProps Spawn KFormat KFormatSpec KFormatRun KFormatProps Console ConsoleProps Shell ShellRun
    ShellDemo ShellProps Kmain SysCall UserProgs Keyboard TestMain
begin

text \<open>
  The kernel of a small 32-bit x86 operating system, modelled from its C sources: the C library's
  string functions, the drivers for the timer, the interrupt and DMA controllers, the serial port
  and the floppy disk, the registry of block devices, the FAT12 file system, the virtual file system
  above it, the ELF loader, processes, threads and the scheduler, the descriptor tables, the
  arithmetic of page tables, formatted output, the order of initialisation in \<open>kmain\<close>, the
  command interpreters of the kernel and of user mode, and the user programs.

  \<^bold>\<open>Parts and theories.\<close>
  \<^item> \<open>Prelude\<close>: words, byte-addressed memory with unmapped addresses, the kernel allocator as a
    parameter with a log of its calls.
  \<^item> \<open>KString\<close> (\<open>libc/string.c\<close>): each function on memory, and what it computes on the byte
    strings memory holds.
  \<^item> \<open>PortIO\<close> and \<open>Irq\<close> (\<open>include/utils.h\<close>, the handlers of \<open>driver/timer.c\<close>,
    \<open>driver/fdc.c\<close>, \<open>driver/serial.c\<close>): port input and output against a hardware parameter
    \<open>hw\<close>, which answers from the log of all port accesses so far, and the delivery of interrupts
    while a loop spins.
  \<^item> \<open>Timer\<close>, \<open>Dma\<close>, \<open>Pic\<close>, \<open>Serial\<close> (the files of these names under \<open>driver/\<close>): what the
    port writes program, by abstract devices that decode them.
  \<^item> \<open>Paging\<close> (\<open>include/mm\<close>), \<open>Descriptors\<close> (\<open>init/gdt.c\<close>, \<open>proc/tss.c\<close>): bit-field structures.
  \<^item> \<open>Block\<close> (\<open>driver/block.c\<close>): the registry refines a list of at most sixteen named devices.
  \<^item> \<open>Fdc\<close> (\<open>driver/fdc.c\<close>) is the driver, \<open>Floppy\<close> the abstract controller it talks to, and the
    proof that the two together read sectors.
  \<^item> \<open>BlockSource\<close>: the contract of a block device as a locale, interpreted on \<open>blkread\<close> over the
    floppy driver.
  \<^item> \<open>Fat12\<close> (\<open>fs/fat12.c\<close>) is the file system; \<open>Fat12Spec\<close> the packed table, \<open>Fat12Read\<close> reading
    inside the contract of a block device, \<open>FatVolume\<close> reading from the floppy, \<open>Fat12Names\<close> the
    conversion of file names, \<open>Fat12Dir\<close> opening a file of the root directory and \<open>Fat12Mount\<close>
    mounting a volume.
  \<^item> \<open>Vfs\<close> (\<open>fs/vfs.c\<close>): the mount table, paths and open files; the operations of a file system are
    reached through function pointers, a record of arguments that \<open>fat_calls\<close> fills with the FAT12
    driver. \<open>Elf\<close> (\<open>proc/elf.c\<close>) loads a program through it. \<open>FileIO\<close> composes them with the drivers
    below: reading an open file in pieces. \<open>ElfMem\<close> says what loading one segment does and what a volume needs to
    stay readable, \<open>ElfRun\<close> has a whole run of the loader, \<open>Spawn\<close> starting the program as a process,
    \<open>FatPath\<close> opening a file of the disk by its path, and \<open>VfsProps\<close> the other properties of both.
  \<^item> \<open>Sched\<close> and \<open>Process\<close> (\<open>proc/process.c\<close>): processes and threads in typed heaps, the ready
    queues as the code's arrays of heads and tails. \<open>SchedSpec\<close> relates the linked queues to lists,
    \<open>SchedRun\<close> states their contract as a locale and interprets it on the code, \<open>SchedInv\<close> has the
    invariant of the scheduler, \<open>SchedFair\<close> its runs (the step relation \<open>kstep\<close>) and rounds,
    \<open>SchedProps\<close> the properties; \<open>ThreadList\<close> is about destroying a thread, \<open>ProcProps\<close> about
    creating processes and threads, and \<open>SchedDemo\<close> holds the concrete state of the witnesses.
  \<^item> \<open>KFormat\<close> (\<open>libc/vsprintf.c\<close>): \<open>vsnprintf\<close> and the routines it calls, reading the format
    from memory, taking arguments from a list of typed values and storing through the buffer
    pointer. \<open>KFormatSpec\<close> parses a format string into items and renders them as lists of bytes,
    \<open>KFormatRun\<close> proves that each routine computes what its specification says, and
    \<open>KFormatProps\<close> has the properties of whole calls.
  \<^item> \<open>Console\<close> (\<open>driver/tty.c\<close>, \<open>libc/stdio.c\<close> where they are called, \<open>printk\<close>, \<open>printf\<close>,
    \<open>getline\<close>): formatted output into an array on the stack and from there to the terminal or the
    system call; \<open>ConsoleProps\<close> shows that it changes nothing else, and what the overrun does.
  \<^item> \<open>Shell\<close> (\<open>init/shell.c\<close>, \<open>user/shall.c\<close>): both command interpreters with every command;
    \<open>ShellRun\<close> proves how a command line is split into words and joined again, \<open>ShellDemo\<close> has
    the concrete machine of the witnesses, \<open>ShellProps\<close> the properties.
  \<^item> \<open>Kmain\<close> (\<open>init/kmain.c\<close>) and \<open>UserProgs\<close> (the programs under \<open>user/\<close>).
  \<^item> \<open>SysCall\<close> (\<open>libc/unitstd.c\<close>, the numbers of \<open>include/init/syscall.h\<close>): the stubs of the
    system calls, and that output over them is \<open>printf\<close>.
  \<^item> \<open>PortBlock\<close> (\<open>outsb\<close> and \<open>insb\<close> of \<open>include/utils.h\<close>): blocks of bytes through a port;
    \<open>Keyboard\<close> (\<open>include/driver/keyboard.h\<close>): the codes of the keys and which keys they tell apart.
  \<^item> \<open>TestMain\<close> (\<open>tests/testmain.c\<close>): the harness of the test build. A number is written in decimal,
    a command of any length is read into its buffer of 128 bytes, and the first test of that name runs.

  \<^bold>\<open>State.\<close> The static variables and the heaps of the C program are records that extend each
  other in the order the components are layered: \<open>kst\<close> (memory, allocator log), \<open>mach\<close> (port log,
  interrupt table, ticks), \<open>blk\<close>, \<open>fdcst\<close>, \<open>fsst\<close>, \<open>vfsst\<close>, \<open>procst\<close>, \<open>ttyst\<close>
  (the log of the calls into the terminal). A user program runs on a memory of its own and a log of
  its system calls, the record \<open>ust\<close>. Structures the code allocates are records
  in typed heaps, partial functions from addresses; strings, buffers, disk sectors and the structures
  the code overlays on raw bytes are bytes in \<open>kmem\<close>. Addresses of static objects and string
  literals are parameters. A result of type option is \<open>None\<close> exactly where the C program would
  access memory that is not there, divide by zero, call through an address that is not a function,
  or loop for ever. C integers are words of their width; an error code \<open>-1\<close> is the word of all
  ones.

  \<^bold>\<open>Bounds.\<close> The polling loops of the drivers keep the bounds of the code (500 polls, 10 retries).
  Loops that wait for an interrupt have no bound in the code and are partial functions; theorems about
  them assume that the hardware delivers (\<open>ticking\<close>, \<open>floppy_ok\<close>) and show that they return.

  \<^bold>\<open>From a disk to a program.\<close> The properties of the file system compose: what \<open>fat12_mount\<close> leaves is
  what \<open>fat12_open\<close> needs (\<open>on_volume\<close>), the node it returns is a file that can be read (\<open>file_at\<close>),
  \<open>vfs_read\<close> is a cursor in the content of that file, \<open>elf_load\<close> places every segment of a program in
  memory, and \<open>process_spawn\<close> posts a thread that starts at its entry point. Each of them runs down to the port
  accesses of the floppy driver. The last two are about a path that has been resolved: what \<open>vfs_open\<close>
  returns for it is a hypothesis, which \<open>vfs_open_fat\<close> gives for a path into a mounted volume; so are the maps the memory manager makes (\<open>maps_regions\<close>) and that the areas
  involved do not overlap (\<open>loader_ready\<close>, \<open>spawn_ready\<close>).

  \<^bold>\<open>Not modelled.\<close> The memory managers, keyboard, console and interrupt entry are only present
  as object files: the allocator is a parameter, the functions of the memory manager that other
  components call are a record of parameters (\<open>vmm\<close>), calls into the terminal and system calls are
  logged with the bytes they pass, and the line a read returns is a parameter. Log messages of
  the drivers are left out, as they have no effect on the state of the driver; those of \<open>kmain\<close> are
  modelled. Boot code and the entry of system calls are assembly: what
  interrupt \<open>0x80\<close> does is a parameter of the stubs. Resuming a
  thread is assembly: the model returns the address of the registers it restores (\<open>outcome\<close>).
  Interrupts that arrive between two statements of the scheduler are not modelled; the code runs
  it with interrupts disabled but for the end of \<open>scheduler_post\<close>. The header of the IDE disk only names
  registers for code that is not in the repository, and so do the controller commands in that of the keyboard.
  Port input and output of 16-bit words is not modelled, as no driver of the repository uses it, and neither are the
  test functions themselves.
\<close>

end
